(* ===== verification/Prelude.thy ===== *)
theory Prelude
  imports Main "HOL-Library.Word"
begin

text \<open>
  What every component shares: the named collections that carry the component proofs, the
  machine types of the Go code, Go error values with \<open>errors.Is\<close>, log records, and generic
  lemmas on words, lists and options.
\<close>

section \<open>Collections\<close>

text \<open>
  \<open>wiring\<close> collects the defining equations of constructors and one-line accessors that proofs
  unfold freely; \<open>runs\<close> collects the facts that an operation cannot panic on the states the
  daemon reaches; \<open>frame\<close> collects the facts that an operation leaves a part of the state alone.
\<close>

named_theorems wiring \<open>equations of constructors and accessors\<close>
named_theorems runs \<open>operations that return without a panic\<close>
named_theorems frame \<open>parts of the state an operation does not write\<close>

section \<open>Machine types\<close>

type_synonym u8 = "8 word"
type_synonym u32 = "32 word"
type_synonym u64 = "64 word"
type_synonym i64 = "64 word"

text \<open>
  \<open>time.Duration\<close> is a signed 64-bit count of nanoseconds: a \<open>64 word\<close> read by \<open>sint\<close>.
  A Go \<open>int\<close> whose overflow the code never meets is an \<open>int\<close>.
\<close>

type_synonym duration = i64

abbreviation duration_less :: "duration \<Rightarrow> duration \<Rightarrow> bool" where
  "duration_less a b \<equiv> sint a < sint b"

abbreviation duration_le :: "duration \<Rightarrow> duration \<Rightarrow> bool" where
  "duration_le a b \<equiv> sint a \<le> sint b"

abbreviation nanosecond :: duration where "nanosecond \<equiv> 1"
abbreviation second :: duration where "second \<equiv> 1000000000"
abbreviation minute :: duration where "minute \<equiv> 60000000000"
abbreviation hour :: duration where "hour \<equiv> 3600000000000"

section \<open>Go errors\<close>

text \<open>
  The error values of the program. A sentinel (\<open>var ErrX = errors.New(...)\<close>) is compared by
  identity; \<open>fmt.Errorf\<close> with and without a wrapped error keeps its format string and its
  arguments, so the rendered message is a function of the value; \<open>errors.Join\<close> keeps its list;
  \<open>Foreign\<close> is an error made by code outside the repository (the operating system, the network,
  a third-party package).
\<close>

datatype sentinel =
    Mmdb_ErrNoCountries
  | Diskcache_ErrAbsent
  | Diskcache_ErrStale
  | Fetcher_ErrNotPublished
  | Os_ErrNotExist
  | Http_ErrServerClosed
  | Context_Canceled
  | Io_EOF
  | Io_ErrUnexpectedEOF
  | Gzip_ErrHeader
  | Gzip_ErrChecksum

datatype fmt_arg = FStr string | FInt int | FDur duration

datatype go_error =
    Sentinel sentinel
  | New_error string
  | Errorf string "fmt_arg list"
  | Wrapf string "fmt_arg list" go_error
  | Joined "go_error list"
  | Foreign string

text \<open>\<open>errors.Is(err, target)\<close> for a sentinel target: the chain of wrapped errors, depth first.\<close>

fun errors_is :: "go_error \<Rightarrow> sentinel \<Rightarrow> bool" where
  "errors_is (Sentinel s) t \<longleftrightarrow> s = t"
| "errors_is (New_error _) t \<longleftrightarrow> False"
| "errors_is (Errorf _ _) t \<longleftrightarrow> False"
| "errors_is (Wrapf _ _ e) t \<longleftrightarrow> errors_is e t"
| "errors_is (Joined es) t \<longleftrightarrow> (\<exists>e \<in> set es. errors_is e t)"
| "errors_is (Foreign _) t \<longleftrightarrow> False"

text \<open>A call that returns a value or a Go error.\<close>

type_synonym 'a result = "go_error + 'a"

section \<open>Log records\<close>

datatype log_level = Debug | Info | Warn | Error

datatype attr_value =
    AStr string
  | ABool bool
  | AInt int
  | AUint u64
  | ADur duration
  | AStrs "string list"
  | AErr go_error

record log_record =
  level :: log_level
  msg :: string
  attrs :: "(string \<times> attr_value) list"

abbreviation logged :: "log_level \<Rightarrow> string \<Rightarrow> (string \<times> attr_value) list \<Rightarrow> log_record" where
  "logged l m as \<equiv> \<lparr>level = l, msg = m, attrs = as\<rparr>"

section \<open>Generic lemmas\<close>

lemma take_upt_map: "k \<le> n \<Longrightarrow> take k (map f [0..<n]) = map f [0..<k]"
  by (simp add: take_map)

lemma map_upt_eq_iff: "map f [0..<n] = map g [0..<n] \<longleftrightarrow> (\<forall>i<n. f i = g i)"
  by (auto simp: list_eq_iff_nth_eq)

text \<open>Equality of the top \<open>k\<close> bits of a word, as equality of the shifted words.\<close>

lemma drop_bit_eq_iff:
  fixes v w :: "'a::len word"
  shows "drop_bit m v = drop_bit m w \<longleftrightarrow> (\<forall>i. m \<le> i \<longrightarrow> i < LENGTH('a) \<longrightarrow> bit v i = bit w i)"
proof
  assume eq: "drop_bit m v = drop_bit m w"
  show "\<forall>i. m \<le> i \<longrightarrow> i < LENGTH('a) \<longrightarrow> bit v i = bit w i"
  proof (intro allI impI)
    fix i assume "m \<le> i" "i < LENGTH('a)"
    from eq have "bit (drop_bit m v) (i - m) = bit (drop_bit m w) (i - m)" by simp
    with \<open>m \<le> i\<close> show "bit v i = bit w i" by (simp add: bit_simps)
  qed
next
  assume R: "\<forall>i. m \<le> i \<longrightarrow> i < LENGTH('a) \<longrightarrow> bit v i = bit w i"
  show "drop_bit m v = drop_bit m w"
  proof (rule bit_word_eqI)
    fix n assume "n < LENGTH('a)"
    show "bit (drop_bit m v) n = bit (drop_bit m w) n"
      using R bit_imp_le_length[of v "m + n"] bit_imp_le_length[of w "m + n"]
      by (cases "m + n < LENGTH('a)") (auto simp: bit_simps)
  qed
qed

text \<open>Folding an operation that keeps an invariant keeps it.\<close>

lemma fold_invariant_step:
  "(\<And>x s. x \<in> set xs \<Longrightarrow> P s \<Longrightarrow> P (f x s)) \<Longrightarrow> P s \<Longrightarrow> P (fold f xs s)"
  by (induction xs arbitrary: s) auto

text \<open>Functions with the same kernel on a set have images of the same size.\<close>

lemma card_image_eq:
  assumes "\<And>x y. x \<in> A \<Longrightarrow> y \<in> A \<Longrightarrow> f x = f y \<longleftrightarrow> g x = g y"
  shows "card (f ` A) = card (g ` A)"
proof -
  define h where "h z = g (inv_into A f z)" for z
  have h: "h (f x) = g x" if "x \<in> A" for x
  proof -
    have "f (inv_into A f (f x)) = f x" "inv_into A f (f x) \<in> A"
      using that by (auto intro: f_inv_into_f inv_into_into)
    with that assms show ?thesis unfolding h_def by blast
  qed
  have "inj_on h (f ` A)"
  proof (rule inj_onI)
    fix u v assume "u \<in> f ` A" "v \<in> f ` A" "h u = h v"
    then show "u = v" using h assms by (auto simp: image_iff)
  qed
  moreover have "h ` f ` A = g ` A" using h by (auto simp: image_iff) 
  ultimately show ?thesis by (metis card_image)
qed

end
