(* ===== verification/Go_Text.thy ===== *)
theory Go_Text
  imports Prelude
begin

text \<open>
  The text functions of the Go standard library the program uses: \<open>strings.TrimSpace\<close>,
  \<open>strings.Split\<close>, decimal and hexadecimal rendering, \<open>net.JoinHostPort\<close>, \<open>Duration.Round\<close> and
  \<open>Duration.String\<close>. A Go string is its list of bytes.
\<close>

section \<open>Trimming and splitting\<close>

text \<open>The encodings of the code points \<open>unicode.IsSpace\<close> accepts.\<close>

definition space_runes :: "string list" where
  "space_runes =
     [[CHR 0x09], [CHR 0x0A], [CHR 0x0B], [CHR 0x0C], [CHR 0x0D], [CHR 0x20],
      [CHR 0xC2, CHR 0x85], [CHR 0xC2, CHR 0xA0], [CHR 0xE1, CHR 0x9A, CHR 0x80],
      [CHR 0xE2, CHR 0x80, CHR 0x80], [CHR 0xE2, CHR 0x80, CHR 0x81],
      [CHR 0xE2, CHR 0x80, CHR 0x82], [CHR 0xE2, CHR 0x80, CHR 0x83],
      [CHR 0xE2, CHR 0x80, CHR 0x84], [CHR 0xE2, CHR 0x80, CHR 0x85],
      [CHR 0xE2, CHR 0x80, CHR 0x86], [CHR 0xE2, CHR 0x80, CHR 0x87],
      [CHR 0xE2, CHR 0x80, CHR 0x88], [CHR 0xE2, CHR 0x80, CHR 0x89],
      [CHR 0xE2, CHR 0x80, CHR 0x8A], [CHR 0xE2, CHR 0x80, CHR 0xA8],
      [CHR 0xE2, CHR 0x80, CHR 0xA9], [CHR 0xE2, CHR 0x80, CHR 0xAF],
      [CHR 0xE2, CHR 0x81, CHR 0x9F], [CHR 0xE3, CHR 0x80, CHR 0x80]]"

text \<open>The rest of a string after a prefix, and after the first of several prefixes that fits.\<close>

fun after_prefix :: "string \<Rightarrow> string \<Rightarrow> string option" where
  "after_prefix [] s = Some s"
| "after_prefix (_ # _) [] = None"
| "after_prefix (p # ps) (c # cs) = (if p = c then after_prefix ps cs else None)"

fun after_some :: "string list \<Rightarrow> string \<Rightarrow> string option" where
  "after_some [] s = None"
| "after_some (p # ps) s = (case after_prefix p s of Some r \<Rightarrow> Some r | None \<Rightarrow> after_some ps s)"

text \<open>Dropping prefixes while one fits; each takes at least one byte, so the length is fuel enough.\<close>

fun drop_some :: "nat \<Rightarrow> string list \<Rightarrow> string \<Rightarrow> string" where
  "drop_some 0 ps s = s"
| "drop_some (Suc n) ps s = (case after_some ps s of None \<Rightarrow> s | Some r \<Rightarrow> drop_some n ps r)"

definition trim_space :: "string \<Rightarrow> string" where
  "trim_space s =
     (let l = drop_some (length s) space_runes s
      in rev (drop_some (length l) (map rev space_runes) (rev l)))"

fun split_on :: "char \<Rightarrow> string \<Rightarrow> string list" where
  "split_on c [] = [[]]"
| "split_on c (x # xs) =
     (if x = c then [] # split_on c xs
      else (case split_on c xs of [] \<Rightarrow> [[x]] | w # ws \<Rightarrow> (x # w) # ws))"

lemma split_on_nonempty [simp]: "split_on c s \<noteq> []"
  by (induction s) (auto split: list.splits)

lemma split_on_no_sep: "c \<notin> set s \<Longrightarrow> split_on c s = [s]"
  by (induction s) auto

lemma split_on_append: "c \<notin> set w \<Longrightarrow> split_on c (w @ c # s) = w # split_on c s"
  by (induction w) auto

text \<open>The text between separators, put back together.\<close>

fun join_with :: "char \<Rightarrow> string list \<Rightarrow> string" where
  "join_with c [] = []"
| "join_with c [w] = w"
| "join_with c (w # v # ws) = w @ c # join_with c (v # ws)"

lemma split_join:
  "ws \<noteq> [] \<Longrightarrow> \<forall>w \<in> set ws. c \<notin> set w \<Longrightarrow> split_on c (join_with c ws) = ws"
  by (induction c ws rule: join_with.induct) (auto simp: split_on_no_sep split_on_append)

section \<open>Numbers\<close>

definition digit_char :: "nat \<Rightarrow> char" where
  "digit_char d = char_of (48 + d)"

fun nat_dec :: "nat \<Rightarrow> string" where
  "nat_dec n = (if n < 10 then [digit_char n] else nat_dec (n div 10) @ [digit_char (n mod 10)])"

declare nat_dec.simps [simp del]

definition int_dec :: "int \<Rightarrow> string" where
  "int_dec i = (if i < 0 then CHR ''-'' # nat_dec (nat (- i)) else nat_dec (nat i))"

definition hex_char :: "nat \<Rightarrow> char" where
  "hex_char d = (if d < 10 then char_of (48 + d) else char_of (87 + d))"

text \<open>\<open>hex.EncodeToString\<close>: two lower-case digits a byte.\<close>

definition byte_hex :: "u8 \<Rightarrow> string" where
  "byte_hex b = [hex_char (unat b div 16), hex_char (unat b mod 16)]"

definition hex_string :: "u8 list \<Rightarrow> string" where
  "hex_string bs = concat (map byte_hex bs)"

lemma length_hex_string [simp]: "length (hex_string bs) = 2 * length bs"
  by (induction bs) (auto simp: hex_string_def byte_hex_def)

text \<open>A number below \<open>100\<close> as two digits, and zero-padding to a width.\<close>

definition pad_left :: "nat \<Rightarrow> string \<Rightarrow> string" where
  "pad_left w s = replicate (w - length s) CHR ''0'' @ s"

text \<open>\<open>net.JoinHostPort\<close>: a host with a colon is bracketed.\<close>

definition join_host_port :: "string \<Rightarrow> string \<Rightarrow> string" where
  "join_host_port h p =
     (if CHR '':'' \<in> set h then ''['' @ h @ '']:'' @ p else h @ '':'' @ p)"

section \<open>Durations\<close>

text \<open>Go's remainder truncates towards zero.\<close>

definition go_rem :: "int \<Rightarrow> int \<Rightarrow> int" where
  "go_rem a b = sgn a * (\<bar>a\<bar> mod \<bar>b\<bar>)"

definition go_quot :: "int \<Rightarrow> int \<Rightarrow> int" where
  "go_quot a b = sgn a * sgn b * (\<bar>a\<bar> div \<bar>b\<bar>)"

definition max_duration :: duration where "max_duration = 0x7FFFFFFFFFFFFFFF"
definition min_duration :: duration where "min_duration = 0x8000000000000000"

text \<open>\<open>Duration.Round\<close> for a positive \<open>m\<close>: halves away from zero, saturating.\<close>

definition duration_round :: "duration \<Rightarrow> duration \<Rightarrow> duration" where
  "duration_round d m =
     (if sint m \<le> 0 then d
      else
        let r = go_rem (sint d) (sint m) in
        if sint d < 0 then
          (let r = - r in
           if 2 * r < sint m then d + word_of_int r
           else
             let d1 = d - m + word_of_int r
             in if duration_less d1 d then d1 else min_duration)
        else if 2 * r < sint m then d - word_of_int r
        else
          let d1 = d + m - word_of_int r
          in if duration_less d d1 then d1 else max_duration)"

text \<open>
  \<open>fmtFrac\<close>: the fraction of \<open>v / 10^prec\<close> without trailing zeros, and the integer part; the
  digits are produced from the last.
\<close>

fun fmt_frac :: "nat \<Rightarrow> nat \<Rightarrow> bool \<Rightarrow> string \<Rightarrow> string \<times> nat" where
  "fmt_frac 0 v pr acc = (if pr then CHR ''.'' # acc else acc, v)"
| "fmt_frac (Suc n) v pr acc =
     (let d = v mod 10; pr' = (pr \<or> d \<noteq> 0)
      in fmt_frac n (v div 10) pr' (if pr' then digit_char d # acc else acc))"

definition duration_string :: "duration \<Rightarrow> string" where
  "duration_string d =
     (let u = nat \<bar>sint d\<bar>;
          body =
            (if u < 1000000000 then
               (if u = 0 then ''0s''
                else if u < 1000 then nat_dec u @ ''ns''
                else if u < 1000000 then
                  (let (f, v) = fmt_frac 3 u False [] in nat_dec v @ f @ [CHR 0xC2, CHR 0xB5, CHR ''s''])
                else (let (f, v) = fmt_frac 6 u False [] in nat_dec v @ f @ ''ms''))
             else
               (let (f, v) = fmt_frac 9 u False [];
                    m = v div 60
                in (if m > 0
                    then (if m div 60 > 0 then nat_dec (m div 60) @ ''h'' else []) @ nat_dec (m mod 60) @ ''m''
                    else [])
                   @ nat_dec (v mod 60) @ f @ ''s''))
      in if sint d < 0 then CHR ''-'' # body else body)"

lemma fmt_frac_numeral [simp]:
  "fmt_frac (numeral k) v pr acc =
     (let d = v mod 10; pr' = (pr \<or> d \<noteq> 0)
      in fmt_frac (pred_numeral k) (v div 10) pr' (if pr' then digit_char d # acc else acc))"
  by (simp only: numeral_eq_Suc[of k] fmt_frac.simps)

lemma duration_string_examples:
  "duration_string 0 = ''0s''" "duration_string (90 * second) = ''1m30s''"
  "duration_string (2 * second) = ''2s''" "duration_string (48 * hour) = ''48h0m0s''"
  "duration_string (1500 * 1000000) = ''1.5s''"
  by (simp_all add: duration_string_def nat_dec.simps digit_char_def char_of_def bit_0)

end
