(* ===== verification/Go_IO.thy ===== *)
theory Go_IO
  imports Go_Text
begin

text \<open>
  What the daemon uses of \<open>io\<close>, \<open>path/filepath\<close>, \<open>os\<close> and \<open>time\<close>: readers as the sequence of
  results of their \<open>Read\<close> calls, \<open>io.ReadAll\<close> on an \<open>io.LimitReader\<close>, \<open>filepath.Dir\<close>, a
  file system whose files can lose data that was not synced, and instants as nanoseconds.
\<close>

section \<open>Readers\<close>

text \<open>
  A reader is the list of what its reads return: some bytes and possibly an error with them. The
  end of the list is \<open>io.EOF\<close>. A read into a buffer shorter than the next piece returns the part
  that fits, without the error that comes with the end of the piece.
\<close>

type_synonym reader = "(u8 list \<times> go_error option) list"

fun read_limited :: "nat \<Rightarrow> reader \<Rightarrow> u8 list \<times> go_error option" where
  "read_limited n [] = ([], None)"
| "read_limited n ((bs, err) # rs) =
     (if n = 0 then ([], None)
      else if n < length bs then (take n bs, None)
      else
        (case err of
           Some e \<Rightarrow> (bs, Some e)
         | None \<Rightarrow> (let (r, e) = read_limited (n - length bs) rs in (bs @ r, e))))"

text \<open>Everything a reader delivers before its first error, and that error.\<close>

fun delivered :: "reader \<Rightarrow> u8 list \<times> go_error option" where
  "delivered [] = ([], None)"
| "delivered ((bs, err) # rs) =
     (case err of
        Some e \<Rightarrow> (bs, Some e)
      | None \<Rightarrow> (let (r, e) = delivered rs in (bs @ r, e)))"

text \<open>A limit above what is delivered is invisible; a limit below it cuts, without an error.\<close>

lemma read_limited_whole:
  "length (fst (delivered r)) < n \<Longrightarrow> read_limited n r = delivered r"
  by (induction n r rule: read_limited.induct) (auto split: option.splits prod.splits)

lemma read_limited_length: "length (fst (read_limited n r)) \<le> n"
  by (induction n r rule: read_limited.induct) (auto split: option.splits prod.splits)

lemma read_limited_cut:
  "n \<le> length (fst (delivered r)) \<Longrightarrow> length (fst (read_limited n r)) = n"
proof (induction n r rule: read_limited.induct)
  case (2 n bs err rs)
  then show ?case by (auto split: option.splits prod.splits)
qed simp

text \<open>\<open>bytes.NewReader(b)\<close>.\<close>

definition bytes_reader :: "u8 list \<Rightarrow> reader" where
  "bytes_reader b = [(b, None)]"

lemma delivered_bytes_reader [simp]: "delivered (bytes_reader b) = (b, None)"
  by (simp add: bytes_reader_def)

section \<open>Paths\<close>

text \<open>
  \<open>filepath.Clean\<close> on Unix, with the kept elements in reverse: empty elements and \<open>.\<close> go,
  \<open>..\<close> removes the element before it and disappears at the root.
\<close>

fun clean_elements :: "bool \<Rightarrow> string list \<Rightarrow> string list \<Rightarrow> string list" where
  "clean_elements rooted acc [] = rev acc"
| "clean_elements rooted acc (e # es) =
     (if e = '''' \<or> e = ''.'' then clean_elements rooted acc es
      else if e = ''..'' then
        (case acc of
           [] \<Rightarrow> clean_elements rooted (if rooted then [] else [''..'']) es
         | a # as \<Rightarrow> clean_elements rooted (if a = ''..'' then ''..'' # acc else as) es)
      else clean_elements rooted (e # acc) es)"

definition filepath_clean :: "string \<Rightarrow> string" where
  "filepath_clean p =
     (let rooted = (p \<noteq> '''' \<and> hd p = CHR ''/'');
          body = join_with CHR ''/'' (clean_elements rooted [] (split_on CHR ''/'' p))
      in if rooted then CHR ''/'' # body else if body = '''' then ''.'' else body)"

text \<open>\<open>filepath.Dir\<close>: the path up to its last slash, cleaned.\<close>

definition filepath_dir :: "string \<Rightarrow> string" where
  "filepath_dir p = filepath_clean (rev (dropWhile (\<lambda>c. c \<noteq> CHR ''/'') (rev p)))"

section \<open>Time\<close>

text \<open>An instant of the wall clock, in nanoseconds since the Unix epoch.\<close>

type_synonym instant = int

text \<open>\<open>Time.Sub\<close> saturates; \<open>Time.UnixNano\<close> wraps outside the years 1678 to 2262.\<close>

definition time_sub :: "instant \<Rightarrow> instant \<Rightarrow> duration" where
  "time_sub t u =
     (if t - u < sint min_duration then min_duration
      else if sint max_duration < t - u then max_duration
      else word_of_int (t - u))"

definition unix_nano :: "instant \<Rightarrow> i64" where
  "unix_nano t = word_of_int t"

lemma sint_max_duration: "sint max_duration = 2 ^ 63 - 1"
  by (simp add: max_duration_def)

lemma sint_min_duration: "sint min_duration = - (2 ^ 63)"
  by (simp add: min_duration_def)

lemma sint_of_int64: "- (2 ^ 63) \<le> k \<Longrightarrow> k < 2 ^ 63 \<Longrightarrow> sint (word_of_int k :: 64 word) = k"
  by (simp add: sint_sbintrunc' signed_take_bit_int_eq_self)

lemma sint_time_sub: "sint (time_sub t u) = min (2 ^ 63 - 1) (max (- (2 ^ 63)) (t - u))"
    using sint_of_int64[of "t - u"]
  by (simp add: time_sub_def sint_max_duration sint_min_duration min_def max_def del: of_int_diff)

section \<open>Files\<close>

text \<open>
  A file (\<open>inode\<close>) has its bytes, its modification time, and whether its bytes have reached the disk. A
  file system maps path names to files; a rename replaces the target in one step.
\<close>

record inode =
  data :: "u8 list"
  mtime :: instant
  synced :: bool

type_synonym fs = "string \<Rightarrow> inode option"

text \<open>
  What a machine crash can leave of a file system, given the states it went through, the present
  one first. A rename is atomic, but it is durable only once the directory is flushed: so every
  name may be back at what it stood for in any of these states. The bytes of a file that was synced
  are kept, and a file that was not may hold any bytes at all.
\<close>

fun survives :: "inode option \<Rightarrow> inode option \<Rightarrow> bool" where
  "survives None g \<longleftrightarrow> g = None"
| "survives (Some f) g \<longleftrightarrow> (\<exists>h. g = Some h \<and> (synced f \<longrightarrow> data h = data f))"

definition crash_image :: "fs list \<Rightarrow> fs \<Rightarrow> bool" where
  "crash_image Fs G \<longleftrightarrow> (\<forall>p. \<exists>F \<in> set Fs. survives (F p) (G p))"

lemma survives_data: "survives x g \<Longrightarrow> (\<forall>f. x = Some f \<longrightarrow> synced f) \<Longrightarrow> map_option data g = map_option data x"
  by (cases x) auto

lemma crash_image_data:
  assumes "crash_image Fs G" "\<forall>F \<in> set Fs. \<forall>f. F p = Some f \<longrightarrow> synced f"
  obtains F where "F \<in> set Fs" "map_option data (G p) = map_option data (F p)"
proof -
  obtain F where F: "F \<in> set Fs" "survives (F p) (G p)" using assms(1) by (auto simp: crash_image_def)
  with assms(2) survives_data[OF F(2)] that show thesis by blast
qed

end
