(* ===== verification/Civil.thy ===== *)
theory Civil
  imports Go_IO
begin

text \<open>
  The calendar of \<open>time.Time\<close> in UTC, as far as the fetcher uses it: \<open>Date\<close>, \<open>AddDate\<close> by
  days, and the layout \<open>2006-01\<close>. A date is found from a count of days by the cycles of 400, 100,
  4 and 1 years, as in the package \<open>time\<close>; the lemmas relate it to the inverse count
  \<open>day_number\<close>.
\<close>

section \<open>Dates\<close>

definition leap :: "int \<Rightarrow> bool" where
  "leap y \<longleftrightarrow> y mod 4 = 0 \<and> (y mod 100 \<noteq> 0 \<or> y mod 400 = 0)"

text \<open>Days before month \<open>m\<close> (1 to 13) in a year that is not a leap year.\<close>

definition days_before :: "int \<Rightarrow> int" where
  "days_before m = [0, 31, 59, 90, 120, 151, 181, 212, 243, 273, 304, 334, 365] ! nat (m - 1)"

text \<open>Year and day of the year, from the days since 1 January of the year 1.\<close>

definition year_day :: "int \<Rightarrow> int \<times> int" where
  "year_day n =
     (let a = n div 146097; d1 = n mod 146097;
          b0 = d1 div 36524; b = b0 - b0 div 4; d2 = d1 - 36524 * b;
          c = d2 div 1461; d3 = d2 mod 1461;
          e0 = d3 div 365; e = e0 - e0 div 4; d4 = d3 - 365 * e
      in (400 * a + 100 * b + 4 * c + e + 1, d4))"

text \<open>Month and day, from the day of the year: the leap day is taken out first.\<close>

definition month_day :: "bool \<Rightarrow> int \<Rightarrow> int \<times> int" where
  "month_day lp yday =
     (if lp \<and> yday = 59 then (2, 29)
      else
        (let d = (if lp \<and> 59 < yday then yday - 1 else yday);
             m0 = d div 31 + 1;
             m = (if days_before (m0 + 1) \<le> d then m0 + 1 else m0)
         in (m, d - days_before m + 1)))"

definition date_of_days :: "int \<Rightarrow> int \<times> int \<times> int" where
  "date_of_days n = (let (y, yday) = year_day n; (m, d) = month_day (leap y) yday in (y, m, d))"

text \<open>\<open>t.UTC().Date()\<close>; 719162 days lie between 1 January of the year 1 and the epoch.\<close>

definition utc_day :: "instant \<Rightarrow> int" where
  "utc_day t = t div 86400000000000 + 719162"

definition utc_date :: "instant \<Rightarrow> int \<times> int \<times> int" where
  "utc_date t = date_of_days (utc_day t)"

text \<open>\<open>t.AddDate(0, 0, k)\<close> in UTC, where every day has 24 hours.\<close>

definition add_days :: "instant \<Rightarrow> int \<Rightarrow> instant" where
  "add_days t k = t + k * 86400000000000"

text \<open>\<open>t.Format("2006-01")\<close>.\<close>

definition format_month :: "int \<times> int \<Rightarrow> string" where
  "format_month ym =
     (case ym of (y, m) \<Rightarrow>
       (if y < 0 then CHR ''-'' # pad_left 4 (int_dec (- y)) else pad_left 4 (int_dec y))
         @ ''-'' @ pad_left 2 (int_dec m))"

section \<open>The count of days\<close>

definition year_start :: "int \<Rightarrow> int" where
  "year_start y = 365 * (y - 1) + (y - 1) div 4 - (y - 1) div 100 + (y - 1) div 400"

definition year_length :: "int \<Rightarrow> int" where
  "year_length y = (if leap y then 366 else 365)"

definition month_start :: "int \<Rightarrow> int \<Rightarrow> int" where
  "month_start y m = year_start y + days_before m + (if leap y \<and> 2 < m then 1 else 0)"

lemma quotient_eq: "0 \<le> r \<Longrightarrow> r < k \<Longrightarrow> x = k * q + r \<Longrightarrow> x div k = (q :: int)"
  by simp

lemma remainder_eq: "0 \<le> r \<Longrightarrow> r < k \<Longrightarrow> x = k * q + r \<Longrightarrow> x mod k = (r :: int)"
  by simp

text \<open>Four equal parts, the last of which may have one day more.\<close>

lemma capped_quotient:
  fixes s d :: int
  assumes "0 < s" "0 \<le> d" "d \<le> 4 * s" and k: "k = d div s - (d div s) div 4"
  shows "0 \<le> k \<and> k \<le> 3 \<and> 0 \<le> d - s * k \<and> (d - s * k < s \<or> k = 3 \<and> d - s * k = s)"
proof -
  define q where "q = d div s"
  have d: "d = s * q + d mod s" "0 \<le> d mod s" "d mod s < s" using assms(1) by (simp_all add: q_def)
  have "0 \<le> q" using assms(1,2) by (simp add: q_def pos_imp_zdiv_nonneg_iff)
  moreover have "q \<le> 4" using zdiv_mono1[OF assms(3,1)] assms(1) by (simp add: q_def)
  ultimately consider "q = 0" | "q = 1" | "q = 2" | "q = 3" | "q = 4" by linarith
  then show ?thesis
  proof cases
    case 5
    then have "d = 4 * s" using d assms(3) by simp
    then show ?thesis using assms(1) by (simp add: k)
  qed (use d in \<open>simp_all add: k q_def[symmetric]\<close>)
qed

lemma year_day_start:
  assumes "year_day n = (y, yd)"
  shows "n = year_start y + yd" "0 \<le> yd" "yd < year_length y"
proof -
  define a d1 where "a = n div 146097" and "d1 = n mod 146097"
  define b where "b = d1 div 36524 - (d1 div 36524) div 4"
  define d2 where "d2 = d1 - 36524 * b"
  define c d3 where "c = d2 div 1461" and "d3 = d2 mod 1461"
  define e where "e = d3 div 365 - (d3 div 365) div 4"
  have y: "y = 400 * a + 100 * b + 4 * c + e + 1" and yd: "yd = d3 - 365 * e"
    using assms unfolding year_day_def Let_def a_def[symmetric] d1_def[symmetric] b_def[symmetric]
      d2_def[symmetric] c_def[symmetric] d3_def[symmetric] e_def[symmetric]
    by (simp_all only: prod.inject)
  have d1: "0 \<le> d1" "d1 < 146097" "n = 146097 * a + d1" by (auto simp: d1_def a_def)
  have b: "0 \<le> b" "b \<le> 3" "0 \<le> d2" "d2 < 36524 \<or> b = 3 \<and> d2 = 36524"
    using capped_quotient[of 36524 d1 b] d1(1,2) by (simp_all add: b_def d2_def)
  have c: "0 \<le> c" "c \<le> 24" "0 \<le> d3" "d3 < 1461" "d2 = 1461 * c + d3"
    using b(3,4) zdiv_mono1[of d2 36524 1461]
    by (auto simp: c_def d3_def pos_imp_zdiv_nonneg_iff)
  have e: "0 \<le> e" "e \<le> 3" "0 \<le> yd" "yd < 365 \<or> e = 3 \<and> yd = 365"
    using capped_quotient[of 365 d3 e] c(3,4) by (simp_all add: e_def yd)
  have q: "(y - 1) div 4 = 100 * a + 25 * b + c" "(y - 1) div 100 = 4 * a + b" "(y - 1) div 400 = a"
    using b(1,2) c(1,2) e(1,2) quotient_eq[of e 4 "y - 1"] quotient_eq[of "4 * c + e" 100 "y - 1"]
      quotient_eq[of "100 * b + 4 * c + e" 400 "y - 1"] by (simp_all add: y)
  have d2: "d2 = d1 - 36524 * b" by (rule d2_def)
  have d3: "d3 = 365 * e + yd" by (simp add: yd)
  show "n = year_start y + yd"
    unfolding year_start_def q using y d1(3) d2 c(5) d3 by (simp add: algebra_simps)
  show "0 \<le> yd" by (rule e(3))
  show "yd < year_length y"
  proof (cases "yd = 365")
    case True
    then have "e = 3" "d3 = 1460" using e(4) d3 by auto
    have "leap y"
    proof (cases "c = 24")
      case True
      then have "b = 3" using b(4) c(5) \<open>d3 = 1460\<close> by auto
      then have "y = 400 * (a + 1)" using True \<open>e = 3\<close> y by simp
      then show ?thesis by (simp add: leap_def)
    next
      case False
      then have "y mod 100 = 4 * c + 4"
        using c(1,2) \<open>e = 3\<close> y by (intro remainder_eq[of _ _ _ "4 * a + b"]) auto
      moreover have "y mod 4 = 0"
        using \<open>e = 3\<close> y by (intro remainder_eq[of _ _ _ "100 * a + 25 * b + c + 1"]) auto
      ultimately show ?thesis using c(1) by (simp add: leap_def)
    qed
    then show ?thesis using True by (simp add: year_length_def)
  next
    case False
    then show ?thesis using e(4) by (auto simp: year_length_def)
  qed
qed


lemma days_before_simps [simp]:
  "days_before 1 = 0" "days_before 2 = 31" "days_before 3 = 59" "days_before 4 = 90"
  "days_before 5 = 120" "days_before 6 = 151" "days_before 7 = 181" "days_before 8 = 212"
  "days_before 9 = 243" "days_before 10 = 273" "days_before 11 = 304" "days_before 12 = 334"
  "days_before 13 = 365"
  by (simp_all add: days_before_def)

abbreviation leap_shift :: "bool \<Rightarrow> int \<Rightarrow> int" where
  "leap_shift lp m \<equiv> (if lp \<and> 2 < m then 1 else 0)"

lemma month_cases:
  assumes "1 \<le> m" "m \<le> (12 :: int)"
  obtains "m = 1" | "m = 2" | "m = 3" | "m = 4" | "m = 5" | "m = 6"
    | "m = 7" | "m = 8" | "m = 9" | "m = 10" | "m = 11" | "m = 12"
proof -
  have "m = 1 \<or> m = 2 \<or> m = 3 \<or> m = 4 \<or> m = 5 \<or> m = 6 \<or> 7 \<le> m" using assms by linarith
  moreover have "m = 7 \<or> m = 8 \<or> m = 9 \<or> m = 10 \<or> m = 11 \<or> m = 12 \<or> m < 7" using assms by linarith
  ultimately show thesis using that by linarith
qed

text \<open>The day of a common year lies in the month found for it.\<close>

lemma common_month:
  assumes "0 \<le> d" "d < 365" "m0 = d div 31 + 1"
    and m: "m = (if days_before (m0 + 1) \<le> d then m0 + 1 else m0)"
  shows "1 \<le> m \<and> m \<le> 12 \<and> days_before m \<le> d \<and> d < days_before (m + 1)"
proof -
  have d: "d = 31 * (m0 - 1) + d mod 31" "0 \<le> d mod 31" "d mod 31 < 31" using assms(3) by simp_all
  have "1 \<le> m0" "m0 \<le> 12"
    using assms(1-3) zdiv_mono1[of d 364 31] by (auto simp: pos_imp_zdiv_nonneg_iff)
  then show ?thesis using d assms(1,2) m by (cases rule: month_cases[of m0]) (auto split: if_splits)
qed

lemma days_before_step: "1 \<le> m \<Longrightarrow> m \<le> 12 \<Longrightarrow> days_before m + 28 \<le> days_before (m + 1)"
  by (cases rule: month_cases[of m]) simp_all

lemma days_before_march: "3 \<le> m \<Longrightarrow> m \<le> 12 \<Longrightarrow> 59 \<le> days_before m"
  by (cases rule: month_cases[of m]) simp_all

lemma month_day_start:
  assumes "month_day lp yd = (m, d)" "0 \<le> yd" "yd < (if lp then 366 else 365)"
  shows "1 \<le> m \<and> m \<le> 12 \<and> 1 \<le> d \<and> yd = days_before m + leap_shift lp m + d - 1
    \<and> yd < days_before (m + 1) + leap_shift lp (m + 1)"
proof (cases "lp \<and> yd = 59")
  case True
  then show ?thesis using assms(1) by (auto simp: month_day_def)
next
  case False
  define k where "k = (if lp \<and> 59 < yd then yd - 1 else yd)"
  have k: "0 \<le> k" "k < 365" "yd = k + (if lp \<and> 59 \<le> k then 1 else 0)"
    using assms(2,3) False by (auto simp: k_def split: if_splits)
  have md: "m = (if days_before (k div 31 + 1 + 1) \<le> k then k div 31 + 1 + 1 else k div 31 + 1)"
      "d = k - days_before m + 1"
    using assms(1) False by (auto simp: month_day_def Let_def k_def[symmetric] simp del: add_2_eq_Suc')
  have m: "1 \<le> m" "m \<le> 12" "days_before m \<le> k" "k < days_before (m + 1)"
    using common_month[OF k(1,2) refl md(1)] by auto
  have "59 \<le> k \<longleftrightarrow> 2 < m"
  proof -
    consider "m = 1" | "m = 2" | "3 \<le> m" using m(1) by linarith
    then show ?thesis
    proof cases
      case 3
      from days_before_march[OF 3 m(2)] show ?thesis using 3 m(3) by simp
    qed (use m in simp_all)
  qed
  then show ?thesis using m k(3) md(2) by auto
qed


section \<open>Months are consecutive intervals of days\<close>

lemma div_pred:
  assumes "0 < (k :: int)"
  shows "y div k = (y - 1) div k + (if y mod k = 0 then 1 else 0)"
proof -
  have y: "y = k * (y div k) + y mod k" "0 \<le> y mod k" "y mod k < k" using assms by simp_all
  show ?thesis
  proof (cases "y mod k = 0")
    case True
    then have "(y - 1) div k = y div k - 1"
      using assms y(1) by (intro quotient_eq[of "k - 1"]) (simp_all add: algebra_simps)
    with True show ?thesis by simp
  next
    case False
    then have "(y - 1) div k = y div k"
      using y by (intro quotient_eq[of "y mod k - 1"]) simp_all
    with False show ?thesis by simp
  qed
qed

lemma year_start_step: "year_start (y + 1) = year_start y + year_length y"
proof -
  define A B C where "A = (y mod 4 = 0)" and "B = (y mod 100 = 0)" and "C = (y mod 400 = 0)"
  have AB: "B \<Longrightarrow> A" "C \<Longrightarrow> B"
    using dvd_trans[of 4 100 y] dvd_trans[of 100 400 y] by (simp_all add: A_def B_def C_def mod_eq_0_iff_dvd)
  have l: "leap y \<longleftrightarrow> A \<and> (\<not> B \<or> C)" by (simp only: leap_def A_def B_def C_def)
  have s: "year_start (y + 1) = 365 * y + y div 4 - y div 100 + y div 400" by (simp add: year_start_def)
  have q: "y div 4 = (y - 1) div 4 + (if A then 1 else 0)"
      "y div 100 = (y - 1) div 100 + (if B then 1 else 0)"
      "y div 400 = (y - 1) div 400 + (if C then 1 else 0)"
    unfolding A_def B_def C_def by (rule div_pred, simp)+
  have "365 * y + y4 - y100 + y400
      = 365 * (y - 1) + x4 - x100 + x400 + (if A \<and> (\<not> B \<or> C) then 366 else 365)"
    if "y4 = x4 + (if A then 1 else 0)" "y100 = x100 + (if B then 1 else 0)"
      "y400 = x400 + (if C then 1 else 0)" for x4 y4 x100 y100 x400 y400
    using that AB by (cases A; cases B; cases C) simp_all
  from this[OF q] show ?thesis unfolding s unfolding year_start_def year_length_def l .
qed

text \<open>Months counted from January of the year 0.\<close>

definition month_at :: "int \<Rightarrow> int" where
  "month_at k = month_start (k div 12) (k mod 12 + 1)"

lemma month_at_start: "1 \<le> m \<Longrightarrow> m \<le> 12 \<Longrightarrow> month_at (12 * y + m - 1) = month_start y m"
  using quotient_eq[of "m - 1" 12 "12 * y + m - 1" y] remainder_eq[of "m - 1" 12 "12 * y + m - 1" y]
  by (simp add: month_at_def)

lemma month_at_next: "1 \<le> m \<Longrightarrow> m \<le> 12 \<Longrightarrow> month_at (12 * y + m) = month_start y (m + 1)"
proof (cases "m = 12")
  case True
  have "month_at (12 * y + 12) = month_start (y + 1) 1"
    using month_at_start[of 1 "y + 1"] by (simp add: algebra_simps)
  then show ?thesis
    using True year_start_step[of y] by (simp add: month_start_def year_length_def)
next
  case False
  then show "1 \<le> m \<Longrightarrow> m \<le> 12 \<Longrightarrow> ?thesis" using month_at_start[of "m + 1" y] by simp
qed

lemma month_at_step: "month_at k < month_at (k + 1)"
proof -
  define y m where "y = k div 12" and "m = k mod 12 + 1"
  have k: "k = 12 * y + m - 1" "1 \<le> m" "m \<le> 12" by (simp_all add: y_def m_def)
  have "month_start y m < month_start y (m + 1)"
    using days_before_step[OF k(2,3)] by (auto simp: month_start_def)
  then show ?thesis using month_at_start[OF k(2,3)] month_at_next[OF k(2,3)] k(1) by simp
qed

lemma month_at_mono: "i \<le> j \<Longrightarrow> month_at i \<le> month_at j"
proof -
  assume "i \<le> j"
  have "month_at i \<le> month_at (i + int n)" for n
  proof (induction n)
    case (Suc n)
    then show ?case using month_at_step[of "i + int n"] by (simp add: algebra_simps)
  qed simp
  from this[of "nat (j - i)"] \<open>i \<le> j\<close> show ?thesis by simp
qed

lemma month_at_unique:
  assumes "month_at i \<le> n" "n < month_at (i + 1)" "month_at j \<le> n" "n < month_at (j + 1)"
  shows "i = j"
proof (rule ccontr)
  assume "i \<noteq> j"
  then have "i + 1 \<le> j \<or> j + 1 \<le> i" by linarith
  then show False
    using month_at_mono[of "i + 1" j] month_at_mono[of "j + 1" i] assms by linarith
qed

text \<open>The date found for a day lies in its month, and names that day.\<close>

lemma date_of_days_sound:
  assumes "date_of_days n = (y, m, d)"
  shows "1 \<le> m" "m \<le> 12" "1 \<le> d" "n = month_start y m + d - 1"
    "month_at (12 * y + m - 1) \<le> n" "n < month_at (12 * y + m)"
proof -
  obtain yd where yd: "year_day n = (y, yd)" and md: "month_day (leap y) yd = (m, d)"
    using assms by (auto simp: date_of_days_def split: prod.splits)
  note y = year_day_start[OF yd]
  have md': "1 \<le> m \<and> m \<le> 12 \<and> 1 \<le> d \<and> yd = days_before m + leap_shift (leap y) m + d - 1
      \<and> yd < days_before (m + 1) + leap_shift (leap y) (m + 1)"
    using month_day_start[OF md] y(2,3) by (simp add: year_length_def)
  show "1 \<le> m" "m \<le> 12" "1 \<le> d" "n = month_start y m + d - 1"
    using md' y(1) by (auto simp: month_start_def)
  show "month_at (12 * y + m - 1) \<le> n" "n < month_at (12 * y + m)"
    using md' y(1) month_at_start[of m y] month_at_next[of m y] by (auto simp: month_start_def)
qed

text \<open>Going back by the day of the month reaches the last day of the month before.\<close>

definition month_before :: "int \<times> int \<Rightarrow> int \<times> int" where
  "month_before ym = (case ym of (y, m) \<Rightarrow> if m = 1 then (y - 1, 12) else (y, m - 1))"

lemma prior_month:
  assumes "date_of_days n = (y, m, d)" "date_of_days (n - d) = (y', m', d')"
  shows "(y', m') = month_before (y, m)"
proof -
  note D = date_of_days_sound[OF assms(1)] and E = date_of_days_sound[OF assms(2)]
  have "n - d = month_at (12 * y + m - 1) - 1" using D(1,2,4) by (simp add: month_at_start)
  moreover have "month_at (12 * y + m - 2) < month_at (12 * y + m - 1)"
    using month_at_step[of "12 * y + m - 2"] by simp
  ultimately have "12 * y' + m' - 1 = 12 * y + m - 2"
    using E(5,6) by (intro month_at_unique[of _ "n - d"]) simp_all
  then show ?thesis using D(1,2) E(1,2) by (auto simp: month_before_def) presburger+
qed

end
