(* ===== verification/Netip.thy ===== *)
theory Netip
  imports Prelude
begin

unbundle bit_operations_syntax

text \<open>
  The part of Go's \<open>net/netip\<close> the program uses: addresses, \<open>Unmap\<close>, byte forms, prefixes and
  their masking. The standard library is not part of the repository, so nothing here is a property
  of the program by itself; the components are stated over it.
\<close>

section \<open>Addresses\<close>

text \<open>
  \<open>netip.Addr\<close>: the zero Addr (invalid), an IPv4 address, or an IPv6 address with its zone
  (the empty string when it has none).
\<close>

datatype addr = Zero_addr | Addr4 "32 word" | Addr6 "128 word" string

definition addr_is_valid :: "addr \<Rightarrow> bool" where
  "addr_is_valid a \<longleftrightarrow> a \<noteq> Zero_addr"

fun addr_is4 :: "addr \<Rightarrow> bool" where
  "addr_is4 (Addr4 _) = True"
| "addr_is4 _ = False"

text \<open>\<open>Is4In6\<close>: the high 64 bits are zero and the next 32 are \<open>0x0000ffff\<close>.\<close>

fun addr_is4in6 :: "addr \<Rightarrow> bool" where
  "addr_is4in6 (Addr6 w _) = (drop_bit 32 w = 0xffff)"
| "addr_is4in6 _ = False"

fun unmap :: "addr \<Rightarrow> addr" where
  "unmap (Addr6 w z) = (if drop_bit 32 w = 0xffff then Addr4 (ucast w) else Addr6 w z)"
| "unmap a = a"

text \<open>The bytes of a word, most significant first, and the word of a byte list.\<close>

definition word_bytes :: "nat \<Rightarrow> 'a::len word \<Rightarrow> u8 list" where
  "word_bytes n w = map (\<lambda>k. ucast (drop_bit (8 * (n - 1 - k)) w)) [0..<n]"

definition word_of_bytes :: "u8 list \<Rightarrow> 'a::len word" where
  "word_of_bytes bs = foldl (\<lambda>w b. push_bit 8 w OR ucast b) 0 bs"

text \<open>
  \<open>As4\<close> panics on an IPv6 or zero address (\<open>None\<close>) and \<open>As16\<close> gives zero bytes for the zero
  address; a mapped address takes its low four bytes in \<open>As4\<close>.
\<close>

fun as4 :: "addr \<Rightarrow> u8 list option" where
  "as4 (Addr4 w) = Some (word_bytes 4 w)"
| "as4 (Addr6 w z) = (if drop_bit 32 w = 0xffff then Some (word_bytes 4 (ucast w :: u32)) else None)"
| "as4 Zero_addr = None"

fun as16 :: "addr \<Rightarrow> u8 list" where
  "as16 (Addr4 w) = word_bytes 16 (push_bit 32 0xffff OR ucast w :: 128 word)"
| "as16 (Addr6 w z) = word_bytes 16 w"
| "as16 Zero_addr = replicate 16 0"

definition addr_from4 :: "u8 list \<Rightarrow> addr" where
  "addr_from4 bs = Addr4 (word_of_bytes bs)"

definition addr_from16 :: "u8 list \<Rightarrow> addr" where
  "addr_from16 bs = Addr6 (word_of_bytes bs) []"

fun bit_len :: "addr \<Rightarrow> int" where
  "bit_len Zero_addr = 0"
| "bit_len (Addr4 _) = 32"
| "bit_len (Addr6 _ _) = 128"

fun with_zone :: "addr \<Rightarrow> string \<Rightarrow> addr" where
  "with_zone (Addr6 w _) z = Addr6 w z"
| "with_zone a _ = a"

section \<open>Prefixes\<close>

text \<open>\<open>Bits\<close> is \<open>-1\<close> for an invalid prefix, as \<open>netip.Prefix.Bits\<close> returns.\<close>

record prefix =
  prefix_addr :: addr
  prefix_bits :: int

definition zero_prefix :: prefix where
  "zero_prefix = \<lparr>prefix_addr = Zero_addr, prefix_bits = -1\<rparr>"

definition prefix_is_valid :: "prefix \<Rightarrow> bool" where
  "prefix_is_valid p \<longleftrightarrow> prefix_bits p \<ge> 0"

definition prefix_from :: "addr \<Rightarrow> int \<Rightarrow> prefix" where
  "prefix_from ip b =
     \<lparr>prefix_addr = with_zone ip [],
      prefix_bits = (if addr_is_valid ip \<and> 0 \<le> b \<and> b \<le> bit_len ip then b else -1)\<rparr>"

text \<open>The top \<open>b\<close> bits of a word, the rest cleared.\<close>

definition top_bits :: "int \<Rightarrow> 'a::len word \<Rightarrow> 'a word" where
  "top_bits b w = w AND NOT (mask (LENGTH('a) - nat b))"

text \<open>\<open>Masked\<close>: the zero Prefix unless \<open>Bits\<close> is in range for the address.\<close>

fun addr_prefix :: "addr \<Rightarrow> int \<Rightarrow> prefix" where
  "addr_prefix Zero_addr b = zero_prefix"
| "addr_prefix (Addr4 w) b =
     (if b < 0 \<or> b > 32 then zero_prefix else prefix_from (Addr4 (top_bits b w)) b)"
| "addr_prefix (Addr6 w z) b =
     (if b < 0 \<or> b > 128 then zero_prefix else prefix_from (Addr6 (top_bits b w) z) b)"

definition masked :: "prefix \<Rightarrow> prefix" where
  "masked p = addr_prefix (prefix_addr p) (prefix_bits p)"

text \<open>
  A prefix value Go code can hold: every exported constructor goes through \<open>PrefixFrom\<close>, so its
  bits are in range for its address when they are not \<open>-1\<close>, and it has no zone.
\<close>

definition prefix_wf :: "prefix \<Rightarrow> bool" where
  "prefix_wf p \<longleftrightarrow>
     (prefix_bits p = -1 \<or> 0 \<le> prefix_bits p \<and> prefix_bits p \<le> bit_len (prefix_addr p)
        \<and> addr_is_valid (prefix_addr p))
     \<and> prefix_addr p = with_zone (prefix_addr p) []"

lemma prefix_from_wf [simp]: "prefix_wf (prefix_from a b)"
  by (cases a) (auto simp: prefix_wf_def prefix_from_def addr_is_valid_def)

lemma zero_prefix_wf [simp]: "prefix_wf zero_prefix"
  by (simp add: prefix_wf_def zero_prefix_def)

section \<open>Bit lists of addresses\<close>

text \<open>The bits of a word, most significant first: the order in which the trie consumes them.\<close>

definition word_bits :: "'a::len word \<Rightarrow> bool list" where
  "word_bits w = map (\<lambda>i. bit w (LENGTH('a) - 1 - i)) [0..<LENGTH('a)]"

lemma length_word_bits [simp]: "length (word_bits (w :: 'a::len word)) = LENGTH('a)"
  by (simp add: word_bits_def)

lemma nth_word_bits [simp]:
  "i < LENGTH('a) \<Longrightarrow> word_bits (w :: 'a::len word) ! i = bit w (LENGTH('a) - 1 - i)"
  by (simp add: word_bits_def)

lemma length_word_bytes [simp]: "length (word_bytes n w) = n"
  by (simp add: word_bytes_def)

lemma bit_word_bytes:
  fixes w :: "'a::len word"
  assumes "i < 8 * n" and "LENGTH('a) = 8 * n"
  shows "bit (word_bytes n w ! (i div 8)) (7 - i mod 8) = bit w (LENGTH('a) - 1 - i)"
proof -
  have "i div 8 < n" using assms by auto
  moreover have "8 * (n - 1 - i div 8) + (7 - i mod 8) = 8 * n - 1 - i"
  proof -
    have "8 * (i div 8) + i mod 8 = i" by simp
    moreover have "i mod 8 < 8" by simp
    ultimately show ?thesis using \<open>i div 8 < n\<close> by arith
  qed
  moreover have "7 - i mod 8 < 8" by simp
  ultimately show ?thesis
    using assms by (simp add: word_bytes_def bit_simps)
qed

text \<open>Agreement of the first \<open>k\<close> bits is agreement of the words shifted right.\<close>

lemma take_word_bits_eq_iff:
  fixes v w :: "'a::len word"
  assumes "k \<le> LENGTH('a)"
  shows "take k (word_bits v) = take k (word_bits w) \<longleftrightarrow>
    drop_bit (LENGTH('a) - k) v = drop_bit (LENGTH('a) - k) w" (is "?L \<longleftrightarrow> ?R")
proof
  assume ?L
  then have L: "bit v (LENGTH('a) - 1 - i) = bit w (LENGTH('a) - 1 - i)" if "i < k" for i
    using that assms by (simp add: word_bits_def take_map)
  show ?R
  proof (subst drop_bit_eq_iff, intro allI impI)
    fix j assume "LENGTH('a) - k \<le> j" "j < LENGTH('a)"
    then show "bit v j = bit w j"
      using L[of "LENGTH('a) - 1 - j"] assms by auto
  qed
next
  assume ?R
  then have "bit v j = bit w j" if "LENGTH('a) - k \<le> j" "j < LENGTH('a)" for j
    using that by (simp add: drop_bit_eq_iff)
  then show ?L
    using assms by (auto simp: word_bits_def take_map)
qed

lemma bit_top_bits:
  "bit (top_bits b (w :: 'a::len word)) i \<longleftrightarrow> bit w i \<and> LENGTH('a) - nat b \<le> i"
  by (auto simp: top_bits_def bit_simps dest: bit_imp_le_length)

lemma take_word_bits_top_bits:
  fixes w :: "'a::len word"
  assumes "nat b \<le> LENGTH('a)"
  shows "take (nat b) (word_bits (top_bits b w)) = take (nat b) (word_bits w)"
  using assms by (simp add: take_word_bits_eq_iff drop_bit_eq_iff bit_top_bits)

lemma top_bits_eq_iff:
  fixes v w :: "'a::len word"
  assumes "nat b \<le> LENGTH('a)"
  shows "top_bits b v = top_bits b w \<longleftrightarrow>
    drop_bit (LENGTH('a) - nat b) v = drop_bit (LENGTH('a) - nat b) w"
  by (subst drop_bit_eq_iff, subst bit_eq_iff) (auto simp: bit_top_bits dest: bit_imp_le_length)

lemma word_bits_inject [simp]: "word_bits v = word_bits w \<longleftrightarrow> v = w"
  using take_word_bits_eq_iff[of "LENGTH('a)" v w for v w :: "'a::len word"] by simp

lemma word_of_bytes4: "word_of_bytes (word_bytes 4 w) = (w :: u32)"
proof -
  have "word_of_bytes (word_bytes 4 w) =
      push_bit 8 (push_bit 8 (push_bit 8 (push_bit 8 0 OR ucast (ucast (drop_bit 24 w) :: u8))
        OR ucast (ucast (drop_bit 16 w) :: u8)) OR ucast (ucast (drop_bit 8 w) :: u8))
        OR (ucast (ucast w :: u8) :: u32)" (is "_ = ?lhs")
    by (simp add: word_of_bytes_def word_bytes_def upt_rec)
  also have "\<dots> = w"
  proof (rule bit_word_eqI)
    fix n assume "n < LENGTH(32)"
    then show "bit ?lhs n = bit w n"
      by (cases "n < 8"; cases "n < 16"; cases "n < 24") (auto simp: bit_simps)
  qed
  finally show ?thesis .
qed

end
