(* ===== verification/Parse_Addr.thy ===== *)
theory Parse_Addr
  imports Netip Go_Text
begin

text \<open>
  \<open>netip.ParseAddr\<close> and \<open>Addr.String\<close> of the Go standard library, which the client-IP policy and
  the log lines use. The parser's error values are discarded by the program, so a failure is
  \<open>None\<close>.
\<close>

section \<open>Parsing\<close>

definition is_digit :: "char \<Rightarrow> bool" where
  "is_digit c \<longleftrightarrow> 48 \<le> (of_char c :: nat) \<and> (of_char c :: nat) \<le> 57"

definition digit_val :: "char \<Rightarrow> nat" where
  "digit_val c = of_char c - 48"

text \<open>
  \<open>parseIPv4Fields\<close>: the rest of the text, the byte before it (\<open>None\<close> at the start), the value
  and the number of digits of the current field, and the fields read so far.
\<close>

fun ipv4_fields :: "string \<Rightarrow> char option \<Rightarrow> nat \<Rightarrow> nat \<Rightarrow> nat list \<Rightarrow> nat list option" where
  "ipv4_fields [] prev val digLen fs = (if length fs < 3 then None else Some (fs @ [val]))"
| "ipv4_fields (c # cs) prev val digLen fs =
     (if is_digit c then
        (if digLen = 1 \<and> val = 0 then None
         else
           let v = val * 10 + digit_val c
           in if v > 255 then None else ipv4_fields cs (Some c) v (digLen + 1) fs)
      else if c = CHR ''.'' then
        (if prev = None \<or> cs = [] \<or> prev = Some CHR ''.'' then None
         else if length fs = 3 then None
         else ipv4_fields cs (Some c) 0 0 (fs @ [val]))
      else None)"

definition parse_ipv4 :: "string \<Rightarrow> addr option" where
  "parse_ipv4 s = map_option (\<lambda>fs. addr_from4 (map of_nat fs)) (ipv4_fields s None 0 0 [])"

definition hex_val :: "char \<Rightarrow> nat option" where
  "hex_val c =
     (let n = of_char c :: nat in
      if 48 \<le> n \<and> n \<le> 57 then Some (n - 48)
      else if 97 \<le> n \<and> n \<le> 102 then Some (n - 87)
      else if 65 \<le> n \<and> n \<le> 70 then Some (n - 55)
      else None)"

text \<open>The hexadecimal digits of one group: their number, their value and the rest of the text.\<close>

fun hex_group :: "string \<Rightarrow> nat \<Rightarrow> nat \<Rightarrow> (nat \<times> nat \<times> string) option" where
  "hex_group [] off acc = Some (off, acc, [])"
| "hex_group (c # cs) off acc =
     (case hex_val c of
        None \<Rightarrow> Some (off, acc, c # cs)
      | Some d \<Rightarrow>
          (let a = acc * 16 + d
           in if off > 3 then None else if a > 65535 then None else hex_group cs (off + 1) a))"

text \<open>
  The loop of \<open>parseIPv6\<close> with \<open>k\<close> groups of room left: the bytes so far, the position of the
  ellipsis, the rest of the text.
\<close>

fun ipv6_groups :: "nat \<Rightarrow> nat list \<Rightarrow> nat option \<Rightarrow> string \<Rightarrow> (nat list \<times> nat option \<times> string) option" where
  "ipv6_groups 0 ip ell s = Some (ip, ell, s)"
| "ipv6_groups (Suc k) ip ell s =
     (case hex_group s 0 0 of
        None \<Rightarrow> None
      | Some (off, acc, rest) \<Rightarrow>
          if off = 0 then None
          else if rest \<noteq> [] \<and> hd rest = CHR ''.'' then
            (if ell = None \<and> length ip \<noteq> 12 then None
             else if length ip + 4 > 16 then None
             else
               (case ipv4_fields s None 0 0 [] of
                  None \<Rightarrow> None
                | Some fs \<Rightarrow> Some (ip @ fs, ell, [])))
          else
            (let ip' = ip @ [acc div 256, acc mod 256] in
             case rest of
               [] \<Rightarrow> Some (ip', ell, [])
             | c # rest' \<Rightarrow>
                 if c \<noteq> CHR '':'' then None
                 else if rest' = [] then None
                 else if hd rest' = CHR '':'' then
                   (if ell \<noteq> None then None
                    else if tl rest' = [] then Some (ip', Some (length ip'), [])
                    else ipv6_groups k ip' (Some (length ip')) (tl rest'))
                 else ipv6_groups k ip' ell rest'))"

definition finish_ipv6 :: "(nat list \<times> nat option \<times> string) option \<Rightarrow> string \<Rightarrow> addr option" where
  "finish_ipv6 r zone =
     (case r of
        None \<Rightarrow> None
      | Some (ip, ell, s) \<Rightarrow>
          if s \<noteq> [] then None
          else if length ip < 16 then
            (case ell of
               None \<Rightarrow> None
             | Some e \<Rightarrow>
                 Some (with_zone (addr_from16 (map of_nat
                   (take e ip @ replicate (16 - length ip) 0 @ drop e ip))) zone))
          else if ell \<noteq> None then None
          else Some (with_zone (addr_from16 (map of_nat ip)) zone))"

text \<open>The text before and after the first percent sign.\<close>

definition split_zone :: "string \<Rightarrow> (string \<times> string) option" where
  "split_zone s =
     (let a = takeWhile (\<lambda>c. c \<noteq> CHR ''%'') s
      in if a = s then Some (s, [])
         else if length a + 1 = length s then None
         else Some (a, drop (length a + 1) s))"

definition parse_ipv6 :: "string \<Rightarrow> addr option" where
  "parse_ipv6 s =
     (case split_zone s of
        None \<Rightarrow> None
      | Some (s, zone) \<Rightarrow>
          if length s \<ge> 2 \<and> take 2 s = ''::'' then
            (if length s = 2 then Some (with_zone (Addr6 0 []) zone)
             else finish_ipv6 (ipv6_groups 8 [] (Some 0) (drop 2 s)) zone)
          else finish_ipv6 (ipv6_groups 8 [] None s) zone)"

text \<open>The first of \<open>.\<close>, \<open>:\<close> and \<open>%\<close> decides.\<close>

fun parse_addr_scan :: "string \<Rightarrow> string \<Rightarrow> addr option" where
  "parse_addr_scan whole [] = None"
| "parse_addr_scan whole (c # cs) =
     (if c = CHR ''.'' then parse_ipv4 whole
      else if c = CHR '':'' then parse_ipv6 whole
      else if c = CHR ''%'' then None
      else parse_addr_scan whole cs)"

definition parse_addr :: "string \<Rightarrow> addr option" where
  "parse_addr s = parse_addr_scan s s"

section \<open>Printing\<close>

definition ipv4_string :: "u32 \<Rightarrow> string" where
  "ipv4_string w = join_with CHR ''.'' (map (nat_dec \<circ> unat) (word_bytes 4 w))"

text \<open>\<open>appendHex\<close>: a 16-bit group without leading zeros.\<close>

definition hex16 :: "nat \<Rightarrow> string" where
  "hex16 n =
     (if n \<ge> 4096 then [hex_char (n div 4096)] else [])
     @ (if n \<ge> 256 then [hex_char (n div 256 mod 16)] else [])
     @ (if n \<ge> 16 then [hex_char (n div 16 mod 16)] else [])
     @ [hex_char (n mod 16)]"

definition ipv6_groups_of :: "128 word \<Rightarrow> nat list" where
  "ipv6_groups_of w = map (\<lambda>k. unat (drop_bit (16 * (7 - k)) w AND 0xffff)) [0..<8]"

text \<open>The longest run of at least two zero groups, the leftmost of equals: start and end.\<close>

fun zero_run :: "nat list \<Rightarrow> nat \<Rightarrow> nat \<times> nat \<Rightarrow> nat \<times> nat" where
  "zero_run [] i best = best"
| "zero_run (g # gs) i (zs, ze) =
     (let l = length (takeWhile (\<lambda>x. x = 0) (g # gs))
      in zero_run gs (i + 1) (if l \<ge> 2 \<and> l > ze - zs then (i, i + l) else (zs, ze)))"

definition colon_join :: "nat list \<Rightarrow> string" where
  "colon_join gs = join_with CHR '':'' (map hex16 gs)"

definition ipv6_string :: "128 word \<Rightarrow> string" where
  "ipv6_string w =
     (let gs = ipv6_groups_of w; (zs, ze) = zero_run gs 0 (255, 255)
      in if zs = 255 then colon_join gs
         else colon_join (take zs gs) @ ''::'' @ colon_join (drop ze gs))"

fun addr_string :: "addr \<Rightarrow> string" where
  "addr_string Zero_addr = ''invalid IP''"
| "addr_string (Addr4 w) = ipv4_string w"
| "addr_string (Addr6 w z) =
     (if drop_bit 32 w = 0xffff then ''::ffff:'' @ ipv4_string (ucast w) else ipv6_string w)
     @ (if z = [] then [] else CHR ''%'' # z)"

section \<open>Dotted quads read back\<close>

lemma of_char_digit [simp]: "d < 10 \<Longrightarrow> of_char (digit_char d) = 48 + d"
  by (simp add: digit_char_def of_char_of)

lemma is_digit_digit_char [simp]: "d < 10 \<Longrightarrow> is_digit (digit_char d)"
  by (simp add: is_digit_def)

lemma digit_val_digit_char [simp]: "d < 10 \<Longrightarrow> digit_val (digit_char d) = d"
  by (simp add: digit_val_def)

lemma is_digit_not_dot [simp]: "\<not> is_digit CHR ''.''"
  by (simp add: is_digit_def)

lemma digits_of_nat_dec: "c \<in> set (nat_dec n) \<Longrightarrow> is_digit c"
proof (induction n rule: nat_dec.induct)
  case (1 n)
  then show ?case by (subst (asm) nat_dec.simps) (auto split: if_splits)
qed

lemma nat_dec_nonempty [simp]: "nat_dec n \<noteq> []"
  by (subst nat_dec.simps) simp

text \<open>Reading the digits of a field: the value and the digit count after them.\<close>

lemma ipv4_fields_nat_dec:
  assumes "n \<le> 255"
  shows "\<exists>p. p \<noteq> None \<and> p \<noteq> Some CHR ''.'' \<and>
    ipv4_fields (nat_dec n @ rest) prev 0 0 fs = ipv4_fields rest p n (length (nat_dec n)) fs"
proof -
  have nodot: "digit_char d \<noteq> CHR ''.''" if "d < 10" for d
    using that is_digit_digit_char is_digit_not_dot by metis
  consider "n < 10" | "10 \<le> n" "n < 100" | "100 \<le> n" by linarith
  then show ?thesis
  proof cases
    case 1
    then show ?thesis
      using nodot[of n] by (intro exI[of _ "Some (digit_char n)"]) (simp add: nat_dec.simps)
  next
    case 2
    then have d: "n div 10 < 10" "n mod 10 < 10" "n div 10 \<noteq> 0" "n div 10 * 10 + n mod 10 = n" by auto
    have s: "nat_dec n = [digit_char (n div 10), digit_char (n mod 10)]"
      using 2 d by (simp add: nat_dec.simps[of n] nat_dec.simps[of "n div 10"])
    from 2 d assms nodot[of "n mod 10"] show ?thesis
      by (intro exI[of _ "Some (digit_char (n mod 10))"]) (simp add: s)
  next
    case 3
    define a b c where "a = n div 100" and "b = n div 10 mod 10" and "c = n mod 10"
    have a: "n div 10 div 10 = a" by (simp add: a_def div_mult2_eq[symmetric])
    have ab: "n div 10 = a * 10 + b"
      using div_mult_mod_eq[of "n div 10" 10] by (simp add: a b_def)
    have n: "n = (a * 10 + b) * 10 + c"
      using div_mult_mod_eq[of n 10] by (simp add: ab c_def)
    have lt: "b < 10" "c < 10" by (simp_all add: b_def c_def)
    have "a \<noteq> 0" using 3 lt n by auto
    moreover have "a < 10" using assms by (simp add: a_def)
    ultimately have d: "a < 10" "b < 10" "c < 10" "a \<noteq> 0" "a \<le> 255" "a * 10 + b \<le> 255"
      using lt assms n by simp_all
    have "n div 10 = a * 10 + b" "a * 10 + b \<ge> 10" "n \<ge> 10"
      using ab d 3 by simp_all
    then have s: "nat_dec n = [digit_char a, digit_char b, digit_char c]"
      using d by (simp add: nat_dec.simps[of n] nat_dec.simps[of "a * 10 + b"] nat_dec.simps[of a] c_def)
    have "ipv4_fields (digit_char a # digit_char b # digit_char c # rest) prev 0 0 fs
        = ipv4_fields rest (Some (digit_char c)) ((a * 10 + b) * 10 + c) (Suc (Suc (Suc 0))) fs"
      using d assms unfolding n by (simp add: Let_def)
    then show ?thesis
      using nodot[of c] d s n by (intro exI[of _ "Some (digit_char c)"]) simp
  qed
qed

lemma ipv4_fields_step:
  assumes "n \<le> 255" "length fs < 3" "rest \<noteq> []"
  shows "ipv4_fields (nat_dec n @ CHR ''.'' # rest) prev 0 0 fs
    = ipv4_fields rest (Some CHR ''.'') 0 0 (fs @ [n])"
proof -
  obtain p where "p \<noteq> None" "p \<noteq> Some CHR ''.''"
    "ipv4_fields (nat_dec n @ CHR ''.'' # rest) prev 0 0 fs
      = ipv4_fields (CHR ''.'' # rest) p n (length (nat_dec n)) fs"
    using ipv4_fields_nat_dec[OF assms(1), of "CHR ''.'' # rest" prev fs] by blast
  with assms(2,3) show ?thesis by auto
qed

lemma ipv4_fields_last:
  assumes "n \<le> 255" "length fs = 3"
  shows "ipv4_fields (nat_dec n) prev 0 0 fs = Some (fs @ [n])"
  using ipv4_fields_nat_dec[OF assms(1), of "[]" prev fs] assms(2) by auto

lemma ipv4_fields_quad:
  assumes "a \<le> 255" "b \<le> 255" "c \<le> 255" "d \<le> 255"
  shows "ipv4_fields (join_with CHR ''.'' (map nat_dec [a, b, c, d])) None 0 0 [] = Some [a, b, c, d]"
  using assms by (simp add: ipv4_fields_step ipv4_fields_last)

lemma parse_ipv4_string: "parse_ipv4 (ipv4_string w) = Some (Addr4 w)"
proof -
  obtain a b c d where w: "word_bytes 4 w = [a, b, c, d]"
    by (simp add: word_bytes_def upt_rec)
  have "unat x \<le> 255" for x :: u8
  proof -
    have "unat x < 2 ^ LENGTH(8)" by (rule unsigned_less)
    then show ?thesis by simp
  qed
  then show ?thesis
    using ipv4_fields_quad[of "unat a" "unat b" "unat c" "unat d"] word_of_bytes4[of w]
    by (simp add: parse_ipv4_def ipv4_string_def w addr_from4_def del: join_with.simps)
qed

text \<open>A text of digits and dots with a dot in it goes to the IPv4 parser.\<close>

lemma parse_addr_scan_v4:
  "\<forall>c \<in> set s. is_digit c \<or> c = CHR ''.'' \<Longrightarrow> CHR ''.'' \<in> set s \<Longrightarrow> parse_addr_scan t s = parse_ipv4 t"
proof (induction s)
  case (Cons c s)
  then have "c \<noteq> CHR '':''" "c \<noteq> CHR ''%''" by (auto simp: is_digit_def)
  with Cons show ?case by auto
qed simp

lemma set_join_with: "set (join_with c ws) \<subseteq> insert c (\<Union> (set ` set ws))"
  by (induction c ws rule: join_with.induct) auto

lemma ipv4_string_chars: "c \<in> set (ipv4_string w) \<Longrightarrow> is_digit c \<or> c = CHR ''.''"
  using set_join_with[of "CHR ''.''" "map (nat_dec \<circ> unat) (word_bytes 4 w)"]
  by (auto simp: ipv4_string_def dest: digits_of_nat_dec)

lemma parse_addr_ipv4_string: "parse_addr (ipv4_string w) = Some (Addr4 w)"
proof -
  have "CHR ''.'' \<in> set (ipv4_string w)"
    by (simp add: ipv4_string_def word_bytes_def upt_rec)
  then have "parse_addr (ipv4_string w) = parse_ipv4 (ipv4_string w)"
    unfolding parse_addr_def by (intro parse_addr_scan_v4 ballI) (rule ipv4_string_chars)
  then show ?thesis by (simp add: parse_ipv4_string)
qed

end
