(* ===== verification/Client_IP.thy ===== *)
theory Client_IP
  imports Parse_Addr
begin

text \<open>
  The client-IP policy (\<open>internal/server/clientip.go\<close>): X-Real-IP first, then the rightmost
  parseable entry of X-Forwarded-For. A header is the map of canonical names to values that
  \<open>net/http\<close> builds.
\<close>

section \<open>Headers\<close>

type_synonym header = "string \<Rightarrow> string list option"

definition ascii_upper :: "char \<Rightarrow> char" where
  "ascii_upper c = (if 97 \<le> (of_char c :: nat) \<and> (of_char c :: nat) \<le> 122 then char_of (of_char c - 32 :: nat) else c)"

definition ascii_lower :: "char \<Rightarrow> char" where
  "ascii_lower c = (if 65 \<le> (of_char c :: nat) \<and> (of_char c :: nat) \<le> 90 then char_of (of_char c + 32 :: nat) else c)"

text \<open>\<open>CanonicalMIMEHeaderKey\<close> on a token: upper case at the start and after a hyphen.\<close>

fun canonical_from :: "bool \<Rightarrow> string \<Rightarrow> string" where
  "canonical_from up [] = []"
| "canonical_from up (c # cs) =
     (if up then ascii_upper c else ascii_lower c) # canonical_from (c = CHR ''-'') cs"

definition canonical_key :: "string \<Rightarrow> string" where
  "canonical_key = canonical_from True"

definition header_get :: "header \<Rightarrow> string \<Rightarrow> string" where
  "header_get h k = (case h (canonical_key k) of None \<Rightarrow> [] | Some vs \<Rightarrow> (case vs of [] \<Rightarrow> [] | v # _ \<Rightarrow> v))"

definition headerXRealIP :: string where "headerXRealIP = ''X-Real-IP''"
definition headerXForwardedFor :: string where "headerXForwardedFor = ''X-Forwarded-For''"

section \<open>The policy\<close>

text \<open>The loop of \<open>rightmostXFF\<close>, over the entries from the right.\<close>

fun xff_scan :: "string list \<Rightarrow> addr option" where
  "xff_scan [] = None"
| "xff_scan (part # parts) =
     (let p = trim_space part in
      if p = '''' then xff_scan parts
      else (case parse_addr p of Some a \<Rightarrow> Some (unmap a) | None \<Rightarrow> xff_scan parts))"

definition rightmostXFF :: "string \<Rightarrow> addr option" where
  "rightmostXFF v = xff_scan (rev (split_on CHR '','' v))"

definition extractClientIP :: "header \<Rightarrow> addr option" where
  "extractClientIP h =
     (let v = trim_space (header_get h headerXRealIP);
          real = (if v \<noteq> '''' then map_option unmap (parse_addr v) else None)
      in case real of
           Some a \<Rightarrow> Some a
         | None \<Rightarrow>
            (let v = header_get h headerXForwardedFor
             in if v \<noteq> '''' then rightmostXFF v else None))"

section \<open>Which entries count\<close>

text \<open>The address an entry carries, if any.\<close>

definition entry_addr :: "string \<Rightarrow> addr option" where
  "entry_addr part = (if trim_space part = '''' then None else parse_addr (trim_space part))"

lemma xff_scan_Cons:
  "xff_scan (part # parts) =
     (case entry_addr part of Some a \<Rightarrow> Some (unmap a) | None \<Rightarrow> xff_scan parts)"
  by (simp add: entry_addr_def Let_def)

lemma xff_scan_skip: "\<forall>w \<in> set junk. entry_addr w = None \<Longrightarrow> xff_scan (junk @ parts) = xff_scan parts"
  by (induction junk) (auto simp del: xff_scan.simps simp: xff_scan_Cons)

lemma xff_scan_None_iff: "xff_scan parts = None \<longleftrightarrow> (\<forall>w \<in> set parts. entry_addr w = None)"
  by (induction parts) (auto simp: xff_scan_Cons simp del: xff_scan.simps(2) split: option.splits)

lemma xff_scan_set: "xff_scan parts = Some a \<Longrightarrow> \<exists>w \<in> set parts. \<exists>b. entry_addr w = Some b \<and> a = unmap b"
  by (induction parts) (auto simp: xff_scan_Cons simp del: xff_scan.simps(2) split: option.splits)

text \<open>Parsing never gives the zero address.\<close>

lemma parse_ipv4_valid: "parse_ipv4 s = Some a \<Longrightarrow> a \<noteq> Zero_addr"
  by (auto simp: parse_ipv4_def addr_from4_def)

lemma finish_ipv6_valid: "finish_ipv6 r z = Some a \<Longrightarrow> a \<noteq> Zero_addr"
  by (auto simp: finish_ipv6_def addr_from16_def split: option.splits if_splits)

lemma parse_ipv6_valid: "parse_ipv6 s = Some a \<Longrightarrow> a \<noteq> Zero_addr"
  by (auto simp: parse_ipv6_def dest: finish_ipv6_valid split: option.splits if_splits)

lemma parse_addr_valid: "parse_addr s = Some a \<Longrightarrow> a \<noteq> Zero_addr"
proof -
  have "parse_addr_scan t s = Some a \<Longrightarrow> a \<noteq> Zero_addr" for t
    by (induction t s rule: parse_addr_scan.induct)
      (auto dest: parse_ipv4_valid parse_ipv6_valid split: if_splits)
  then show "parse_addr s = Some a \<Longrightarrow> a \<noteq> Zero_addr" by (simp add: parse_addr_def)
qed

lemma unmap_valid: "a \<noteq> Zero_addr \<Longrightarrow> unmap a \<noteq> Zero_addr"
  by (cases a) auto

lemma unmap_not_4in6: "\<not> addr_is4in6 (unmap a)"
  by (cases a) auto

lemma unmap_idem [simp]: "unmap (unmap a) = unmap a"
  by (cases a) auto

section \<open>Trimming an entry that starts and ends in a digit\<close>

lemma after_some_None: "list_all (\<lambda>p. p \<noteq> [] \<and> hd p \<noteq> c) ps \<Longrightarrow> after_some ps (c # cs) = None"
proof (induction ps)
  case (Cons p ps)
  then show ?case by (cases p) auto
qed simp

lemma runes_no_digit:
  "list_all (\<lambda>p. p \<noteq> [] \<and> \<not> is_digit (hd p)) space_runes"
  "list_all (\<lambda>p. p \<noteq> [] \<and> \<not> is_digit (hd p)) (map rev space_runes)"
  by (simp_all add: space_runes_def is_digit_def)

lemma after_some_digit:
  assumes "is_digit c"
  shows "after_some space_runes (c # cs) = None" "after_some (map rev space_runes) (c # cs) = None"
  using runes_no_digit assms
  by (auto intro!: after_some_None elim!: list.pred_mono_strong simp del: list.map simp: list.pred_set)

lemma after_some_space [simp]:
  "after_some space_runes (CHR '' '' # s) = Some s"
  "after_some (map rev space_runes) (CHR '' '' # s) = Some s"
  by (simp_all add: space_runes_def)

lemma drop_some_stop: "after_some ps s = None \<Longrightarrow> drop_some n ps s = s"
  by (cases n) auto

lemma drop_some_replicate:
  assumes "\<And>t. after_some ps (CHR '' '' # t) = Some t" "after_some ps s = None" "m \<le> n"
  shows "drop_some n ps (replicate m CHR '' '' @ s) = s"
  using assms(3)
proof (induction m arbitrary: n)
  case 0
  then show ?case using assms(2) by (simp add: drop_some_stop)
next
  case (Suc m)
  then show ?case using assms(1) by (cases n) auto
qed

lemma trim_space_digits:
  assumes "s \<noteq> []" "is_digit (hd s)" "is_digit (last s)"
  shows "trim_space (replicate m CHR '' '' @ s @ replicate k CHR '' '') = s"
proof -
  have l: "drop_some (length (replicate m CHR '' '' @ s @ replicate k CHR '' '')) space_runes
      (replicate m CHR '' '' @ s @ replicate k CHR '' '') = s @ replicate k CHR '' ''"
    using assms(1,2) by (intro drop_some_replicate) (auto simp: after_some_digit neq_Nil_conv)
  have "drop_some (length (s @ replicate k CHR '' '')) (map rev space_runes)
      (replicate k CHR '' '' @ rev s) = rev s"
  proof (intro drop_some_replicate)
    obtain ys c where "s = ys @ [c]" using assms(1) by (metis rev_exhaust)
    with assms(3) show "after_some (map rev space_runes) (rev s) = None"
      by (simp add: after_some_digit)
  qed auto
  with l show ?thesis by (simp add: trim_space_def Let_def)
qed

lemma ipv4_string_ends: "ipv4_string w \<noteq> []" "is_digit (hd (ipv4_string w))" "is_digit (last (ipv4_string w))"
proof -
  have hd: "is_digit (hd (nat_dec n))" and last: "is_digit (last (nat_dec n))" for n
    by (simp_all add: digits_of_nat_dec[of _ n])
  have s: "ipv4_string w = join_with CHR ''.'' (map nat_dec [a, b, c, d]) \<Longrightarrow>
    ipv4_string w \<noteq> [] \<and> is_digit (hd (ipv4_string w)) \<and> is_digit (last (ipv4_string w))" for a b c d
    by (simp add: hd last hd_append last_append)
  have "\<exists>a b c d. ipv4_string w = join_with CHR ''.'' (map nat_dec [a, b, c, d])"
    unfolding ipv4_string_def word_bytes_def by (simp add: upt_rec) blast
  with s show "ipv4_string w \<noteq> []" "is_digit (hd (ipv4_string w))" "is_digit (last (ipv4_string w))"
    by blast+
qed

lemma entry_addr_ipv4:
  "entry_addr (replicate m CHR '' '' @ ipv4_string w @ replicate k CHR '' '') = Some (Addr4 w)"
  using ipv4_string_ends[of w]
  by (simp add: entry_addr_def trim_space_digits parse_addr_ipv4_string)

lemma split_on_sep: "split_on c (xs @ c # ys) = split_on c xs @ split_on c ys"
  by (induction xs) (auto split: list.splits)

lemma trim_space_Nil [simp]: "trim_space [] = []"
  by (simp add: trim_space_def)

lemma entry_addr_Nil [simp]: "entry_addr [] = None"
  by (simp add: entry_addr_def)

lemma rightmostXFF_Nil [simp]: "rightmostXFF [] = None"
  by (simp add: rightmostXFF_def)

lemma extractClientIP_eq:
  "extractClientIP h =
     (case entry_addr (header_get h headerXRealIP) of
        Some a \<Rightarrow> Some (unmap a)
      | None \<Rightarrow> rightmostXFF (header_get h headerXForwardedFor))"
  by (auto simp: extractClientIP_def entry_addr_def Let_def split: option.splits)

lemma rightmostXFF_entries:
  "rightmostXFF v = None \<longleftrightarrow> \<not> (\<exists>w \<in> set (split_on CHR '','' v). entry_addr w \<noteq> None)"
  by (simp add: rightmostXFF_def xff_scan_None_iff)

lemma entry_addr_valid: "entry_addr w = Some a \<Longrightarrow> a \<noteq> Zero_addr"
  by (auto simp: entry_addr_def dest: parse_addr_valid split: if_splits)

lemma rightmostXFF_unmapped:
  "rightmostXFF v = Some a \<Longrightarrow> a \<noteq> Zero_addr \<and> \<not> addr_is4in6 a"
  by (auto simp: rightmostXFF_def unmap_valid unmap_not_4in6 entry_addr_valid dest!: xff_scan_set)

lemma extractClientIP_unmapped:
  "extractClientIP h = Some a \<Longrightarrow> addr_is_valid a \<and> unmap a = a"
proof -
  assume h: "extractClientIP h = Some a"
  have "a \<noteq> Zero_addr \<and> \<not> addr_is4in6 a"
    using h by (auto simp: extractClientIP_eq unmap_valid unmap_not_4in6 entry_addr_valid
        rightmostXFF_unmapped split: option.splits)
  then show ?thesis by (cases a) (auto simp: addr_is_valid_def)
qed

section \<open>Properties\<close>

text \<open>
  C27 (safety). In X-Forwarded-For the rightmost parseable entry decides: whatever text stands to
  the left of it, commas and addresses included, and whatever unparseable entries follow it, the
  result is that entry's address. The text a client puts in front has no influence.
\<close>

theorem xff_rightmost_wins:
  assumes "entry_addr entry = Some a" "CHR '','' \<notin> set entry"
    and "\<forall>w \<in> set junk. CHR '','' \<notin> set w \<and> entry_addr w = None"
  shows "rightmostXFF (attacker @ CHR '','' # join_with CHR '','' (entry # junk)) = Some (unmap a)"
proof -
  have "split_on CHR '','' (attacker @ CHR '','' # join_with CHR '','' (entry # junk))
      = split_on CHR '','' attacker @ entry # junk"
    using assms(2,3) split_join[of "entry # junk" "CHR '',''"] by (simp add: split_on_sep)
  moreover have "\<forall>w \<in> set (rev junk). entry_addr w = None" using assms(3) by simp
  ultimately show ?thesis
    using assms(1) by (simp add: rightmostXFF_def xff_scan_skip xff_scan_Cons del: xff_scan.simps)
qed

theorem xff_rightmost_wins_witness:
  "rightmostXFF (''10.0.0.1, 1.2.3.4'' @ CHR '','' # join_with CHR '','' [ipv4_string 0x0A000001, []])
     = Some (Addr4 0x0A000001)"
proof -
  have "entry_addr (ipv4_string 0x0A000001) = Some (Addr4 0x0A000001)"
    using entry_addr_ipv4[of 0 _ 0] by simp
  moreover have "CHR '','' \<notin> set (ipv4_string 0x0A000001)"
    using ipv4_string_chars[of "CHR '',''" "0x0A000001"] by (auto simp: is_digit_def)
  ultimately show ?thesis
    using xff_rightmost_wins[of "ipv4_string 0x0A000001" "Addr4 0x0A000001" "[[]]" "''10.0.0.1, 1.2.3.4''"]
    by simp
qed

text \<open>
  C28 (roundtrip). For every IPv4 address, an X-Real-IP header that holds its dotted quad, with
  any spaces around it, gives exactly that address, whatever X-Forwarded-For says.
\<close>

theorem client_ip_ipv4_roundtrip:
  assumes "h (canonical_key headerXRealIP)
      = Some ((replicate m CHR '' '' @ addr_string (Addr4 w) @ replicate k CHR '' '') # vs)"
  shows "extractClientIP h = Some (Addr4 w)"
  using assms by (simp add: extractClientIP_eq header_get_def entry_addr_ipv4)

theorem client_ip_ipv4_roundtrip_witness:
  "extractClientIP [''X-Real-Ip'' \<mapsto> [''  '' @ addr_string (Addr4 0xCB007107) @ '' ''],
     ''X-Forwarded-For'' \<mapsto> [''10.0.0.1'']] = Some (Addr4 0xCB007107)"
proof (rule client_ip_ipv4_roundtrip[where m = 2 and k = 1 and vs = "[]"])
  have "canonical_key headerXRealIP = ''X-Real-Ip''"
    by (simp add: canonical_key_def headerXRealIP_def ascii_upper_def ascii_lower_def char_of_def bit_0)
  then show "[''X-Real-Ip'' \<mapsto> [''  '' @ addr_string (Addr4 0xCB007107) @ '' ''],
      ''X-Forwarded-For'' \<mapsto> [''10.0.0.1'']] (canonical_key headerXRealIP)
    = Some [replicate 2 CHR '' '' @ addr_string (Addr4 0xCB007107) @ replicate 1 CHR '' '']"
    by (simp add: numeral_2_eq_2)
qed

text \<open>
  The policy fails exactly when neither X-Real-IP nor any entry of
  X-Forwarded-For carries a parseable address, and an address it returns is valid and has its
  IPv4-mapped form removed, so the trie is searched in the right family.
\<close>

lemma client_ip_fails_iff:
  "(extractClientIP h = None \<longleftrightarrow>
      entry_addr (header_get h headerXRealIP) = None
      \<and> \<not> (\<exists>w \<in> set (split_on CHR '','' (header_get h headerXForwardedFor)). entry_addr w \<noteq> None))
   \<and> \<not> (\<exists>a. extractClientIP h = Some a \<and> \<not> (addr_is_valid a \<and> unmap a = a))"
  using extractClientIP_unmapped[of h]
  by (auto simp: extractClientIP_eq rightmostXFF_entries split: option.splits)

end
