(* ===== verification/Trie_Correct.thy ===== *)
theory Trie_Correct
  imports Trie
begin

unbundle bit_operations_syntax

text \<open>
  Correctness of the blocklist trie: which key an inserted prefix occupies, what the trie's keys
  are after any sequence of inserts, and from these the answers of \<open>Contains\<close> and \<open>Len\<close>.
  The interface \<open>prefix_set\<close> states what users of the trie rely on.
\<close>

section \<open>Keys\<close>

text \<open>
  The key of a prefix: the family and the leading bits. A prefix of IPv4-mapped addresses with 96
  bits or more has none, because \<open>Unmap\<close> moves it to the IPv4 trie with its IPv6 bit count.
\<close>

type_synonym key = "bool \<times> bool list"

definition stored :: "prefix \<Rightarrow> key option" where
  "stored p =
     (case prefix_addr p of
        Zero_addr \<Rightarrow> None
      | Addr4 w \<Rightarrow>
          if 0 \<le> prefix_bits p \<and> prefix_bits p \<le> 32
          then Some (True, take (nat (prefix_bits p)) (word_bits w)) else None
      | Addr6 w z \<Rightarrow>
          if 0 \<le> prefix_bits p \<and> prefix_bits p \<le> 128
             \<and> \<not> (96 \<le> prefix_bits p \<and> drop_bit 32 w = 0xffff)
          then Some (False, take (nat (prefix_bits p)) (word_bits w)) else None)"

definition root :: "bool \<Rightarrow> trie \<Rightarrow> node option" where
  "root f t = (if f then v4 t else v6 t)"

definition add_key :: "key \<Rightarrow> trie \<Rightarrow> trie" where
  "add_key k t =
     (case root (fst k) t of
        None \<Rightarrow> t
      | Some n \<Rightarrow>
         (let t' = (if fst k then t\<lparr>v4 := Some (insert_path (snd k) n)\<rparr>
                    else t\<lparr>v6 := Some (insert_path (snd k) n)\<rparr>)
          in if snd k \<notin> paths n then t'\<lparr>count := count t' + 1\<rparr> else t'))"

definition keys :: "trie \<Rightarrow> key set" where
  "keys t = {(f, bs). \<exists>n. root f t = Some n \<and> bs \<in> paths n}"

text \<open>
  The invariant: both roots exist, the count is the number of keys, and every key is one that
  \<open>Insert\<close> can make from a prefix.
\<close>

definition storable :: "key \<Rightarrow> bool" where
  "storable k \<longleftrightarrow> (\<exists>p. prefix_wf p \<and> stored p = Some k)"

definition trie_wf :: "trie \<Rightarrow> bool" where
  "trie_wf t \<longleftrightarrow> (\<forall>f. root f t \<noteq> None) \<and> finite (keys t) \<and> count t = int (card (keys t))
     \<and> (\<forall>k \<in> keys t. storable k)"

lemma root_add_key [simp]:
  "root f (add_key k t) =
     (if f = fst k then map_option (insert_path (snd k)) (root f t) else root f t)"
  by (auto simp: add_key_def root_def Let_def split: option.splits)

lemma keys_add_key:
  "root (fst k) t \<noteq> None \<Longrightarrow> keys (add_key k t) = insert k (keys t)"
  by (cases k) (auto simp: keys_def split: if_splits)

lemma count_add_key:
  "root (fst k) t \<noteq> None \<Longrightarrow> count (add_key k t) = count t + of_bool (k \<notin> keys t)"
  by (cases k) (auto simp: add_key_def keys_def Let_def)

lemma trie_wf_add_key [intro]: "trie_wf t \<Longrightarrow> storable k \<Longrightarrow> trie_wf (add_key k t)"
  unfolding trie_wf_def
  by (auto simp: keys_add_key count_add_key card_insert_if)

lemma keys_New [simp]: "keys New = {}"
  by (auto simp: keys_def root_def New_def)

lemma trie_wf_New [intro, simp]: "trie_wf New"
  by (auto simp: trie_wf_def) (auto simp: root_def New_def)

section \<open>Insert adds the key of the prefix\<close>

lemma mapped_top_bits:
  fixes w :: "128 word"
  assumes "0 \<le> b" "b \<le> 128"
  shows "drop_bit 32 (top_bits b w) = 0xffff \<longleftrightarrow> 96 \<le> b \<and> drop_bit 32 w = 0xffff"
proof (cases "96 \<le> b")
  case True
  with assms have "drop_bit 32 (top_bits b w) = drop_bit 32 w"
    by (auto simp: drop_bit_eq_iff bit_top_bits)
  with True show ?thesis by simp
next
  case False
  then have "\<not> bit (drop_bit 32 (top_bits b w)) 0"
    by (auto simp: bit_drop_bit_eq bit_top_bits)
  moreover have "bit (0xffff :: 128 word) 0" by simp
  ultimately show ?thesis using False by metis
qed

lemma byte_bits_word:
  fixes w :: "'a::len word"
  assumes "LENGTH('a) = 8 * n" "k \<le> LENGTH('a)"
  shows "byte_bits (word_bytes n w) 0 k = take k (word_bits w)"
proof -
  have "byte_bits (word_bytes n w) 0 k
      = map (\<lambda>j. bit (word_bytes n w ! (j div 8)) (7 - j mod 8)) [0..<k]"
    by (simp add: byte_bits_def)
  also have "\<dots> = map (\<lambda>i. bit w (LENGTH('a) - 1 - i)) [0..<k]"
    using assms by (intro map_cong refl bit_word_bytes) auto
  also have "\<dots> = take k (word_bits w)"
    using assms(2) by (simp add: word_bits_def take_upt_map)
  finally show ?thesis .
qed

lemmas byte_bits_word4 = byte_bits_word [where 'a = 32 and n = 4, simplified]
lemmas byte_bits_word16 = byte_bits_word [where 'a = 128 and n = 16, simplified]

lemma Insert_stored:
  assumes "\<forall>f. root f t \<noteq> None" and wf: "prefix_wf p"
  shows "Insert t p = Some (case stored p of None \<Rightarrow> t | Some k \<Rightarrow> add_key k t)"
proof -
  obtain n4 n6 where n: "v4 t = Some n4" "v6 t = Some n6"
    using assms(1)[rule_format, of True] assms(1)[rule_format, of False] by (auto simp: root_def)
  show ?thesis
  proof (cases "prefix_addr p")
    case Zero_addr
    with wf have "prefix_bits p = -1" by (simp add: prefix_wf_def addr_is_valid_def)
    with Zero_addr show ?thesis by (simp add: Insert_def stored_def prefix_is_valid_def)
  next
    case (Addr4 w)
    show ?thesis
    proof (cases "0 \<le> prefix_bits p \<and> prefix_bits p \<le> 32")
      case True
      then have b: "nat (prefix_bits p) \<le> 32" by (simp add: nat_le_iff)
      show ?thesis
        using True b Addr4
        by (simp add: Insert_def masked_def stored_def prefix_is_valid_def prefix_from_def
            addr_is_valid_def addrBytes_def n Let_def insert_walk_eq byte_bits_word4
            take_word_bits_top_bits add_key_def root_def)
    next
      case False
      with wf Addr4 have "prefix_bits p = -1" by (auto simp: prefix_wf_def)
      with Addr4 show ?thesis by (simp add: Insert_def stored_def prefix_is_valid_def)
    qed
  next
    case (Addr6 w z)
    show ?thesis
    proof (cases "0 \<le> prefix_bits p \<and> prefix_bits p \<le> 128")
      case True
      then have b: "nat (prefix_bits p) \<le> 128" by (simp add: nat_le_iff)
      show ?thesis
        using True b Addr6
        by (auto simp: Insert_def masked_def stored_def prefix_is_valid_def prefix_from_def
            addr_is_valid_def addrBytes_def n Let_def insert_walk_eq byte_bits_word16
            take_word_bits_top_bits add_key_def root_def mapped_top_bits)
    next
      case False
      with wf Addr6 have "prefix_bits p = -1" by (auto simp: prefix_wf_def)
      with Addr6 show ?thesis by (simp add: Insert_def stored_def prefix_is_valid_def)
    qed
  qed
qed

lemma Insert_wf:
  assumes "trie_wf t" "prefix_wf p"
  obtains t' where "Insert t p = Some t'" "trie_wf t'" "keys t' = set_option (stored p) \<union> keys t"
proof
  show "Insert t p = Some (case stored p of None \<Rightarrow> t | Some k \<Rightarrow> add_key k t)"
    using assms by (intro Insert_stored) (simp_all add: trie_wf_def)
  show "trie_wf (case stored p of None \<Rightarrow> t | Some k \<Rightarrow> add_key k t)"
    using assms by (cases "stored p") (auto simp: storable_def intro!: trie_wf_add_key)
  show "keys (case stored p of None \<Rightarrow> t | Some k \<Rightarrow> add_key k t) = set_option (stored p) \<union> keys t"
    using assms by (auto simp: trie_wf_def keys_add_key split: option.split)
qed

section \<open>What a prefix covers, and what the trie answers\<close>

text \<open>
  The meaning of a blocklist entry, stated on the numbers: the leading bits of the address equal
  those of the prefix, in the same family once a mapped address is read as IPv4.
\<close>

definition covers :: "prefix \<Rightarrow> addr \<Rightarrow> bool" where
  "covers p ip =
     (case (prefix_addr p, unmap ip) of
        (Addr4 w, Addr4 v) \<Rightarrow> 0 \<le> prefix_bits p \<and> prefix_bits p \<le> 32
          \<and> drop_bit (32 - nat (prefix_bits p)) v = drop_bit (32 - nat (prefix_bits p)) w
      | (Addr6 w _, Addr6 v _) \<Rightarrow> 0 \<le> prefix_bits p \<and> prefix_bits p \<le> 128
          \<and> drop_bit (128 - nat (prefix_bits p)) v = drop_bit (128 - nat (prefix_bits p)) w
      | _ \<Rightarrow> False)"

definition addr_path :: "addr \<Rightarrow> key option" where
  "addr_path ip =
     (case unmap ip of
        Zero_addr \<Rightarrow> None
      | Addr4 v \<Rightarrow> Some (True, word_bits v)
      | Addr6 v _ \<Rightarrow> Some (False, word_bits v))"

definition matches :: "key \<Rightarrow> addr \<Rightarrow> bool" where
  "matches k ip =
     (case addr_path ip of
        None \<Rightarrow> False
      | Some (f, bs) \<Rightarrow> fst k = f \<and> (\<exists>j\<le>length bs. take j bs = snd k))"

definition blocked :: "trie \<Rightarrow> addr set" where
  "blocked t = {ip. \<exists>k \<in> keys t. matches k ip}"

lemma Contains_keys:
  assumes "\<forall>f. root f t \<noteq> None"
  shows "Contains t ip = Some (ip \<in> blocked t)"
proof -
  obtain n4 n6 where n: "v4 t = Some n4" "v6 t = Some n6"
    using assms[rule_format, of True] assms[rule_format, of False] by (auto simp: root_def)
  have v4: "contains_walk (word_bytes 4 v) 0 32 n4 = Some (\<exists>j\<le>32. take j (word_bits v) \<in> paths n4)"
    for v :: u32
    by (simp add: contains_walk_eq byte_bits_word4 covered_iff)
  have v6: "contains_walk (word_bytes 16 v) 0 128 n6
      = Some (\<exists>j\<le>128. take j (word_bits v) \<in> paths n6)" for v :: "128 word"
    by (simp add: contains_walk_eq byte_bits_word16 covered_iff)
  show ?thesis
    by (cases "unmap ip"; cases ip)
      (auto simp: Contains_def addr_is_valid_def n addrBytes_def Let_def blocked_def matches_def
        addr_path_def keys_def root_def v4 v6 split: if_splits)
qed

lemma take_word_bits_inj:
  fixes v w :: "'a::len word"
  assumes "j \<le> LENGTH('a)" "k \<le> LENGTH('a)"
  shows "take j (word_bits v) = take k (word_bits w) \<longleftrightarrow>
    j = k \<and> drop_bit (LENGTH('a) - k) v = drop_bit (LENGTH('a) - k) w"
proof -
  have "take j (word_bits v) = take k (word_bits w) \<Longrightarrow> j = k"
    using assms by (auto dest: arg_cong[of _ _ length])
  with assms show ?thesis using take_word_bits_eq_iff by blast
qed

lemma ex_take_word_bits:
  fixes v w :: "'a::len word"
  assumes "k \<le> LENGTH('a)"
  shows "(\<exists>j\<le>LENGTH('a). take j (word_bits v) = take k (word_bits w)) \<longleftrightarrow>
    drop_bit (LENGTH('a) - k) v = drop_bit (LENGTH('a) - k) w"
  using assms by (auto simp: take_word_bits_inj)

lemmas ex_take32 = ex_take_word_bits [where 'a = 32, simplified]
lemmas ex_take128 = ex_take_word_bits [where 'a = 128, simplified]

lemma unmap_not_mapped: "unmap ip = Addr6 v z \<Longrightarrow> drop_bit 32 v \<noteq> 0xffff"
  by (cases ip) (auto split: if_splits)

lemma matches_stored: "covers p ip \<longleftrightarrow> (\<exists>k. stored p = Some k \<and> matches k ip)"
proof (cases "prefix_addr p")
  case (Addr4 w)
  then show ?thesis
    by (cases "unmap ip")
      (auto simp: covers_def stored_def matches_def addr_path_def ex_take32 nat_le_iff)
next
  case (Addr6 w z)
  show ?thesis
  proof (cases "unmap ip")
    case ip: (Addr6 v y)
    have "drop_bit 32 w \<noteq> 0xffff"
      if "drop_bit (128 - nat (prefix_bits p)) v = drop_bit (128 - nat (prefix_bits p)) w"
        "96 \<le> prefix_bits p"
    proof -
      from that have "drop_bit 32 v = drop_bit 32 w"
        by (auto simp: drop_bit_eq_iff nat_le_iff)
      with unmap_not_mapped[OF ip] show ?thesis by simp
    qed
    with Addr6 ip show ?thesis
      by (auto simp: covers_def stored_def matches_def addr_path_def ex_take128 nat_le_iff)
  qed (use Addr6 in \<open>auto simp: covers_def stored_def matches_def addr_path_def\<close>)
qed (simp add: covers_def stored_def)

lemma blocked_insert:
  "keys t' = set_option (stored p) \<union> keys t \<Longrightarrow> blocked t' = {ip. covers p ip} \<union> blocked t"
  by (auto simp: blocked_def matches_stored elim: option.set_cases)

section \<open>A non-empty trie blocks something\<close>

lemma storable_matches: "storable k \<Longrightarrow> \<exists>ip. matches k ip"
proof -
  assume "storable k"
  then obtain p where p: "prefix_wf p" "stored p = Some k" by (auto simp: storable_def)
  have "\<exists>ip. covers p ip"
  proof (cases "prefix_addr p")
    case (Addr4 w)
    with p(2) have "covers p (Addr4 w)" by (auto simp: covers_def stored_def split: if_splits)
    then show ?thesis ..
  next
    case (Addr6 w z)
    define v where "v = (if drop_bit 32 w = 0xffff then flip_bit 32 w else w)"
    have v: "drop_bit 32 v \<noteq> 0xffff"
    proof (cases "drop_bit 32 w = 0xffff")
      case True
      then have "bit (drop_bit 32 w) 0" by simp
      then have "bit w 32" by (simp add: bit_drop_bit_eq)
      with True have "\<not> bit v 32" by (simp add: v_def bit_simps)
      then have "\<not> bit (drop_bit 32 v) 0" by (simp add: bit_drop_bit_eq)
      then show ?thesis by auto
    qed (simp add: v_def)
    have "drop_bit (128 - nat (prefix_bits p)) v = drop_bit (128 - nat (prefix_bits p)) w"
      using p(2) Addr6
      by (auto simp: v_def stored_def drop_bit_eq_iff bit_simps nat_le_iff split: if_splits)
    with p(2) Addr6 v have "covers p (Addr6 v [])"
      by (auto simp: covers_def stored_def split: if_splits)
    then show ?thesis ..
  qed (use p(2) in \<open>simp add: stored_def\<close>)
  with p(2) show ?thesis by (auto simp: matches_stored)
qed

lemma blocked_empty_iff:
  assumes "trie_wf t"
  shows "blocked t = {} \<longleftrightarrow> Len t = 0"
proof -
  have "blocked t = {} \<longleftrightarrow> keys t = {}"
    using assms storable_matches by (fastforce simp: blocked_def trie_wf_def)
  also have "\<dots> \<longleftrightarrow> Len t = 0"
    using assms by (simp add: trie_wf_def Len_def)
  finally show ?thesis .
qed

lemma Len_nonneg: "trie_wf t \<Longrightarrow> 0 \<le> Len t"
  by (simp add: trie_wf_def Len_def)

section \<open>The interface of the blocklist\<close>

text \<open>
  What the loader and the server rely on: inserting never panics on a well-formed prefix and adds
  exactly the addresses it covers, membership never panics, and the size is zero exactly when
  nothing is blocked.
\<close>

locale prefix_set =
  fixes empty :: 't
    and ins :: "'t \<Rightarrow> prefix \<Rightarrow> 't option"
    and mem :: "'t \<Rightarrow> addr \<Rightarrow> bool option"
    and size_of :: "'t \<Rightarrow> int"
    and wf :: "'t \<Rightarrow> bool"
    and members :: "'t \<Rightarrow> addr set"
  assumes wf_empty: "wf empty"
    and members_empty: "members empty = {}"
    and ins_returns: "wf t \<Longrightarrow> prefix_wf p \<Longrightarrow>
      \<exists>t'. ins t p = Some t' \<and> wf t' \<and> members t' = {ip. covers p ip} \<union> members t"
    and mem_returns: "wf t \<Longrightarrow> mem t ip = Some (ip \<in> members t)"
    and size_nonneg: "wf t \<Longrightarrow> 0 \<le> size_of t"
    and size_zero: "wf t \<Longrightarrow> size_of t = 0 \<longleftrightarrow> members t = {}"
begin

lemma ins_list_returns:
  assumes "wf t" "\<forall>p \<in> set ps. prefix_wf p"
  shows "\<exists>t'. ins_list ins t ps = Some t' \<and> wf t'
    \<and> members t' = {ip. \<exists>p \<in> set ps. covers p ip} \<union> members t"
  using assms
proof (induction ps arbitrary: t)
  case (Cons p ps)
  then obtain t1 where t1: "ins t p = Some t1" "wf t1" "members t1 = {ip. covers p ip} \<union> members t"
    using ins_returns[of t p] by auto
  with Cons obtain t' where "ins_list ins t1 ps = Some t'" "wf t'"
    "members t' = {ip. \<exists>p \<in> set ps. covers p ip} \<union> members t1" by fastforce
  with t1 show ?case by auto
qed simp

lemma built_mem:
  assumes "\<forall>p \<in> set ps. prefix_wf p"
  shows "\<exists>t. ins_list ins empty ps = Some t \<and> wf t
    \<and> (\<forall>ip. mem t ip = Some (\<exists>p \<in> set ps. covers p ip))"
  using ins_list_returns[OF wf_empty assms] members_empty mem_returns by fastforce

lemma size_pos_iff: "wf t \<Longrightarrow> 0 < size_of t \<longleftrightarrow> (\<exists>ip. mem t ip = Some True)"
  using size_nonneg[of t] size_zero[of t] mem_returns[of t] by auto

end

interpretation blocklist: prefix_set New Insert Contains Len trie_wf blocked
proof
  fix t p ip
  assume wf: "trie_wf t"
  show "Contains t ip = Some (ip \<in> blocked t)"
    using wf by (intro Contains_keys) (simp add: trie_wf_def)
  show "0 \<le> Len t" "Len t = 0 \<longleftrightarrow> blocked t = {}"
    using wf by (simp_all add: Len_nonneg blocked_empty_iff)
  assume "prefix_wf p"
  with wf show "\<exists>t'. Insert t p = Some t' \<and> trie_wf t' \<and> blocked t' = {ip. covers p ip} \<union> blocked t"
    by (metis Insert_wf blocked_insert)
qed (auto simp: blocked_def)

section \<open>The trie is determined by the set of its keys\<close>

text \<open>Insertions commute and repeat without effect, counts included.\<close>

lemma set_child_same [simp]: "set_child (set_child n b c) b d = set_child n b d"
  by (cases n) auto

lemma set_child_swap [simp]:
  "set_child (set_child n (Suc 0) c) 0 d = set_child (set_child n 0 d) (Suc 0) c"
  by (cases n) simp

lemma set_terminal_set_child: "set_terminal (set_child n b c) = set_child (set_terminal n) b c"
  by (cases n) simp

lemma set_terminal_idem [simp]: "set_terminal (set_terminal n) = set_terminal n"
  by (cases n) simp

lemma insert_path_commute: "insert_path xs (insert_path ys n) = insert_path ys (insert_path xs n)"
proof (induction xs n arbitrary: ys rule: insert_path.induct)
  case (1 n)
  show ?case by (cases ys) (simp_all add: set_terminal_set_child)
next
  case (2 b bs n)
  show ?case
  proof (cases ys)
    case Nil
    then show ?thesis by (simp add: set_terminal_set_child)
  next
    case (Cons c cs)
    show ?thesis
    proof (cases "b = c")
      case True
      with Cons "2.IH" show ?thesis by simp
    next
      case False
      then show ?thesis by (simp add: Cons)
    qed
  qed
qed

lemma insert_path_idem [simp]: "insert_path xs (insert_path xs n) = insert_path xs n"
  by (rule insert_path_stable) simp

lemma trie_eqI: "v4 t = v4 t' \<Longrightarrow> v6 t = v6 t' \<Longrightarrow> count t = count t' \<Longrightarrow> t = (t' :: trie)"
  by simp

lemma v4_add_key: "v4 (add_key k t) = (if fst k then map_option (insert_path (snd k)) (v4 t) else v4 t)"
  using root_add_key[of True k t] by (simp add: root_def)
lemma v6_add_key: "v6 (add_key k t) = (if fst k then v6 t else map_option (insert_path (snd k)) (v6 t))"
  using root_add_key[of False k t] by (simp add: root_def)

lemma count_add_key_gen:
  "count (add_key k t) = count t + of_bool (root (fst k) t \<noteq> None \<and> k \<notin> keys t)"
  by (cases k) (auto simp: add_key_def keys_def Let_def split: option.split)

lemma keys_add_key_gen:
  "keys (add_key k t) = (if root (fst k) t = None then keys t else insert k (keys t))"
  by (cases "root (fst k) t") (simp add: add_key_def, simp add: keys_add_key)

interpretation add_key: comp_fun_idem add_key
proof
  fix j k :: key
  show "add_key j \<circ> add_key k = add_key k \<circ> add_key j"
    by (auto intro!: ext trie_eqI simp: v4_add_key v6_add_key count_add_key_gen keys_add_key_gen
        insert_path_commute option.map_comp comp_def)
  show "add_key k \<circ> add_key k = add_key k"
    by (auto intro!: ext trie_eqI simp: v4_add_key v6_add_key count_add_key_gen keys_add_key_gen
         option.map_comp comp_def)
qed

lemma ins_list_add_keys:
  assumes "trie_wf t" "\<forall>p \<in> set ps. prefix_wf p"
  shows "insert_all t ps = Some (fold add_key (List.map_filter stored ps) t)"
  using assms
proof (induction ps arbitrary: t)
  case (Cons p ps)
  from Cons.prems obtain t' where "Insert t p = Some t'" "trie_wf t'" by (auto elim: Insert_wf)
  moreover have "Insert t p = Some (case stored p of None \<Rightarrow> t | Some k \<Rightarrow> add_key k t)"
    using Cons.prems by (intro Insert_stored) (simp_all add: trie_wf_def)
  ultimately show ?case
    using Cons by (auto simp: map_filter_simps split: option.splits)
qed (simp add: map_filter_simps)

lemma fold_add_key_set: "fold add_key ks t = Finite_Set.fold add_key t (set ks)"
  by (simp add: add_key.fold_set_fold)

section \<open>Distinct prefixes\<close>

text \<open>
  A prefix with an effect: valid, and not a mapped one that \<open>Insert\<close> skips. On these, having the
  same key is being the same prefix after masking.
\<close>

definition effective :: "prefix \<Rightarrow> bool" where
  "effective p \<longleftrightarrow> prefix_is_valid p \<and> \<not> (addr_is4in6 (prefix_addr p) \<and> 96 \<le> prefix_bits p)"

lemma effective_stored: "prefix_wf p \<Longrightarrow> effective p \<longleftrightarrow> stored p \<noteq> None"
  by (cases "prefix_addr p")
    (auto simp: effective_def stored_def prefix_is_valid_def prefix_wf_def addr_is_valid_def)

lemma stored_eq_masked:
  assumes "prefix_wf p" "prefix_wf q" "effective p" "effective q"
  shows "stored p = stored q \<longleftrightarrow> masked p = masked q"
proof -
  have b: "0 \<le> prefix_bits p" "0 \<le> prefix_bits q"
    using assms(3,4) by (simp_all add: effective_def prefix_is_valid_def)
  have r: "prefix_bits p \<le> bit_len (prefix_addr p)" "prefix_bits q \<le> bit_len (prefix_addr q)"
    using assms(1,2) b by (auto simp: prefix_wf_def)
  have s: "stored p \<noteq> None" "stored q \<noteq> None"
    using assms by (simp_all add: effective_stored)
  show ?thesis
  proof (cases "prefix_addr p"; cases "prefix_addr q")
    fix w v assume "prefix_addr p = Addr4 w" "prefix_addr q = Addr4 v"
    with b r show ?thesis
      by (auto simp: stored_def masked_def prefix_from_def addr_is_valid_def take_word_bits_inj
          top_bits_eq_iff nat_le_iff eq_nat_nat_iff)
  next
    fix w v y z assume "prefix_addr p = Addr6 w y" "prefix_addr q = Addr6 v z"
    with b r s show ?thesis
      by (auto simp: stored_def masked_def prefix_from_def addr_is_valid_def take_word_bits_inj
          top_bits_eq_iff nat_le_iff eq_nat_nat_iff split: if_splits)
  qed (use s b r in \<open>auto simp: stored_def masked_def prefix_from_def addr_is_valid_def split: if_splits\<close>)
qed

lemma set_map_filter_stored:
  "set (List.map_filter stored ps) = {k. \<exists>p \<in> set ps. stored p = Some k}"
  by (induction ps) (auto simp: map_filter_simps split: option.splits)

lemma card_keys_masked:
  assumes "\<forall>p \<in> set ps. prefix_wf p"
  shows "card {k. \<exists>p \<in> set ps. stored p = Some k} = card (masked ` {p \<in> set ps. effective p})"
proof -
  let ?E = "{p \<in> set ps. effective p}"
  have E: "prefix_wf p \<and> effective p \<and> stored p \<noteq> None" if "p \<in> ?E" for p
    using that assms effective_stored by auto
  have "{k. \<exists>p \<in> set ps. stored p = Some k} = (\<lambda>p. the (stored p)) ` ?E" (is "?K = _")
  proof (rule set_eqI)
    fix k
    have "k \<in> ?K \<longleftrightarrow> (\<exists>p \<in> ?E. stored p = Some k)" using assms by (auto simp: effective_stored)
    also have "\<dots> \<longleftrightarrow> k \<in> (\<lambda>p. the (stored p)) ` ?E" using E by force
    finally show "k \<in> ?K \<longleftrightarrow> k \<in> (\<lambda>p. the (stored p)) ` ?E" .
  qed
  moreover have "card ((\<lambda>p. the (stored p)) ` ?E) = card (masked ` ?E)"
  proof (rule card_image_eq)
    fix p q assume "p \<in> ?E" "q \<in> ?E"
    with E have "prefix_wf p" "prefix_wf q" "effective p" "effective q"
      "stored p \<noteq> None" "stored q \<noteq> None" by auto
    then show "the (stored p) = the (stored q) \<longleftrightarrow> masked p = masked q"
      using stored_eq_masked[of p q] by auto
  qed
  ultimately show ?thesis by simp
qed

section \<open>Properties\<close>

lemma insert_all_New:
  "\<forall>p \<in> set ps. prefix_wf p \<Longrightarrow>
   insert_all New ps = Some (Finite_Set.fold add_key New {k. \<exists>p \<in> set ps. stored p = Some k})"
  by (simp add: ins_list_add_keys fold_add_key_set set_map_filter_stored)

lemma keys_insert_all:
  assumes "trie_wf t" "\<forall>p \<in> set ps. prefix_wf p" "insert_all t ps = Some t'"
  shows "keys t' = {k. \<exists>p \<in> set ps. stored p = Some k} \<union> keys t \<and> trie_wf t'"
  using assms
proof (induction ps arbitrary: t)
  case (Cons p ps)
  then obtain t1 where t1: "Insert t p = Some t1" "trie_wf t1" "keys t1 = set_option (stored p) \<union> keys t"
    by (auto elim: Insert_wf)
  with Cons have "keys t' = {k. \<exists>p \<in> set ps. stored p = Some k} \<union> keys t1 \<and> trie_wf t'" by simp
  with t1 show ?case by (auto simp: elem_set)
qed simp

text \<open>
  C4 (functional). Building a trie from any list of prefixes never panics, and the result answers
  \<open>Contains\<close> for every address exactly as "some inserted prefix covers it", where covering is
  equality of the leading bits of the addresses as numbers.
\<close>

theorem trie_contains_iff:
  assumes "\<forall>p \<in> set ps. prefix_wf p"
  shows "\<exists>t. insert_all New ps = Some t \<and>
    (\<forall>ip. Contains t ip = Some (\<exists>p \<in> set ps. covers p ip))"
  using blocklist.built_mem[OF assms] by blast

abbreviation net10 :: prefix where
  "net10 \<equiv> prefix_from (Addr4 0x0A000000) 8"

abbreviation net2001_db8 :: prefix where
  "net2001_db8 \<equiv> prefix_from (Addr6 0x20010db8000000000000000000000000 []) 32"

theorem trie_contains_iff_witness:
  "\<exists>t. insert_all New [net10, net2001_db8] = Some t
     \<and> Contains t (Addr4 0x0A010203) = Some True
     \<and> Contains t (Addr4 0x0B010203) = Some False
     \<and> Contains t (Addr6 0xFFFF0A010203 ''eth0'') = Some True
     \<and> Contains t (Addr6 0x20010db8000000000000000000000001 []) = Some True
     \<and> Contains t (Addr6 0x20010db9000000000000000000000001 []) = Some False"
proof -
  obtain t where "insert_all New [net10, net2001_db8] = Some t"
    "\<And>ip. Contains t ip = Some (\<exists>p \<in> set [net10, net2001_db8]. covers p ip)"
    using trie_contains_iff[of "[net10, net2001_db8]"] by auto
  then show ?thesis
    by (intro exI[of _ t]) (simp add: covers_def prefix_from_def addr_is_valid_def)
qed

text \<open>
  C33 (functional). \<open>Len\<close> of the built trie is the number of distinct prefixes among the inserted
  ones that have an effect, two prefixes being the same when they are equal after masking.
\<close>

theorem trie_len_distinct:
  assumes "\<forall>p \<in> set ps. prefix_wf p" "insert_all New ps = Some t"
  shows "Len t = int (card (masked ` {p \<in> set ps. effective p}))"
  using keys_insert_all[OF trie_wf_New assms] card_keys_masked[OF assms(1)]
  by (simp add: Len_def trie_wf_def)

theorem trie_len_distinct_witness:
  "\<exists>t. insert_all New [net10, prefix_from (Addr4 0x0A0000FF) 8] = Some t \<and> Len t = 1"
proof -
  let ?ps = "[net10, prefix_from (Addr4 0x0A0000FF) 8]"
  obtain t where t: "insert_all New ?ps = Some t"
    using blocklist.built_mem[of ?ps] by auto
  have "{p \<in> set ?ps. effective p} = set ?ps"
    by (auto simp: effective_def prefix_is_valid_def prefix_from_def addr_is_valid_def)
  moreover have "masked p = net10" if "p \<in> set ?ps" for p
    using that by (auto simp: masked_def prefix_from_def addr_is_valid_def top_bits_def
        mask_eq_exp_minus_1)
  ultimately have "masked ` {p \<in> set ?ps. effective p} = {net10}" by auto
  with trie_len_distinct[OF _ t] have "Len t = 1" by simp
  with t show ?thesis by blast
qed

text \<open>
  C34 (equivalence). The trie, node for node and with its count, depends only on the set of
  inserted prefixes: neither their order nor repetitions change it.
\<close>

theorem trie_order_irrelevant:
  assumes "\<forall>p \<in> set ps. prefix_wf p" "set ps = set qs"
  shows "insert_all New ps = insert_all New qs"
  using assms by (simp add: insert_all_New)

theorem trie_order_irrelevant_witness:
  "insert_all New [net10, net2001_db8, net10] = insert_all New [net2001_db8, net10]"
  by (rule trie_order_irrelevant) auto

text \<open>
  A prefix of IPv4-mapped IPv6 addresses with 96 bits or more is skipped: \<open>Insert\<close>
  returns the trie unchanged, so such an entry blocks no address.
\<close>

lemma trie_mapped_prefix_ignored:
  assumes "prefix_wf p" "addr_is4in6 (prefix_addr p)" "96 \<le> prefix_bits p"
    and "v4 t \<noteq> None" "v6 t \<noteq> None"
  shows "Insert t p = Some t"
proof -
  have "\<forall>f. root f t \<noteq> None" using assms(4,5) by (simp add: root_def)
  moreover have "stored p = None"
    using assms(1-3) effective_stored[of p] by (cases "stored p") (auto simp: effective_def)
  ultimately show ?thesis using assms(1) by (simp add: Insert_stored)
qed

lemma trie_mapped_prefix_ignored_witness:
  "Insert New (prefix_from (Addr6 0xFFFF0A000000 []) 104) = Some New"
  by (rule trie_mapped_prefix_ignored)
    (auto simp: prefix_from_def addr_is_valid_def New_def prefix_wf_def)

text \<open>
  A built trie has positive \<open>Len\<close> exactly when there is an address it contains, so
  the daemon's readiness test \<open>Len() > 0\<close> means that the blocklist can block something.
\<close>

lemma trie_len_pos_iff_blocks:
  assumes "\<forall>p \<in> set ps. prefix_wf p" "insert_all New ps = Some t"
  shows "0 < Len t \<longleftrightarrow> (\<exists>ip. Contains t ip = Some True)"
  using keys_insert_all[OF trie_wf_New assms] by (intro blocklist.size_pos_iff) simp

lemma trie_len_pos_iff_blocks_witness:
  "\<exists>t. insert_all New [net10] = Some t \<and> 0 < Len t"
proof -
  obtain t where t: "insert_all New [net10] = Some t"
    "\<forall>ip. Contains t ip = Some (\<exists>p \<in> set [net10]. covers p ip)"
    using blocklist.built_mem[of "[net10]"] by auto
  have "covers net10 (Addr4 0x0A000001)"
    by (simp add: covers_def prefix_from_def addr_is_valid_def)
  with t have "Contains t (Addr4 0x0A000001) = Some True" by simp
  with trie_len_pos_iff_blocks[OF _ t(1)] t(1) show ?thesis by auto
qed

end
