(* ===== verification/Source.thy ===== *)
theory Source
  imports Trie_Correct
begin

text \<open>
  The active blocklist (\<open>internal/blocklist/source.go\<close>): one atomic pointer, loaded by every
  request and stored by a refresh. An atomic load or store is one step, so an execution of any
  number of goroutines on the pointer is a sequence of operations; the theory shows that a load
  returns the last store before it in that sequence.
\<close>

section \<open>The pointer\<close>

record source =
  current_ptr :: "trie option"

definition NewSource :: source where
  "NewSource = \<lparr>current_ptr = None\<rparr>"

definition Current :: "source \<Rightarrow> trie option" where
  "Current s = current_ptr s"

definition Swap :: "trie option \<Rightarrow> source \<Rightarrow> source" where
  "Swap t s = s\<lparr>current_ptr := t\<rparr>"

section \<open>The interface of a published value\<close>

text \<open>
  What the fetcher, the cache loader and the server rely on: a fresh cell is empty and reading
  after a publish gives what was published.
\<close>

locale published =
  fixes fresh :: 's
    and get :: "'s \<Rightarrow> 't option"
    and put :: "'t option \<Rightarrow> 's \<Rightarrow> 's"
  assumes get_fresh: "get fresh = None"
    and get_put: "get (put t s) = t"
    and put_put: "put t (put u s) = put t s"
    and put_get: "put (get s) s = s"
begin

lemma get_fold_put: "get (fold put ts s) = (if ts = [] then get s else last ts)"
  by (induction ts arbitrary: s) (auto simp: get_put)

lemma fold_put: "ts \<noteq> [] \<Longrightarrow> fold put ts s = put (last ts) s"
proof (induction ts arbitrary: s)
  case (Cons t ts)
  then show ?case by (cases "ts = []") (auto simp: put_put)
qed simp

end

interpretation pointer: published NewSource Current Swap
  by unfold_locales (simp_all add: NewSource_def Current_def Swap_def)

lemmas [simp] = pointer.get_fresh pointer.get_put pointer.put_put pointer.put_get

section \<open>Interleaved operations\<close>

text \<open>
  An operation of some goroutine on the pointer; running a sequence gives what each load returned,
  in order, and the final pointer.
\<close>

datatype pointer_op = Load_op | Store_op "trie option"

fun run_ops :: "pointer_op list \<Rightarrow> source \<Rightarrow> trie option list \<times> source" where
  "run_ops [] s = ([], s)"
| "run_ops (Load_op # ops) s = (let (rs, s') = run_ops ops s in (Current s # rs, s'))"
| "run_ops (Store_op t # ops) s = run_ops ops (Swap t s)"

fun stored_values :: "pointer_op list \<Rightarrow> trie option list" where
  "stored_values [] = []"
| "stored_values (Load_op # ops) = stored_values ops"
| "stored_values (Store_op t # ops) = t # stored_values ops"

lemma run_ops_append:
  "run_ops (xs @ ys) s =
     (let (rs, s1) = run_ops xs s; (rs', s2) = run_ops ys s1 in (rs @ rs', s2))"
  by (induction xs s rule: run_ops.induct) (auto simp: Let_def split: prod.splits)

lemma snd_run_ops: "snd (run_ops ops s) = fold Swap (stored_values ops) s"
  by (induction ops s rule: run_ops.induct) (auto simp: Let_def split: prod.splits)

text \<open>
  In every interleaving of loads and stores on a fresh source, a load returns the
  value of the last store before it, and nil when there is none: a reader never sees a trie that
  was not handed to \<open>Swap\<close>, nor one that has been replaced.
\<close>

lemma source_load_returns_last_swap:
  "fst (run_ops (before @ [Load_op]) NewSource) =
     fst (run_ops before NewSource)
       @ [if stored_values before = [] then None else last (stored_values before)]"
proof -
  have "Current (snd (run_ops before NewSource))
      = (if stored_values before = [] then None else last (stored_values before))"
    by (simp add: snd_run_ops pointer.get_fold_put)
  then show ?thesis
    by (cases "run_ops before NewSource") (simp add: run_ops_append)
qed

end
