(* ===== verification/Config.thy ===== *)
theory Config
  imports Prelude
begin

text \<open>
  The configuration (\<open>internal/config/config.go\<close>): the sections as records, \<open>defaults\<close>,
  \<open>Validate\<close> with one definition per section, and \<open>Load\<close>. Reading the file, the YAML decoder
  (\<open>gopkg.in/yaml.v3\<close>) and the cron parser (\<open>robfig/cron\<close>) are parameters.
\<close>

section \<open>The configuration\<close>

text \<open>\<open>StartupMode\<close>, \<open>LogFormat\<close>, \<open>LogLevel\<close> and \<open>CountryCode\<close> are string types in the code.\<close>

type_synonym StartupMode = string
type_synonym LogFormat = string
type_synonym LogLevel = string
type_synonym CountryCode = string
type_synonym ASN = u32

definition StartupFailClosed :: StartupMode where "StartupFailClosed = ''fail-closed''"
definition StartupFailOpen :: StartupMode where "StartupFailOpen = ''fail-open''"

definition LogFormatJSON :: LogFormat where "LogFormatJSON = ''json''"
definition LogFormatText :: LogFormat where "LogFormatText = ''text''"

definition LogLevelDebug :: LogLevel where "LogLevelDebug = ''debug''"
definition LogLevelInfo :: LogLevel where "LogLevelInfo = ''info''"
definition LogLevelWarn :: LogLevel where "LogLevelWarn = ''warn''"
definition LogLevelError :: LogLevel where "LogLevelError = ''error''"

lemmas config_constants [wiring] =
  StartupFailClosed_def StartupFailOpen_def LogFormatJSON_def LogFormatText_def
  LogLevelDebug_def LogLevelInfo_def LogLevelWarn_def LogLevelError_def

record ListenConfig =
  host :: string
  port :: int

record BlockConfig =
  countries :: "CountryCode list"
  asns :: "ASN list"

record DBIPConfig =
  dbip_enabled :: bool

record BGPToolsConfig =
  bgptools_enabled :: bool

record SourcesConfig =
  dbip :: DBIPConfig
  bgptools :: BGPToolsConfig

record RefreshConfig =
  schedule :: string
  timeout :: duration

record BehaviorConfig =
  log_blocked :: bool
  log_allowed :: bool
  response_code :: int
  startup_mode :: StartupMode

record CacheConfig =
  cache_path :: string
  max_age :: duration

record LoggingConfig =
  log_level_name :: LogLevel
  log_format :: LogFormat

record Config =
  listen :: ListenConfig
  block :: BlockConfig
  sources :: SourcesConfig
  refresh :: RefreshConfig
  behavior :: BehaviorConfig
  cache :: CacheConfig
  logging :: LoggingConfig

definition defaults :: Config where
  "defaults = \<lparr>
     listen = \<lparr>host = ''127.0.0.1'', port = 8080\<rparr>,
     block = \<lparr>countries = [], asns = []\<rparr>,
     sources = \<lparr>dbip = \<lparr>dbip_enabled = False\<rparr>, bgptools = \<lparr>bgptools_enabled = False\<rparr>\<rparr>,
     refresh = \<lparr>schedule = ''0 3 * * *'', timeout = 30 * second\<rparr>,
     behavior = \<lparr>log_blocked = True, log_allowed = False, response_code = 403,
                 startup_mode = StartupFailClosed\<rparr>,
     cache = \<lparr>cache_path = ''/var/cache/bitblocker/dbip-country-lite.mmdb'', max_age = 48 * hour\<rparr>,
     logging = \<lparr>log_level_name = LogLevelInfo, log_format = LogFormatJSON\<rparr>\<rparr>"

section \<open>Validation\<close>

text \<open>The regular expression \<open>^[A-Z]{2}$\<close>: \<open>$\<close> without the m flag is the end of the text.\<close>

definition upper_letter :: "char \<Rightarrow> bool" where
  "upper_letter c \<longleftrightarrow> 65 \<le> (of_char c :: nat) \<and> (of_char c :: nat) \<le> 90"

definition countryCodePattern :: "string \<Rightarrow> bool" where
  "countryCodePattern s \<longleftrightarrow> length s = 2 \<and> list_all upper_letter s"

definition isValidStartupMode :: "StartupMode \<Rightarrow> bool" where
  "isValidStartupMode m \<longleftrightarrow> m = StartupFailClosed \<or> m = StartupFailOpen"

definition isValidLogLevel :: "LogLevel \<Rightarrow> bool" where
  "isValidLogLevel l \<longleftrightarrow>
     l = LogLevelDebug \<or> l = LogLevelInfo \<or> l = LogLevelWarn \<or> l = LogLevelError"

definition isValidLogFormat :: "LogFormat \<Rightarrow> bool" where
  "isValidLogFormat f \<longleftrightarrow> f = LogFormatJSON \<or> f = LogFormatText"

definition validateListen :: "Config \<Rightarrow> go_error list" where
  "validateListen c =
     (if port (listen c) < 1 \<or> port (listen c) > 65535
      then [Errorf ''listen.port must be 1-65535, got %d'' [FInt (port (listen c))]] else [])
     @ (if host (listen c) = '''' then [New_error ''listen.host must not be empty''] else [])"

text \<open>The loop over the countries, from index \<open>i\<close>.\<close>

fun country_errors :: "int \<Rightarrow> CountryCode list \<Rightarrow> go_error list" where
  "country_errors i [] = []"
| "country_errors i (cc # ccs) =
     (if \<not> countryCodePattern cc
      then [Errorf ''block.countries[%d]=%q is not an ISO 3166-1 alpha-2 code'' [FInt i, FStr cc]]
      else []) @ country_errors (i + 1) ccs"

definition validateBlock :: "Config \<Rightarrow> go_error list" where
  "validateBlock c =
     (if length (countries (block c)) = 0 \<and> length (asns (block c)) = 0
      then [New_error ''block must list at least one country or ASN''] else [])
     @ country_errors 0 (countries (block c))"

definition validateSources :: "Config \<Rightarrow> go_error list" where
  "validateSources c =
     (if \<not> dbip_enabled (dbip (sources c)) \<and> \<not> bgptools_enabled (bgptools (sources c))
      then [New_error ''at least one source (dbip, bgptools) must be enabled''] else [])"

text \<open>\<open>parse_cron\<close> is \<open>cron.ParseStandard\<close>: \<open>None\<close> when the expression parses.\<close>

definition validateRefresh :: "(string \<Rightarrow> go_error option) \<Rightarrow> Config \<Rightarrow> go_error list" where
  "validateRefresh parse_cron c =
     (if schedule (refresh c) = ''''
      then [New_error ''refresh.schedule must not be empty'']
      else
        (case parse_cron (schedule (refresh c)) of
           None \<Rightarrow> []
         | Some err \<Rightarrow>
            [Wrapf ''refresh.schedule %q is not a valid cron expression: %w''
               [FStr (schedule (refresh c))] err]))
     @ (if duration_le (timeout (refresh c)) 0
        then [Errorf ''refresh.timeout must be positive, got %s'' [FDur (timeout (refresh c))]]
        else [])"

definition validateBehavior :: "Config \<Rightarrow> go_error list" where
  "validateBehavior c =
     (if \<not> isValidStartupMode (startup_mode (behavior c))
      then [Errorf ''behavior.startup_mode must be %q or %q, got %q''
              [FStr StartupFailClosed, FStr StartupFailOpen, FStr (startup_mode (behavior c))]]
      else [])
     @ (if response_code (behavior c) < 400 \<or> response_code (behavior c) > 599
        then [Errorf ''behavior.response_code must be a 4xx or 5xx status, got %d''
                [FInt (response_code (behavior c))]]
        else [])"

definition validateCache :: "Config \<Rightarrow> go_error list" where
  "validateCache c =
     (if cache_path (cache c) = '''' then [New_error ''cache.path must not be empty''] else [])
     @ (if duration_le (max_age (cache c)) 0
        then [Errorf ''cache.max_age must be positive, got %s'' [FDur (max_age (cache c))]] else [])"

definition validateLogging :: "Config \<Rightarrow> go_error list" where
  "validateLogging c =
     (if \<not> isValidLogLevel (log_level_name (logging c))
      then [Errorf ''logging.level must be debug|info|warn|error, got %q''
              [FStr (log_level_name (logging c))]] else [])
     @ (if \<not> isValidLogFormat (log_format (logging c))
        then [Errorf ''logging.format must be json|text, got %q'' [FStr (log_format (logging c))]]
        else [])"

text \<open>\<open>errors.Join\<close> of the collected errors: nil when there are none.\<close>

definition join_errors :: "go_error list \<Rightarrow> go_error option" where
  "join_errors errs = (if errs = [] then None else Some (Joined errs))"

definition Validate :: "(string \<Rightarrow> go_error option) \<Rightarrow> Config \<Rightarrow> go_error option" where
  "Validate parse_cron c =
     join_errors (validateListen c @ validateBlock c @ validateSources c
       @ validateRefresh parse_cron c @ validateBehavior c @ validateCache c @ validateLogging c)"

text \<open>
  \<open>read_file\<close> is \<open>os.ReadFile\<close>, \<open>decode\<close> the strict YAML decoder over a prefilled value.
\<close>

definition Load ::
  "(string \<Rightarrow> string result) \<Rightarrow> (string \<Rightarrow> Config \<Rightarrow> Config result) \<Rightarrow>
   (string \<Rightarrow> go_error option) \<Rightarrow> string \<Rightarrow> Config result" where
  "Load read_file decode parse_cron path =
     (case read_file path of
        Inl err \<Rightarrow> Inl (Wrapf ''read config file %q: %w'' [FStr path] err)
      | Inr raw \<Rightarrow>
         (case decode raw defaults of
            Inl err \<Rightarrow> Inl (Wrapf ''parse config %q: %w'' [FStr path] err)
          | Inr cfg \<Rightarrow>
             (case Validate parse_cron cfg of
                Some err \<Rightarrow> Inl (Wrapf ''validate config %q: %w'' [FStr path] err)
              | None \<Rightarrow> Inr cfg)))"

end
