(* ===== verification/Mmdb.thy ===== *)
theory Mmdb
  imports Source Config
begin

unbundle bit_operations_syntax

text \<open>
  The MMDB loader (\<open>internal/mmdb/loader.go\<close>): \<open>prefixFromIPNet\<close> and \<open>LoadCountryBlocklist\<close>.
  The MMDB reader (\<open>oschwald/maxminddb-golang\<close>) is a parameter: opening the bytes of a file (or
  nothing, when there is no file) gives an error or the sequence of results its iterator yields.
\<close>

section \<open>Networks\<close>

text \<open>A \<open>net.IPNet\<close>: the address bytes and the mask bytes.\<close>

record ipnet =
  net_ip :: "u8 list"
  net_mask :: "u8 list"

text \<open>The leading ones of a byte, \<open>None\<close> when a one follows a zero.\<close>

fun byte_ones :: "nat \<Rightarrow> u8 \<Rightarrow> int option" where
  "byte_ones 0 v = (if v \<noteq> 0 then None else Some 0)"
| "byte_ones (Suc k) v =
     (if v AND 0x80 \<noteq> 0 then map_option (\<lambda>n. n + 1) (byte_ones k (push_bit 1 v))
      else if v \<noteq> 0 then None else Some 0)"

text \<open>\<open>simpleMaskLength\<close>: the ones of a mask that is ones followed by zeros.\<close>

fun mask_length :: "u8 list \<Rightarrow> int option" where
  "mask_length [] = Some 0"
| "mask_length (v # vs) =
     (if v = 0xff then map_option (\<lambda>n. n + 8) (mask_length vs)
      else
        (case byte_ones 8 v of
           None \<Rightarrow> None
         | Some n \<Rightarrow> if \<forall>b \<in> set vs. b = 0 then Some n else None))"

text \<open>\<open>IPMask.Size\<close>: both results are zero for a mask of another shape.\<close>

definition mask_size :: "u8 list \<Rightarrow> int \<times> int" where
  "mask_size m = (case mask_length m of None \<Rightarrow> (0, 0) | Some n \<Rightarrow> (n, 8 * int (length m)))"

definition prefixFromIPNet :: "ipnet option \<Rightarrow> prefix \<times> bool" where
  "prefixFromIPNet n =
     (case n of
        None \<Rightarrow> (zero_prefix, False)
      | Some n \<Rightarrow>
         (let bits = fst (mask_size (net_mask n)) in
          if length (net_ip n) = 4 then (prefix_from (addr_from4 (net_ip n)) bits, True)
          else if length (net_ip n) = 16 then (prefix_from (addr_from16 (net_ip n)) bits, True)
          else (zero_prefix, False)))"

section \<open>Loading\<close>

text \<open>
  What an opened reader yields: for every network of the walk, an error of the decoder or the
  network and the ISO code of its record (empty when the record has none), and the error the
  iterator holds at the end.
\<close>

record mmdb_reader =
  networks :: "(ipnet option \<times> string) result list"
  networks_err :: "go_error option"

type_synonym mmdb_open = "u8 list option \<Rightarrow> mmdb_reader result"

definition wanted_map :: "CountryCode list \<Rightarrow> string \<Rightarrow> unit option" where
  "wanted_map ccs = map_of (map (\<lambda>c. (c, ())) ccs)"

text \<open>The loop over the networks: \<open>None\<close> is a panic of \<open>Insert\<close>.\<close>

fun load_networks ::
  "(string \<Rightarrow> unit option) \<Rightarrow> (ipnet option \<times> string) result list \<Rightarrow> trie \<Rightarrow> trie result option" where
  "load_networks wanted [] t = Some (Inr t)"
| "load_networks wanted (n # ns) t =
     (case n of
        Inl err \<Rightarrow> Some (Inl (Wrapf ''mmdb: decode network record: %w'' [] err))
      | Inr (subnet, code) \<Rightarrow>
          if wanted code = None then load_networks wanted ns t
          else
            (let (p, ok) = prefixFromIPNet subnet in
             if \<not> ok
             then Some (Inl (Errorf ''mmdb: cannot represent network %s as netip.Prefix'' [FStr ''<nil>'']))
             else
               (case Insert t p of
                  None \<Rightarrow> None
                | Some t' \<Rightarrow> load_networks wanted ns t')))"

definition LoadCountryBlocklist ::
  "mmdb_open \<Rightarrow> string \<Rightarrow> u8 list option \<Rightarrow> CountryCode list \<Rightarrow> trie result option" where
  "LoadCountryBlocklist mmdb_open path file ccs =
     (if length ccs = 0 then Some (Inl (Sentinel Mmdb_ErrNoCountries))
      else
        (case mmdb_open file of
           Inl err \<Rightarrow> Some (Inl (Wrapf ''mmdb: open %q: %w'' [FStr path] err))
         | Inr reader \<Rightarrow>
            (case load_networks (wanted_map ccs) (networks reader) New of
               None \<Rightarrow> None
             | Some (Inl err) \<Rightarrow> Some (Inl err)
             | Some (Inr t) \<Rightarrow>
                (case networks_err reader of
                   Some err \<Rightarrow> Some (Inl (Wrapf ''mmdb: traverse networks: %w'' [] err))
                 | None \<Rightarrow> Some (Inr t)))))"

text \<open>
  \<open>maxminddb.Open\<close> where the operating system can fail, to open or to map the file: at one call and
  perhaps not at the next one, so the fault is an argument of the call. Without one the bytes decide.
\<close>

definition Open :: "mmdb_open \<Rightarrow> go_error option \<Rightarrow> mmdb_open" where
  "Open mmdb_open fault file = (case fault of Some err \<Rightarrow> Inl err | None \<Rightarrow> mmdb_open file)"

lemma Open_ok [simp]: "Open mmdb_open None = mmdb_open"
  by (simp add: Open_def fun_eq_iff)

lemma Open_Inr [simp]: "Open mmdb_open fault file = Inr reader \<longleftrightarrow> fault = None \<and> mmdb_open file = Inr reader"
  by (simp add: Open_def split: option.split)

section \<open>The walk as a selection\<close>

lemma wanted_map_iff: "wanted_map ccs code = None \<longleftrightarrow> code \<notin> set ccs"
  by (simp add: wanted_map_def map_of_eq_None_iff image_image)

text \<open>The prefixes a complete walk inserts, in order.\<close>

definition selected :: "CountryCode list \<Rightarrow> (ipnet option \<times> string) result list \<Rightarrow> prefix list" where
  "selected ccs ns =
     map (\<lambda>n. case n of Inl _ \<Rightarrow> zero_prefix | Inr (subnet, _) \<Rightarrow> fst (prefixFromIPNet subnet))
       (filter (\<lambda>n. case n of Inl _ \<Rightarrow> False | Inr (_, code) \<Rightarrow> code \<in> set ccs) ns)"

text \<open>A network that stops the walk with an error.\<close>

definition stops :: "CountryCode list \<Rightarrow> (ipnet option \<times> string) result \<Rightarrow> bool" where
  "stops ccs n =
     (case n of Inl _ \<Rightarrow> True | Inr (subnet, code) \<Rightarrow> code \<in> set ccs \<and> \<not> snd (prefixFromIPNet subnet))"

lemma stops_simps [simp]:
  "stops ccs (Inl err)"
  "stops ccs (Inr (subnet, code)) \<longleftrightarrow> code \<in> set ccs \<and> \<not> snd (prefixFromIPNet subnet)"
  by (simp_all add: stops_def)

lemma selected_simps [simp]:
  "selected ccs [] = []"
  "selected ccs (Inl err # ns) = selected ccs ns"
  "selected ccs (Inr (subnet, code) # ns) =
     (if code \<in> set ccs then [fst (prefixFromIPNet subnet)] else []) @ selected ccs ns"
  by (simp_all add: selected_def)

lemma prefixFromIPNet_wf [simp]: "prefix_wf (fst (prefixFromIPNet n))"
  by (auto simp: prefixFromIPNet_def Let_def split: option.split)

lemma selected_wf: "\<forall>p \<in> set (selected ccs ns). prefix_wf p"
  by (auto simp: selected_def split: sum.splits)

lemma load_networks_eq:
  assumes "trie_wf t"
  shows "load_networks (wanted_map ccs) ns t =
    (case filter (stops ccs) ns of
       [] \<Rightarrow> map_option Inr (insert_all t (selected ccs ns))
     | n # _ \<Rightarrow>
         Some (Inl (case n of
           Inl err \<Rightarrow> Wrapf ''mmdb: decode network record: %w'' [] err
         | Inr _ \<Rightarrow> Errorf ''mmdb: cannot represent network %s as netip.Prefix'' [FStr ''<nil>''])))"
  using assms
proof (induction ns arbitrary: t)
  case (Cons n ns)
  show ?case
  proof (cases n)
    case (Inl err)
    then show ?thesis by simp
  next
    case (Inr r)
    obtain subnet code where r: "r = (subnet, code)" by (cases r)
    obtain t' where t': "Insert t (fst (prefixFromIPNet subnet)) = Some t'" "trie_wf t'"
      using Insert_wf[OF Cons.prems prefixFromIPNet_wf] by metis
    show ?thesis
      unfolding Inr r using Cons.IH[OF Cons.prems] Cons.IH[OF t'(2)] t'(1)
      by (cases "prefixFromIPNet subnet") (auto simp: wanted_map_iff split: list.split)
  qed
qed simp

lemma LoadCountryBlocklist_returns:
  "\<exists>r. LoadCountryBlocklist mmdb_open path file ccs = Some r \<and> (\<forall>t. r = Inr t \<longrightarrow> trie_wf t)"
proof (cases "mmdb_open file")
  case (Inr reader)
  obtain t where "insert_all New (selected ccs (networks reader)) = Some t" "trie_wf t"
    using blocklist.built_mem[OF selected_wf] by metis
  with Inr show ?thesis
    by (auto simp: LoadCountryBlocklist_def load_networks_eq split: list.splits option.splits)
qed (simp add: LoadCountryBlocklist_def)

lemma LoadCountryBlocklist_Inr_iff:
  "LoadCountryBlocklist mmdb_open path file ccs = Some (Inr t) \<longleftrightarrow>
     ccs \<noteq> [] \<and> (\<exists>reader. mmdb_open file = Inr reader \<and> networks_err reader = None
       \<and> \<not> (\<exists>n \<in> set (networks reader). stops ccs n)
       \<and> insert_all New (selected ccs (networks reader)) = Some t)"
proof -
  have "filter P xs = [] \<longleftrightarrow> \<not> (\<exists>x \<in> set xs. P x)" for P and xs :: "'a list"
    by (auto simp: filter_empty_conv)
  then show ?thesis
    by (auto simp: LoadCountryBlocklist_def load_networks_eq filter_empty_conv
        split: list.splits option.splits sum.splits)
qed

lemma LoadCountryBlocklist_Open [simp]:
  "LoadCountryBlocklist (Open mmdb_open fault) path file ccs = Some (Inr t) \<longleftrightarrow>
     fault = None \<and> LoadCountryBlocklist mmdb_open path file ccs = Some (Inr t)"
  by (auto simp: LoadCountryBlocklist_Inr_iff)

section \<open>Masks\<close>

text \<open>The mask of \<open>b\<close> ones in a word.\<close>

definition cidr_mask :: "nat \<Rightarrow> 'a::len word" where
  "cidr_mask b = NOT (mask (LENGTH('a) - b))"

definition byte_mask :: "nat \<Rightarrow> u8" where
  "byte_mask j = NOT (mask (8 - j))"

lemma word_bytes_cidr_mask:
  assumes "LENGTH('a) = 8 * n" "b \<le> 8 * n"
  shows "word_bytes n (cidr_mask b :: 'a::len word) = map (\<lambda>k. byte_mask (b - 8 * k)) [0..<n]"
  unfolding word_bytes_def
proof (rule map_cong)
  fix k assume k: "k \<in> set [0..<n]"
  show "ucast (drop_bit (8 * (n - 1 - k)) (cidr_mask b :: 'a word)) = byte_mask (b - 8 * k)"
  proof (rule bit_word_eqI)
    fix m assume m: "m < LENGTH(8)"
    have "8 * (n - 1 - k) + m < 8 * n" using m k by auto
    moreover have "8 * n - b \<le> 8 * (n - 1 - k) + m \<longleftrightarrow> 8 - (b - 8 * k) \<le> m"
      using m k assms(2) by auto
    ultimately show "bit (ucast (drop_bit (8 * (n - 1 - k)) (cidr_mask b :: 'a word)) :: u8) m
        = bit (byte_mask (b - 8 * k)) m"
      using m assms(1) by (simp add: cidr_mask_def byte_mask_def bit_simps not_less)
  qed
qed simp

lemma byte_ones_numeral:
  "byte_ones (numeral k) v =
     (if v AND 0x80 \<noteq> 0 then map_option (\<lambda>n. n + 1) (byte_ones (pred_numeral k) (push_bit 1 v))
      else if v \<noteq> 0 then None else Some 0)"
  by (simp only: numeral_eq_Suc[of k] byte_ones.simps)

lemma byte_mask_values:
  "8 \<le> j \<Longrightarrow> byte_mask j = 0xff" "byte_mask 0 = 0"
  "j < 8 \<Longrightarrow> byte_mask j \<noteq> 0xff \<and> byte_ones 8 (byte_mask j) = Some (int j)"
proof -
  show "8 \<le> j \<Longrightarrow> byte_mask j = 0xff" "byte_mask 0 = 0"
    by (simp_all add: byte_mask_def mask_eq_exp_minus_1)
  assume "j < 8"
  then consider "j = 0" | "j = 1" | "j = 2" | "j = 3" | "j = 4" | "j = 5" | "j = 6" | "j = 7" by linarith
  then show "byte_mask j \<noteq> 0xff \<and> byte_ones 8 (byte_mask j) = Some (int j)"
    by cases (simp_all add: byte_mask_def mask_eq_exp_minus_1 byte_ones_numeral)
qed

lemma mask_length_byte_masks:
  "b \<le> 8 * n \<Longrightarrow> mask_length (map (\<lambda>k. byte_mask (b - 8 * k)) [0..<n]) = Some (int b)"
proof (induction n arbitrary: b)
  case (Suc n)
  have list: "map (\<lambda>k. byte_mask (b - 8 * k)) [0..<Suc n]
      = byte_mask b # map (\<lambda>k. byte_mask (b - 8 - 8 * k)) [0..<n]"
    by (simp add: upt_conv_Cons map_Suc_upt[symmetric] comp_def diff_diff_left del: upt_Suc)
  show ?case
  proof (cases "8 \<le> b")
    case True
    with Suc.IH[of "b - 8"] Suc.prems show ?thesis by (simp add: list byte_mask_values del: upt_Suc)
  next
    case False
    then show ?thesis by (simp add: list byte_mask_values del: upt_Suc)
  qed
qed simp

lemma mask_size_cidr:
  assumes "LENGTH('a) = 8 * n" "b \<le> 8 * n"
  shows "fst (mask_size (word_bytes n (cidr_mask b :: 'a::len word))) = int b"
  by (simp add: mask_size_def word_bytes_cidr_mask[OF assms] mask_length_byte_masks assms(2))

lemmas mask_size_cidr4 = mask_size_cidr [where 'a = 32 and n = 4, simplified]
lemmas mask_size_cidr16 = mask_size_cidr [where 'a = 128 and n = 16, simplified]

lemma addr_from_word_bytes4: "addr_from4 (word_bytes 4 w) = Addr4 w"
  by (simp add: addr_from4_def word_of_bytes4)

section \<open>Properties\<close>

lemma covers_selected:
  "(\<exists>p \<in> set (selected ccs ns). covers p ip) \<longleftrightarrow>
     (\<exists>subnet code. Inr (subnet, code) \<in> set ns \<and> code \<in> set ccs \<and> covers (fst (prefixFromIPNet subnet)) ip)"
  by (induction ns) (auto simp: selected_def split: sum.splits prod.splits if_splits)

text \<open>
  C25 (functional). A successful load gives a trie that contains an address exactly when some
  network of the database, whose record carries one of the configured codes, covers it: nothing
  else is blocked and no selected network is lost.
\<close>

theorem load_country_blocks_selected:
  assumes "LoadCountryBlocklist mmdb_open path file ccs = Some (Inr t)"
  shows "\<exists>reader. mmdb_open file = Inr reader \<and>
    (\<forall>ip. Contains t ip = Some (\<exists>subnet code. Inr (subnet, code) \<in> set (networks reader)
        \<and> code \<in> set ccs \<and> covers (fst (prefixFromIPNet subnet)) ip))"
proof -
  obtain reader where "mmdb_open file = Inr reader"
    "insert_all New (selected ccs (networks reader)) = Some t"
    using assms by (auto simp: LoadCountryBlocklist_Inr_iff)
  moreover obtain t' where "insert_all New (selected ccs (networks reader)) = Some t'"
    "\<And>ip. Contains t' ip = Some (\<exists>p \<in> set (selected ccs (networks reader)). covers p ip)"
    using blocklist.built_mem[OF selected_wf] by metis
  ultimately show ?thesis using covers_selected by auto
qed

abbreviation sample_net :: ipnet where
  "sample_net \<equiv> \<lparr>net_ip = [10, 0, 0, 0], net_mask = [0xff, 0, 0, 0]\<rparr>"

abbreviation sample_reader :: mmdb_reader where
  "sample_reader \<equiv> \<lparr>networks = [Inr (Some sample_net, ''CN''),
     Inr (Some \<lparr>net_ip = [11, 0, 0, 0], net_mask = [0xff, 0, 0, 0]\<rparr>, ''US'')], networks_err = None\<rparr>"

lemma sample_prefix: "prefixFromIPNet (Some sample_net) = (prefix_from (Addr4 0x0A000000) 8, True)"
  by (simp add: prefixFromIPNet_def mask_size_def addr_from4_def word_of_bytes_def byte_ones_numeral)

lemma sample_load:
  "\<exists>t. LoadCountryBlocklist (\<lambda>_. Inr sample_reader) p f [''CN''] = Some (Inr t)"
proof -
  obtain t where "insert_all New (selected [''CN''] (networks sample_reader)) = Some t"
    using blocklist.built_mem[OF selected_wf] by metis
  then show ?thesis
    by (intro exI[of _ t]) (auto simp: LoadCountryBlocklist_Inr_iff prefixFromIPNet_def Let_def)
qed

theorem load_country_blocks_selected_witness:
  "\<exists>t. LoadCountryBlocklist (\<lambda>_. Inr sample_reader) ''db'' None [''CN''] = Some (Inr t)
     \<and> Contains t (Addr4 0x0A010203) = Some True \<and> Contains t (Addr4 0x0B010203) = Some False"
proof -
  obtain t where t: "LoadCountryBlocklist (\<lambda>_. Inr sample_reader) ''db'' None [''CN''] = Some (Inr t)"
    using sample_load by blast
  from load_country_blocks_selected[OF t] have
    "\<And>ip. Contains t ip = Some (covers (fst (prefixFromIPNet (Some sample_net))) ip)" by simp
  with t show ?thesis
    by (intro exI[of _ t]) (simp add: sample_prefix covers_def prefix_from_def addr_is_valid_def)
qed

text \<open>
  C26 (error). A load never panics, and it fails exactly when the code list is empty, the file
  does not open, a record does not decode, a selected network has no 4- or 16-byte address, or the
  iterator ends in an error; a network of another country never fails it.
\<close>

theorem load_country_fails_iff:
  "\<exists>r. LoadCountryBlocklist mmdb_open path file ccs = Some r \<and>
     ((\<exists>err. r = Inl err) \<longleftrightarrow>
        ccs = [] \<or> (case mmdb_open file of
          Inl _ \<Rightarrow> True
        | Inr reader \<Rightarrow> (\<exists>err. networks_err reader = Some err)
            \<or> (\<exists>err. Inl err \<in> set (networks reader))
            \<or> (\<exists>subnet code. Inr (subnet, code) \<in> set (networks reader) \<and> code \<in> set ccs
                \<and> (case subnet of None \<Rightarrow> True | Some n \<Rightarrow> length (net_ip n) \<notin> {4, 16}))))"
proof -
  obtain r where r: "LoadCountryBlocklist mmdb_open path file ccs = Some r"
    using LoadCountryBlocklist_returns by blast
  obtain tr where ins: "\<And>ns. insert_all New (selected ccs ns) = Some (tr ns)"
    using blocklist.built_mem[OF selected_wf] by metis
  have rep: "snd (prefixFromIPNet subnet) \<longleftrightarrow>
      \<not> (case subnet of None \<Rightarrow> True | Some n \<Rightarrow> length (net_ip n) \<notin> {4, 16})" for subnet
    by (auto simp: prefixFromIPNet_def Let_def split: option.split)
  have stop: "(\<exists>n \<in> set ns. stops ccs n) \<longleftrightarrow> (\<exists>err. Inl err \<in> set ns)
      \<or> (\<exists>subnet code. Inr (subnet, code) \<in> set ns \<and> code \<in> set ccs
          \<and> (case subnet of None \<Rightarrow> True | Some n \<Rightarrow> length (net_ip n) \<notin> {4, 16}))" for ns
  proof -
    have "(\<exists>n \<in> set ns. stops ccs n) \<longleftrightarrow> (\<exists>err. Inl err \<in> set ns)
        \<or> (\<exists>subnet code. Inr (subnet, code) \<in> set ns \<and> stops ccs (Inr (subnet, code)))"
      by (metis stops_simps(1) sum.exhaust surj_pair)
    then show ?thesis by (simp add: rep)
  qed
  have "(\<exists>err. r = Inl err) \<longleftrightarrow> \<not> (\<exists>t. LoadCountryBlocklist mmdb_open path file ccs = Some (Inr t))"
    using r by (cases r) auto
  also have "\<dots> \<longleftrightarrow> ccs = [] \<or> (case mmdb_open file of
      Inl _ \<Rightarrow> True
    | Inr reader \<Rightarrow> (\<exists>err. networks_err reader = Some err) \<or> (\<exists>n \<in> set (networks reader). stops ccs n))"
    by (auto simp: ins LoadCountryBlocklist_Inr_iff not_None_eq[symmetric] simp del: not_None_eq split: sum.split)
  finally show ?thesis using r unfolding stop by blast
qed

text \<open>
  A network given as the bytes of an IPv4 address and of the mask of \<open>b\<close> ones
  becomes the prefix of that address with \<open>b\<close> bits, for every width from 0 to 32.
\<close>

lemma prefix_from_ipnet_v4:
  assumes "b \<le> 32"
  shows "prefixFromIPNet (Some \<lparr>net_ip = word_bytes 4 (w :: u32),
      net_mask = word_bytes 4 (cidr_mask b :: u32)\<rparr>) = (prefix_from (Addr4 w) (int b), True)"
  using mask_size_cidr4[OF assms] by (simp add: prefixFromIPNet_def addr_from_word_bytes4)

lemma prefix_from_ipnet_v4_witness:
  "prefixFromIPNet (Some \<lparr>net_ip = word_bytes 4 (0x0A000000 :: u32),
      net_mask = word_bytes 4 (cidr_mask 8 :: u32)\<rparr>) = (prefix_from (Addr4 0x0A000000) 8, True)"
  using prefix_from_ipnet_v4[of 8 "0x0A000000"] by simp

text \<open>
  The conversion does not check the mask: a 4-byte network whose mask is not ones
  followed by zeros is accepted as the prefix of 0 bits, which covers every IPv4 address, although
  the loader means to fail on a network it cannot represent.
\<close>

lemma bad_mask_becomes_everything:
  assumes "length (net_ip n) = 4" "mask_length (net_mask n) = None"
  shows "\<exists>p. prefixFromIPNet (Some n) = (p, True) \<and> \<not> (\<exists>v. \<not> covers p (Addr4 v))"
  using assms
  by (simp add: prefixFromIPNet_def mask_size_def covers_def prefix_from_def addr_is_valid_def
      addr_from4_def drop_bit_eq_iff)

lemma bad_mask_becomes_everything_witness:
  "covers (fst (prefixFromIPNet (Some \<lparr>net_ip = [10, 0, 0, 0], net_mask = [0xff, 0, 0xff, 0]\<rparr>)))
     (Addr4 0xC0000201)"
proof -
  have "mask_length [0xff, 0, 0xff, 0] = None" by (simp add: byte_ones_numeral)
  with bad_mask_becomes_everything[of "\<lparr>net_ip = [10, 0, 0, 0], net_mask = [0xff, 0, 0xff, 0]\<rparr>"]
  show ?thesis by auto
qed

end
