(* ===== verification/Diskcache.thy ===== *)
theory Diskcache
  imports Go_IO Mmdb
begin

text \<open>
  \<open>internal/diskcache/cache.go\<close>: \<open>Write\<close> and \<open>Load\<close> (\<open>cache_Write\<close>, \<open>cache_Load\<close>). The file
  system is explicit, every operating-system call that can fail has its outcome in an environment
  record, and a disk keeps the states it went through, so that a crash between any two calls is a
  statement about that history.
\<close>

section \<open>The disk\<close>

record disk =
  files :: fs
  past :: "fs list"

definition become :: "fs \<Rightarrow> disk \<Rightarrow> disk" where
  "become F d = d\<lparr>files := F, past := files d # past d\<rparr>"

definition os_create :: "string \<Rightarrow> instant \<Rightarrow> disk \<Rightarrow> disk" where
  "os_create p t d = become ((files d)(p \<mapsto> \<lparr>data = [], mtime = t, synced = False\<rparr>)) d"

definition os_append :: "string \<Rightarrow> u8 list \<Rightarrow> instant \<Rightarrow> disk \<Rightarrow> disk" where
  "os_append p bs t d =
     (case files d p of
        None \<Rightarrow> d
      | Some f \<Rightarrow> become ((files d)(p \<mapsto> \<lparr>data = data f @ bs, mtime = t, synced = False\<rparr>)) d)"

definition os_sync :: "string \<Rightarrow> disk \<Rightarrow> disk" where
  "os_sync p d =
     (case files d p of None \<Rightarrow> d | Some f \<Rightarrow> become ((files d)(p \<mapsto> f\<lparr>synced := True\<rparr>)) d)"

definition os_rename :: "string \<Rightarrow> string \<Rightarrow> disk \<Rightarrow> disk" where
  "os_rename p q d = become ((files d)(q := files d p, p := None)) d"

definition os_remove :: "string \<Rightarrow> disk \<Rightarrow> disk" where
  "os_remove p d = become ((files d)(p := None)) d"

section \<open>Write\<close>

text \<open>
  The outcomes of the calls of one \<open>Write\<close>: \<open>temp_random\<close> is the random part that
  \<open>os.CreateTemp\<close> puts for the star, \<open>write_err k\<close> says whether the \<open>k\<close>-th write stops
  after some bytes with an error, \<open>written_at\<close> is the time the file system stamps.
\<close>

record write_env =
  mkdir_err :: "go_error option"
  temp_random :: "string result"
  write_err :: "nat \<Rightarrow> (nat \<times> go_error) option"
  sync_err :: "go_error option"
  close_err :: "go_error option"
  rename_err :: "go_error option"
  remove_err :: "go_error option"
  written_at :: instant

definition temp_path :: "string \<Rightarrow> string \<Rightarrow> string" where
  "temp_path dir r =
     (if dir \<noteq> '''' \<and> last dir = CHR ''/'' then dir else dir @ ''/'')
       @ ''dbip-country-lite.'' @ r @ ''.mmdb.tmp''"

text \<open>\<open>io.Copy\<close>: each piece is written before the error that came with it is looked at.\<close>

fun io_copy :: "write_env \<Rightarrow> string \<Rightarrow> nat \<Rightarrow> reader \<Rightarrow> disk \<Rightarrow> go_error option \<times> disk" where
  "io_copy env tmp k [] d = (None, d)"
| "io_copy env tmp k ((bs, err) # rs) d =
     (case (if bs = [] then None else write_err env k) of
        Some (n, e) \<Rightarrow> (Some e, os_append tmp (take n bs) (written_at env) d)
      | None \<Rightarrow>
          (let d' = (if bs = [] then d else os_append tmp bs (written_at env) d)
           in case err of Some e \<Rightarrow> (Some e, d') | None \<Rightarrow> io_copy env tmp (k + 1) rs d'))"

text \<open>The body of \<open>Write\<close> from the copy on, whose errors the deferred cleanup sees.\<close>

definition write_temp ::
  "write_env \<Rightarrow> string \<Rightarrow> string \<Rightarrow> reader \<Rightarrow> disk \<Rightarrow> go_error option \<times> disk" where
  "write_temp env path tmp src d =
     (case io_copy env tmp 0 src d of
        (Some e, d1) \<Rightarrow> (Some (Wrapf ''diskcache: write temp file: %w'' [] e), d1)
      | (None, d1) \<Rightarrow>
          (case sync_err env of
             Some e \<Rightarrow> (Some (Wrapf ''diskcache: sync temp file: %w'' [] e), d1)
           | None \<Rightarrow>
               (let d2 = os_sync tmp d1 in
                case close_err env of
                  Some e \<Rightarrow> (Some (Wrapf ''diskcache: close temp file: %w'' [] e), d2)
                | None \<Rightarrow>
                    (case rename_err env of
                       Some e \<Rightarrow> (Some (Wrapf ''diskcache: rename into place: %w'' [] e), d2)
                     | None \<Rightarrow> (None, os_rename tmp path d2)))))"

definition cache_Write :: "write_env \<Rightarrow> string \<Rightarrow> reader \<Rightarrow> disk \<Rightarrow> go_error option \<times> disk" where
  "cache_Write env path src d =
     (let dir = filepath_dir path in
      case mkdir_err env of
        Some e \<Rightarrow> (Some (Wrapf ''diskcache: create dir %q: %w'' [FStr dir] e), d)
      | None \<Rightarrow>
          (case temp_random env of
             Inl e \<Rightarrow> (Some (Wrapf ''diskcache: create temp file in %q: %w'' [FStr dir] e), d)
           | Inr r \<Rightarrow>
               (let tmp = temp_path dir r;
                    (err, d') = write_temp env path tmp src (os_create tmp (written_at env) d)
                in (err,
                    if err \<noteq> None \<and> remove_err env = None then os_remove tmp d' else d'))))"

section \<open>Load\<close>

definition os_stat :: "go_error option \<Rightarrow> string \<Rightarrow> fs \<Rightarrow> inode result" where
  "os_stat fault p F =
     (case fault of
        Some e \<Rightarrow> Inl e
      | None \<Rightarrow>
          (case F p of
             None \<Rightarrow> Inl (Wrapf ''stat %s: %w'' [FStr p] (Sentinel Os_ErrNotExist))
           | Some f \<Rightarrow> Inr f))"

definition cache_Load ::
  "mmdb_open \<Rightarrow> go_error option \<Rightarrow> fs \<Rightarrow> string \<Rightarrow> duration \<Rightarrow> instant \<Rightarrow> CountryCode list
     \<Rightarrow> trie result option" where
  "cache_Load mmdb_open stat_fault F path maxAge now ccs =
     (case os_stat stat_fault path F of
        Inl err \<Rightarrow>
          if errors_is err Os_ErrNotExist then Some (Inl (Sentinel Diskcache_ErrAbsent))
          else Some (Inl (Wrapf ''diskcache: stat %q: %w'' [FStr path] err))
      | Inr info \<Rightarrow>
          if duration_less maxAge (time_sub now (mtime info))
          then Some (Inl (Sentinel Diskcache_ErrStale))
          else
            (case LoadCountryBlocklist mmdb_open path (map_option data (F path)) ccs of
               None \<Rightarrow> None
             | Some (Inl err) \<Rightarrow> Some (Inl (Wrapf ''diskcache: load %q: %w'' [FStr path] err))
             | Some (Inr t) \<Rightarrow> Some (Inr t)))"


section \<open>What a write does to the disk\<close>

text \<open>A property of every state the disk went through, the present one included.\<close>

definition always :: "(fs \<Rightarrow> bool) \<Rightarrow> disk \<Rightarrow> bool" where
  "always P d \<longleftrightarrow> (\<forall>F \<in> set (files d # past d). P F)"

text \<open>A file system that differs from another at one name only.\<close>

definition agrees_off :: "string \<Rightarrow> fs \<Rightarrow> fs \<Rightarrow> bool" where
  "agrees_off p F G \<longleftrightarrow> (\<forall>q. q \<noteq> p \<longrightarrow> G q = F q)"

lemma always_become [simp]: "always P (become F d) \<longleftrightarrow> P F \<and> always P d"
  by (auto simp: always_def become_def)

lemma files_become [simp]: "files (become F d) = F"
  by (simp add: become_def)

lemma always_files: "always P d \<Longrightarrow> P (files d)"
  by (simp add: always_def)

lemma agrees_off_refl [simp]: "agrees_off p F F"
  by (simp add: agrees_off_def)

lemma agrees_off_upd [simp]: "agrees_off p F (G(p := x)) \<longleftrightarrow> agrees_off p F G"
  by (auto simp: agrees_off_def)

lemma agrees_off_same: "agrees_off p F G \<Longrightarrow> G p = F p \<Longrightarrow> G = F"
  by (auto simp: agrees_off_def fun_eq_iff)

lemma always_mono: "always P d \<Longrightarrow> (\<And>F. P F \<Longrightarrow> Q F) \<Longrightarrow> always Q d"
  by (auto simp: always_def)

text \<open>The operations on the temporary file leave every other name alone.\<close>

lemma os_append_agrees [frame]:
  "always (agrees_off p F) d \<Longrightarrow> always (agrees_off p F) (os_append p bs t d)"
  by (auto simp: os_append_def always_files split: option.split)

lemma os_sync_agrees [frame]:
  "always (agrees_off p F) d \<Longrightarrow> always (agrees_off p F) (os_sync p d)"
  by (auto simp: os_sync_def always_files split: option.split)

lemma os_remove_agrees [frame]:
  "always (agrees_off p F) d \<Longrightarrow> always (agrees_off p F) (os_remove p d)"
  by (simp add: os_remove_def always_files)

lemma os_create_agrees [frame]:
  "always (agrees_off p F) d \<Longrightarrow> always (agrees_off p F) (os_create p t d)"
  by (simp add: os_create_def always_files)

lemma io_copy_agrees [frame]:
  "always (agrees_off p F) d \<Longrightarrow> always (agrees_off p F) (snd (io_copy env p k rs d))"
  by (induction env p k rs d rule: io_copy.induct) (auto simp: frame Let_def split: option.split)

text \<open>A copy without an error leaves the temporary file with everything the reader delivers.\<close>

lemma io_copy_content:
  "io_copy env p k rs d = (None, d') \<Longrightarrow>
   files d p = Some \<lparr>data = bs, mtime = written_at env, synced = s\<rparr> \<Longrightarrow>
   snd (delivered rs) = None \<and>
   (\<exists>s'. files d' p = Some \<lparr>data = bs @ fst (delivered rs), mtime = written_at env, synced = s'\<rparr>)"
proof (induction env p k rs d arbitrary: bs s rule: io_copy.induct)
  case (2 env p k b err rs d)
  show ?case
  proof (cases "err")
    case None
    let ?d = "if b = [] then d else os_append p b (written_at env) d"
    have step: "io_copy env p (k + 1) rs ?d = (None, d')"
      and ok: "(if b = [] then None else write_err env k) = None"
      using "2.prems"(1) None by (auto simp: Let_def split: option.splits if_splits)
    have "\<exists>s'. files ?d p = Some \<lparr>data = bs @ b, mtime = written_at env, synced = s'\<rparr>"
      using "2.prems"(2) by (auto simp: os_append_def)
    then show ?thesis
      using "2.IH"[OF ok refl None step] None by (fastforce split: prod.split)
  next
    case (Some e)
    then show ?thesis using "2.prems"(1) by (auto simp: Let_def split: option.splits if_splits)
  qed
qed auto

text \<open>
  \<open>os.CreateTemp\<close> opens with O_EXCL, so the name it picks is not in use; it is also never the
  name of the cache itself.
\<close>

definition temp_fresh :: "write_env \<Rightarrow> string \<Rightarrow> fs \<Rightarrow> bool" where
  "temp_fresh env path F =
     (case temp_random env of
        Inl _ \<Rightarrow> True
      | Inr r \<Rightarrow> F (temp_path (filepath_dir path) r) = None \<and> temp_path (filepath_dir path) r \<noteq> path)"

text \<open>The file a complete write puts in place.\<close>

abbreviation snapshot :: "write_env \<Rightarrow> u8 list \<Rightarrow> inode" where
  "snapshot env bs \<equiv> \<lparr>data = bs, mtime = written_at env, synced = True\<rparr>"

lemma write_temp_fails:
  assumes "write_temp env path tmp src d = (Some e, d')" "always (agrees_off tmp F) d"
  shows "always (agrees_off tmp F) d'"
  using io_copy_agrees[OF assms(2), of env 0 src] assms(1)
  by (auto simp: write_temp_def Let_def frame split: prod.splits option.splits)

lemma write_temp_succeeds:
  assumes "write_temp env path tmp src d = (None, d')" "always (agrees_off tmp F) d"
    and "files d tmp = Some \<lparr>data = [], mtime = written_at env, synced = s\<rparr>"
  obtains d2 where "d' = os_rename tmp path d2" "always (agrees_off tmp F) d2"
    "files d2 tmp = Some (snapshot env (fst (delivered src)))" "snd (delivered src) = None"
proof -
  from assms(1) obtain d1 where copy: "io_copy env tmp 0 src d = (None, d1)"
    and d': "d' = os_rename tmp path (os_sync tmp d1)"
    by (auto simp: write_temp_def Let_def split: prod.splits option.splits)
  from io_copy_content[OF copy assms(3)] obtain s' where
    tmp: "files d1 tmp = Some \<lparr>data = fst (delivered src), mtime = written_at env, synced = s'\<rparr>"
    and "snd (delivered src) = None" by auto
  moreover have "always (agrees_off tmp F) (os_sync tmp d1)"
    using io_copy_agrees[OF assms(2), of env 0 src] copy by (simp add: frame)
  ultimately show thesis using that[of "os_sync tmp d1"] d' by (simp add: os_sync_def)
qed

abbreviation clean_disk :: "fs \<Rightarrow> disk" where
  "clean_disk F \<equiv> \<lparr>files = F, past = []\<rparr>"

text \<open>
  The two ways a write can go. It fails: then only the temporary file was ever touched, and it is
  gone at the end unless its removal failed too. Or it succeeds: then the cache is the snapshot,
  and every state before the last one differed in the temporary file only.
\<close>

lemma cache_Write_fails:
  assumes "cache_Write env path src (clean_disk F) = (Some e, d')" "temp_fresh env path F"
  shows "\<exists>tmp. tmp \<noteq> path \<and> always (agrees_off tmp F) d' \<and> (F tmp = None \<or> d' = clean_disk F)
    \<and> (remove_err env = None \<longrightarrow> files d' = F)"
proof -
  have stop: ?thesis if "d' = clean_disk F"
    using that by (intro exI[of _ "path @ ''x''"]) (simp add: always_def)
  show ?thesis
  proof (cases "mkdir_err env = None \<and> (\<exists>r. temp_random env = Inr r)")
    case False
    then have "d' = clean_disk F"
      using assms(1) by (auto simp: cache_Write_def Let_def split: option.splits sum.splits)
    then show ?thesis by (rule stop)
  next
    case True
    then obtain r where mk: "mkdir_err env = None" and r: "temp_random env = Inr r" by blast
    define tmp where "tmp = temp_path (filepath_dir path) r"
    have fresh: "F tmp = None" "tmp \<noteq> path"
      using assms(2) r by (simp_all add: temp_fresh_def tmp_def)
    let ?d = "os_create tmp (written_at env) (clean_disk F)"
    from assms(1) mk r obtain d1 where w: "write_temp env path tmp src ?d = (Some e, d1)"
      and d': "d' = (if remove_err env = None then os_remove tmp d1 else d1)"
      by (auto simp: cache_Write_def Let_def tmp_def split: prod.splits if_splits)
    have "always (agrees_off tmp F) ?d" by (simp add: always_def frame os_create_def become_def)
    from write_temp_fails[OF w this] have a: "always (agrees_off tmp F) d1" .
    then have "always (agrees_off tmp F) d'" by (simp add: d' frame)
    moreover have "files d' = F" if "remove_err env = None"
    proof (rule agrees_off_same)
      show "agrees_off tmp F (files d')"
        using \<open>always (agrees_off tmp F) d'\<close> by (rule always_files)
      show "files d' tmp = F tmp" by (simp add: d' that os_remove_def fresh(1))
    qed
    ultimately show ?thesis using fresh by (intro exI[of _ tmp]) simp
  qed
qed

lemma cache_Write_succeeds:
  assumes "cache_Write env path src (clean_disk F) = (None, d')" "temp_fresh env path F"
  obtains tmp d2 where "tmp \<noteq> path" "d' = os_rename tmp path d2" "always (agrees_off tmp F) d2"
    "files d2 tmp = Some (snapshot env (fst (delivered src)))" "F tmp = None"
    "snd (delivered src) = None"
proof -
  from assms(1) obtain r where mk: "mkdir_err env = None" and r: "temp_random env = Inr r"
    by (auto simp: cache_Write_def Let_def split: option.splits sum.splits)
  define tmp where "tmp = temp_path (filepath_dir path) r"
  have fresh: "F tmp = None" "tmp \<noteq> path"
    using assms(2) r by (simp_all add: temp_fresh_def tmp_def)
  let ?d = "os_create tmp (written_at env) (clean_disk F)"
  from assms(1) mk r have w: "write_temp env path tmp src ?d = (None, d')"
    by (auto simp: cache_Write_def Let_def tmp_def split: prod.splits if_splits)
  have "always (agrees_off tmp F) ?d" by (simp add: always_def os_create_def become_def)
  moreover have "files ?d tmp = Some \<lparr>data = [], mtime = written_at env, synced = False\<rparr>"
    by (simp add: os_create_def)
  ultimately show thesis using write_temp_succeeds[OF w] fresh that by metis
qed

lemma cache_Write_files:
  assumes "cache_Write env path src (clean_disk F) = (r, d')" "temp_fresh env path F"
  shows "r = None \<Longrightarrow> files d' = F(path \<mapsto> snapshot env (fst (delivered src)))"
    and "r = Some e \<Longrightarrow> files d' path = F path"
    and "r = Some e \<Longrightarrow> remove_err env = None \<Longrightarrow> files d' = F"
proof -
  assume "r = None"
  from cache_Write_succeeds[OF assms[unfolded this]] obtain tmp d2 where
    w: "tmp \<noteq> path" "d' = os_rename tmp path d2" "always (agrees_off tmp F) d2"
      "files d2 tmp = Some (snapshot env (fst (delivered src)))" "F tmp = None" .
  from always_files[OF w(3)] w(1,2,4,5)
  show "files d' = F(path \<mapsto> snapshot env (fst (delivered src)))"
    by (auto simp: os_rename_def agrees_off_def fun_eq_iff)
next
  assume "r = Some e"
  from cache_Write_fails[OF assms[unfolded this]] show "files d' path = F path"
    by (metis agrees_off_def always_files)
next
  assume "r = Some e" "remove_err env = None"
  with cache_Write_fails[OF assms(1)[unfolded \<open>r = Some e\<close>] assms(2)] show "files d' = F" by auto
qed

end
