(* ===== verification/Diskcache_Correct.thy ===== *)
theory Diskcache_Correct
  imports Diskcache "HOL-Library.Sublist"
begin

text \<open>
  What the disk cache promises: a crash at any moment leaves the previous snapshot or the complete
  new one, a failed write changes nothing, a load sorts what it finds into absent, stale, unusable
  and loaded, and reads back what was written. The contract of a store of one snapshot is the
  locale \<open>snapshot_store\<close>, interpreted on \<open>cache_Write\<close>.
\<close>

section \<open>The store of one snapshot\<close>

text \<open>A sequence of puts, and the value of the last one that succeeded.\<close>

fun puts :: "('e \<Rightarrow> 'b \<Rightarrow> 'd \<Rightarrow> go_error option \<times> 'd) \<Rightarrow> ('e \<times> 'b) list \<Rightarrow> 'd \<Rightarrow> go_error option list \<times> 'd" where
  "puts put [] d = ([], d)"
| "puts put ((e, b) # es) d =
     (let (r, d') = put e b d; (rs, d'') = puts put es d' in (r # rs, d''))"

fun last_success :: "'v \<Rightarrow> 'v list \<Rightarrow> go_error option list \<Rightarrow> 'v" where
  "last_success v (w # ws) (r # rs) = last_success (if r = None then w else v) ws rs"
| "last_success v _ _ = v"

fun puts_ok :: "('e \<Rightarrow> 'b \<Rightarrow> 'd \<Rightarrow> go_error option \<times> 'd) \<Rightarrow> ('e \<Rightarrow> 'd \<Rightarrow> bool) \<Rightarrow> ('e \<times> 'b) list \<Rightarrow> 'd \<Rightarrow> bool" where
  "puts_ok put ok [] d \<longleftrightarrow> True"
| "puts_ok put ok ((e, b) # es) d \<longleftrightarrow> ok e d \<and> puts_ok put ok es (snd (put e b d))"

locale snapshot_store =
  fixes put :: "'e \<Rightarrow> 'b \<Rightarrow> 'd \<Rightarrow> go_error option \<times> 'd"
    and view :: "'d \<Rightarrow> 'v option"
    and stored :: "'e \<Rightarrow> 'b \<Rightarrow> 'v"
    and ok :: "'e \<Rightarrow> 'd \<Rightarrow> bool"
  assumes put_ok: "ok e d \<Longrightarrow> put e b d = (None, d') \<Longrightarrow> view d' = Some (stored e b)"
    and put_failed: "ok e d \<Longrightarrow> put e b d = (Some err, d') \<Longrightarrow> view d' = view d"
begin

lemma view_put: "ok e d \<Longrightarrow> view (snd (put e b d)) = (if fst (put e b d) = None then Some (stored e b) else view d)"
  by (cases "put e b d"; cases "fst (put e b d)") (auto dest: put_ok put_failed)

lemma view_puts:
  "puts_ok put ok es d \<Longrightarrow> view (snd (puts put es d))
    = last_success (view d) (map (\<lambda>(e, b). Some (stored e b)) es) (fst (puts put es d))"
proof (induction es arbitrary: d)
  case (Cons eb es)
  obtain e b where eb: "eb = (e, b)" by (cases eb)
  show ?case
    using Cons.IH[of "snd (put e b d)"] Cons.prems view_put[of e d b]
    by (auto simp: eb Let_def split: prod.splits)
qed simp

end

section \<open>The disk cache is such a store\<close>

text \<open>\<open>Write\<close> as it changes the files, without the history.\<close>

definition write_files :: "string \<Rightarrow> write_env \<Rightarrow> reader \<Rightarrow> fs \<Rightarrow> go_error option \<times> fs" where
  "write_files path env src F = (let (r, d) = cache_Write env path src (clean_disk F) in (r, files d))"

interpretation cache: snapshot_store "write_files path" "\<lambda>F. F path"
  "\<lambda>env src. snapshot env (fst (delivered src))" "\<lambda>env F. temp_fresh env path F" for path
  by unfold_locales (auto simp: write_files_def cache_Write_files split: prod.splits)

text \<open>A sample for the witnesses: an old snapshot, and a write whose system calls all succeed.\<close>

abbreviation sample_path :: string where "sample_path \<equiv> ''/c/db''"
abbreviation sample_tmp :: string where "sample_tmp \<equiv> ''/c/dbip-country-lite.7.mmdb.tmp''"

definition sample_env :: write_env where
  "sample_env = \<lparr>mkdir_err = None, temp_random = Inr ''7'', write_err = (\<lambda>_. None), sync_err = None,
     close_err = None, rename_err = None, remove_err = None, written_at = 100\<rparr>"

definition old_files :: fs where
  "old_files = [sample_path \<mapsto> \<lparr>data = [9, 9, 9], mtime = 50, synced = True\<rparr>]"

lemma sample_temp: "temp_path (filepath_dir sample_path) ''7'' = sample_tmp"
  by (simp add: temp_path_def filepath_dir_def filepath_clean_def)

lemma sample_fresh: "temp_fresh (sample_env\<lparr>rename_err := e\<rparr>) sample_path old_files"
  by (simp add: temp_fresh_def sample_env_def sample_temp old_files_def)

text \<open>The states of the sample write: created, written, synced, and renamed into place.\<close>

definition sample_disk :: "u8 list \<Rightarrow> disk" where
  "sample_disk bs =
     (let F1 = old_files(sample_tmp \<mapsto> \<lparr>data = [], mtime = 100, synced = False\<rparr>);
          F2 = old_files(sample_tmp \<mapsto> \<lparr>data = bs, mtime = 100, synced = False\<rparr>);
          F3 = old_files(sample_tmp \<mapsto> \<lparr>data = bs, mtime = 100, synced = True\<rparr>)
      in \<lparr>files = old_files(sample_path \<mapsto> \<lparr>data = bs, mtime = 100, synced = True\<rparr>),
          past = [F3, F2, F1, old_files]\<rparr>)"

lemma sample_write:
  assumes "bs \<noteq> []"
  shows "cache_Write sample_env sample_path (bytes_reader bs) (clean_disk old_files) = (None, sample_disk bs)"
proof -
  have tmp: "old_files sample_tmp = None" by (simp add: old_files_def)
  show ?thesis
    using assms tmp
    by (simp add: cache_Write_def write_temp_def sample_env_def sample_temp bytes_reader_def Let_def
        os_create_def os_append_def os_sync_def os_rename_def become_def sample_disk_def fun_eq_iff)
qed

text \<open>The states of a write: what the cache path stands for in them, and what any other file does.\<close>

lemma write_history:
  assumes "cache_Write env path src (clean_disk F) = (r, d')" "temp_fresh env path F" "H \<in> set (files d' # past d')"
  shows "H path = F path \<or> r = None \<and> H path = Some (snapshot env (fst (delivered src)))"
    and "q \<noteq> path \<Longrightarrow> F q = Some f \<Longrightarrow> H q = Some f"
proof -
  have "(H path = F path \<or> r = None \<and> H path = Some (snapshot env (fst (delivered src))))
      \<and> (\<forall>q f. q \<noteq> path \<longrightarrow> F q = Some f \<longrightarrow> H q = Some f)"
  proof (cases r)
    case (Some e)
    then obtain tmp where w: "tmp \<noteq> path" "always (agrees_off tmp F) d'" "F tmp = None \<or> d' = clean_disk F"
      using cache_Write_fails assms(1,2) by blast
    then have "agrees_off tmp F H" using assms(3) unfolding always_def by blast
    moreover have "H = F" if "d' = clean_disk F" using that assms(3) by simp
    ultimately show ?thesis using w(1,3) unfolding agrees_off_def by (metis option.distinct(1))
  next
    case None
    with assms(1,2) obtain tmp d2 where w: "tmp \<noteq> path" "d' = os_rename tmp path d2"
        "always (agrees_off tmp F) d2" "files d2 tmp = Some (snapshot env (fst (delivered src)))" "F tmp = None"
      using cache_Write_succeeds by metis
    show ?thesis
    proof (cases "H \<in> set (files d2 # past d2)")
      case True
      then have "agrees_off tmp F H" using w(3) unfolding always_def by blast
      then show ?thesis using w(1,5) unfolding agrees_off_def by (metis option.distinct(1))
    next
      case False
      then have H: "H = (files d2)(path := files d2 tmp, tmp := None)"
        using assms(3) w(2) by (auto simp: os_rename_def become_def)
      have "agrees_off tmp F (files d2)" using w(3) by (rule always_files)
      then show ?thesis using w(1,4,5) None by (auto simp: H agrees_off_def)
    qed
  qed
  then show "H path = F path \<or> r = None \<and> H path = Some (snapshot env (fst (delivered src)))"
    and "q \<noteq> path \<Longrightarrow> F q = Some f \<Longrightarrow> H q = Some f" by blast+
qed

text \<open>
  C6 (safety). A crash at any moment of a write, between any two of its system calls or after the
  last, whether or not the rename had reached the disk, leaves at the cache path what was there
  before or, when the write succeeded, the complete new bytes; and it leaves every other synced
  file as it was. Unsynced data never shows at the cache path, whatever the crash does to it.
\<close>

theorem cache_write_crash_safe:
  assumes "cache_Write env path src (clean_disk F) = (r, d')" "temp_fresh env path F"
    and "\<forall>f. F path = Some f \<longrightarrow> synced f"
    and "suffix Fs (files d' # past d')" "crash_image Fs G"
  shows "(map_option data (G path) = map_option data (F path)
      \<or> r = None \<and> map_option data (G path) = Some (fst (delivered src)))
    \<and> (\<forall>q f. q \<noteq> path \<longrightarrow> F q = Some f \<longrightarrow> synced f \<longrightarrow> map_option data (G q) = Some (data f))"
proof -
  have Fs: "set Fs \<subseteq> set (files d' # past d')" by (rule set_mono_suffix[OF assms(4)])
  note hist = write_history[OF assms(1,2) subsetD[OF Fs]]
  have "\<forall>H \<in> set Fs. \<forall>f. H path = Some f \<longrightarrow> synced f" using hist(1) assms(3) by fastforce
  then obtain H where H: "H \<in> set Fs" "map_option data (G path) = map_option data (H path)"
    using crash_image_data[OF assms(5)] by blast
  have "map_option data (G q) = Some (data f)" if q: "q \<noteq> path" "F q = Some f" "synced f" for q f
  proof -
    have "\<forall>H \<in> set Fs. H q = Some f" using hist(2)[OF _ q(1,2)] by blast
    then show ?thesis using crash_image_data[OF assms(5), of q] q(3) by (metis option.inject option.simps(9))
  qed
  then show ?thesis using hist(1)[OF H(1)] H(2) by auto
qed

theorem cache_write_crash_safe_witness:
  "map_option data ((old_files(sample_tmp \<mapsto> \<lparr>data = [0], mtime = 100, synced = False\<rparr>)) sample_path) = Some [9, 9, 9]"
proof -
  let ?F1 = "old_files(sample_tmp \<mapsto> \<lparr>data = [], mtime = 100, synced = False\<rparr>)"
  let ?F2 = "old_files(sample_tmp \<mapsto> \<lparr>data = [1, 2], mtime = 100, synced = False\<rparr>)"
  let ?G = "old_files(sample_tmp \<mapsto> \<lparr>data = [0], mtime = 100, synced = False\<rparr>)"
  have "survives (?F2 p) (?G p)" for p by (cases "old_files p") auto
  then have "crash_image [?F2, ?F1, old_files] ?G" unfolding crash_image_def by force
  moreover have "suffix [?F2, ?F1, old_files] (files (sample_disk [1, 2]) # past (sample_disk [1, 2]))"
    by (simp add: sample_disk_def Let_def suffix_def)
  moreover have "\<forall>f. old_files sample_path = Some f \<longrightarrow> synced f" by (simp add: old_files_def)
  moreover have "temp_fresh sample_env sample_path old_files"
    using sample_fresh[of None] by (simp add: sample_env_def)
  ultimately have "map_option data (?G sample_path) = map_option data (old_files sample_path)
      \<or> map_option data (?G sample_path) = Some [1, 2]"
    using cache_write_crash_safe[OF sample_write[of "[1, 2]"], of "[?F2, ?F1, old_files]" ?G] by simp
  then show ?thesis by (auto simp: old_files_def)
qed

text \<open>
  A write is all or nothing: without an error the cache is exactly the reader's bytes
  with the time of the write and no temporary file is left; with an error, if the temporary file
  could be removed, the file system is exactly what it was.
\<close>

lemma cache_write_all_or_nothing:
  assumes "cache_Write env path src (clean_disk F) = (r, d')" "temp_fresh env path F"
    and "remove_err env = None"
  shows "files d' = (if r = None then F(path \<mapsto> snapshot env (fst (delivered src))) else F)"
  using cache_Write_files[OF assms(1,2)] assms(3) by (cases r) auto

lemma cache_write_all_or_nothing_witness:
  "files (snd (cache_Write (sample_env\<lparr>rename_err := Some (Foreign ''EIO'')\<rparr>) sample_path
     (bytes_reader [1, 2]) (clean_disk old_files))) = old_files"
proof -
  let ?env = "sample_env\<lparr>rename_err := Some (Foreign ''EIO'')\<rparr>"
  obtain r d' where w: "cache_Write ?env sample_path (bytes_reader [1, 2]) (clean_disk old_files) = (r, d')"
    by (cases "cache_Write ?env sample_path (bytes_reader [1, 2]) (clean_disk old_files)")
  then have "r \<noteq> None"
    by (auto simp: cache_Write_def write_temp_def sample_env_def Let_def split: prod.splits option.splits)
  moreover have "remove_err ?env = None" by (simp add: sample_env_def)
  ultimately show ?thesis using cache_write_all_or_nothing[OF w sample_fresh] w by auto
qed

text \<open>
  Over any sequence of writes the cache refines a store of one snapshot: it holds
  the bytes and the time of the last write that succeeded, or what it held before the first.
\<close>

lemma cache_holds_last_success:
  assumes "puts_ok (write_files path) (\<lambda>env F. temp_fresh env path F) es F"
  shows "snd (puts (write_files path) es F) path
    = last_success (F path) (map (\<lambda>(env, src). Some (snapshot env (fst (delivered src)))) es)
        (fst (puts (write_files path) es F))"
  using assms by (rule cache.view_puts)

lemma cache_holds_last_success_witness:
  "snd (puts (write_files sample_path)
       [(sample_env, bytes_reader [1, 2]), (sample_env\<lparr>temp_random := Inl (Foreign ''EROFS'')\<rparr>, bytes_reader [3])]
       old_files) sample_path
     = Some \<lparr>data = [1, 2], mtime = 100, synced = True\<rparr>"
proof -
  let ?es = "[(sample_env, bytes_reader [1, 2]), (sample_env\<lparr>temp_random := Inl (Foreign ''EROFS'')\<rparr>, bytes_reader [3])]"
  have first: "write_files sample_path sample_env (bytes_reader [1, 2]) old_files
      = (None, files (sample_disk [1, 2]))"
    by (simp add: write_files_def sample_write)
  have second: "fst (write_files sample_path (sample_env\<lparr>temp_random := Inl (Foreign ''EROFS'')\<rparr>)
      (bytes_reader [3]) F) \<noteq> None" for F
    by (simp add: write_files_def cache_Write_def sample_env_def Let_def)
  have "puts_ok (write_files sample_path) (\<lambda>env F. temp_fresh env sample_path F) ?es old_files"
    using sample_fresh[of None] by (simp add: temp_fresh_def sample_env_def)
  from cache_holds_last_success[OF this] first second show ?thesis
    by (simp add: Let_def case_prod_beta sample_env_def)
qed

section \<open>Loading\<close>

lemma time_sub_less: "sint d < sint (time_sub t u) \<longleftrightarrow> d \<noteq> max_duration \<and> sint d < t - u"
proof -
  have "sint d = sint max_duration \<longleftrightarrow> d = max_duration" by (metis signed_word_eqI)
  then have "sint d < 2 ^ 63 - 1 \<longleftrightarrow> d \<noteq> max_duration"
    using sint_lt[of d] sint_max_duration by auto
  moreover have "- (2 ^ 63) \<le> sint d" using sint_ge[of d] by simp
  ultimately show ?thesis by (auto simp: sint_time_sub min_def max_def)
qed

text \<open>
  A load of a readable path never panics and has three exact outcomes besides a
  damaged snapshot: \<open>ErrAbsent\<close> when there is no file, \<open>ErrStale\<close> when its age exceeds the bound
  (which an age of zero or below never does for a positive bound), and a trie exactly when the
  file is fresh and the loader builds that trie from its bytes.
\<close>

lemma cache_load_outcomes:
  "\<exists>r. cache_Load mmdb_open None F path maxAge now ccs = Some r
     \<and> (r = Inl (Sentinel Diskcache_ErrAbsent) \<longleftrightarrow> F path = None)
     \<and> (r = Inl (Sentinel Diskcache_ErrStale) \<longleftrightarrow>
         (\<exists>f. F path = Some f \<and> maxAge \<noteq> max_duration \<and> sint maxAge < now - mtime f))
     \<and> (\<forall>t. r = Inr t \<longleftrightarrow>
         (\<exists>f. F path = Some f \<and> \<not> (maxAge \<noteq> max_duration \<and> sint maxAge < now - mtime f)
           \<and> LoadCountryBlocklist mmdb_open path (Some (data f)) ccs = Some (Inr t)))"
proof (cases "F path")
  case None
  then show ?thesis by (simp add: cache_Load_def os_stat_def)
next
  case (Some f)
  obtain x where "LoadCountryBlocklist mmdb_open path (Some (data f)) ccs = Some x"
    using LoadCountryBlocklist_returns by blast
  then show ?thesis
    by (cases x) (simp_all add: cache_Load_def os_stat_def Some time_sub_less)
qed

text \<open>
  What a write put in place a later load within the age bound reads back: the trie
  is the one the loader builds from exactly the bytes written.
\<close>

lemma cache_write_then_load:
  assumes "cache_Write env path (bytes_reader bs) (clean_disk F) = (None, d')" "temp_fresh env path F"
    and "now - written_at env \<le> sint maxAge"
    and "LoadCountryBlocklist mmdb_open path (Some bs) ccs = Some (Inr t)"
  shows "cache_Load mmdb_open None (files d') path maxAge now ccs = Some (Inr t)"
  using cache_Write_files(1)[OF assms(1,2) refl] assms(3,4)
  by (simp add: cache_Load_def os_stat_def time_sub_less)

lemma cache_write_then_load_witness:
  "\<exists>t. cache_Load (\<lambda>_. Inr sample_reader) None (files (sample_disk [1, 2])) sample_path (48 * hour) 200 [''CN'']
     = Some (Inr t)"
proof -
  obtain t where t: "LoadCountryBlocklist (\<lambda>_. Inr sample_reader) sample_path (Some [1, 2]) [''CN''] = Some (Inr t)"
    using sample_load by blast
  have "temp_fresh sample_env sample_path old_files"
    using sample_fresh[of None] by (simp add: sample_env_def)
  moreover have "200 - written_at sample_env \<le> sint (48 * hour :: duration)"
    by (simp add: sample_env_def)
  ultimately show ?thesis
    using cache_write_then_load[OF sample_write _ _ t, where maxAge = "48 * hour" and now = 200] by auto
qed

end
