(* ===== verification/Gzip.thy ===== *)
theory Gzip
  imports Go_IO
begin

text \<open>
  What the fetcher uses of \<open>compress/gzip\<close>: \<open>gzip.NewReader\<close> and the reading of its stream, over
  \<open>compress/flate\<close> and \<open>hash/crc32\<close>. A stream is a sequence of members; each has a header, a
  DEFLATE stream of stored, fixed and dynamic blocks, and a trailer with the checksum and the
  length of its contents. Parsers work on the list of the bits that remain, and the lemmas show
  that a parser that succeeds does the same on any longer input.
\<close>

section \<open>Bits\<close>

text \<open>DEFLATE packs bits from the least significant end of each byte.\<close>

definition byte_bits :: "u8 \<Rightarrow> bool list" where
  "byte_bits b = map (bit b) [0..<8]"

definition bits_of :: "u8 list \<Rightarrow> bool list" where
  "bits_of bs = concat (map byte_bits bs)"

fun bits_nat :: "bool list \<Rightarrow> nat" where
  "bits_nat [] = 0"
| "bits_nat (b # bs) = of_bool b + 2 * bits_nat bs"

fun bytes_of_bits :: "nat \<Rightarrow> bool list \<Rightarrow> u8 list" where
  "bytes_of_bits 0 bs = []"
| "bytes_of_bits (Suc n) bs = of_nat (bits_nat (take 8 bs)) # bytes_of_bits n (drop 8 bs)"

text \<open>
  A parser fails because the input ends (\<open>Short\<close>), or because it is not DEFLATE (\<open>Corrupt\<close>, a
  \<open>flate.CorruptInputError\<close>, whose offset is left out).
\<close>

datatype flate_err = Short | Corrupt

type_synonym 'a parser = "bool list \<Rightarrow> flate_err + 'a \<times> bool list"

definition yields :: "'a \<Rightarrow> 'a parser" where
  "yields x bs = Inr (x, bs)"

definition fails :: "flate_err \<Rightarrow> 'a parser" where
  "fails e bs = Inl e"

definition and_then :: "'a parser \<Rightarrow> ('a \<Rightarrow> 'b parser) \<Rightarrow> 'b parser" where
  "and_then p f bs = (case p bs of Inl e \<Rightarrow> Inl e | Inr (x, r) \<Rightarrow> f x r)"

definition get_bits :: "nat \<Rightarrow> nat parser" where
  "get_bits n bs = (if length bs < n then Inl Short else Inr (bits_nat (take n bs), drop n bs))"

section \<open>Huffman codes\<close>

text \<open>
  A canonical code is given by the length of each symbol's code, \<open>0\<close> for an unused symbol. The
  decoder reads at least \<open>h_min\<close> bits before it looks for a symbol.
\<close>

record huff =
  h_lengths :: "nat list"
  h_min :: nat

definition max_length :: "nat list \<Rightarrow> nat" where
  "max_length ls = foldr max ls 0"

definition min_length :: "nat list \<Rightarrow> nat" where
  "min_length ls = foldr (\<lambda>n m. if n = 0 then m else if m = 0 then n else min n m) ls 0"

fun code_total :: "nat list \<Rightarrow> nat \<Rightarrow> nat" where
  "code_total ls 0 = 0"
| "code_total ls (Suc i) = 2 * code_total ls i + count_list ls (Suc i)"

text \<open>\<open>huffmanDecoder.init\<close>: complete codes, the empty code, and a single code of one bit.\<close>

definition huff_init :: "nat list \<Rightarrow> huff option" where
  "huff_init ls =
     (let mx = max_length ls; total = code_total ls mx in
      if mx = 0 \<or> total = 2 ^ mx \<or> total = 1 \<and> mx = 1
      then Some \<lparr>h_lengths = ls, h_min = min_length ls\<rparr> else None)"

text \<open>
  The walk from the shortest codes to the longest: \<open>first\<close> is the first code of the length
  reached, \<open>code\<close> the bits read so far.
\<close>

fun huff_walk :: "nat list \<Rightarrow> nat \<Rightarrow> nat \<Rightarrow> nat \<Rightarrow> nat \<Rightarrow> nat parser" where
  "huff_walk ls 0 l first code bs = Inl Corrupt"
| "huff_walk ls (Suc n) l first code [] = Inl Short"
| "huff_walk ls (Suc n) l first code (b # bs) =
     (let c = code + of_bool b; k = count_list ls l in
      if c < first + k then Inr (filter (\<lambda>s. ls ! s = l) [0..<length ls] ! (c - first), bs)
      else huff_walk ls n (Suc l) (2 * (first + k)) (2 * c) bs)"

definition huff_sym :: "huff \<Rightarrow> nat parser" where
  "huff_sym h bs =
     (if length bs < h_min h then Inl Short
      else huff_walk (h_lengths h) (max_length (h_lengths h)) 1 0 0 bs)"

section \<open>Compressed blocks\<close>

definition fixed_lengths :: "nat list" where
  "fixed_lengths = replicate 144 8 @ replicate 112 9 @ replicate 24 7 @ replicate 8 8"

definition fixed_huff :: huff where
  "fixed_huff = \<lparr>h_lengths = fixed_lengths, h_min = 7\<rparr>"

datatype token = Literal u8 | End_of_block | Match nat nat

text \<open>The length of a match: a base and the number of extra bits.\<close>

definition length_code :: "nat \<Rightarrow> (nat \<times> nat) option" where
  "length_code v =
     (if v < 265 then Some (v - 254, 0)
      else if v < 269 then Some (v * 2 - 519, 1)
      else if v < 273 then Some (v * 4 - 1057, 2)
      else if v < 277 then Some (v * 8 - 2149, 3)
      else if v < 281 then Some (v * 16 - 4365, 4)
      else if v < 285 then Some (v * 32 - 8861, 5)
      else if v < 286 then Some (258, 0)
      else None)"

definition get_length :: "nat \<Rightarrow> nat parser" where
  "get_length v =
     (case length_code v of
        None \<Rightarrow> fails Corrupt
      | Some (base, n) \<Rightarrow> and_then (get_bits n) (\<lambda>x. yields (base + x)))"

text \<open>A distance symbol: five reversed bits in a fixed block, a code of its own in a dynamic one.\<close>

definition get_dist_sym :: "huff option \<Rightarrow> nat parser" where
  "get_dist_sym dh bs =
     (case dh of
        Some h \<Rightarrow> huff_sym h bs
      | None \<Rightarrow> if length bs < 5 then Inl Short else Inr (bits_nat (rev (take 5 bs)), drop 5 bs))"

definition get_dist :: "huff option \<Rightarrow> nat parser" where
  "get_dist dh =
     and_then (get_dist_sym dh) (\<lambda>d.
       if d < 4 then yields (d + 1)
       else if d < 30 then
         (let nb = (d - 2) div 2 in
          and_then (get_bits nb) (\<lambda>x. yields (2 ^ (nb + 1) + 1 + (d mod 2) * 2 ^ nb + x)))
       else fails Corrupt)"

definition get_token :: "huff \<Rightarrow> huff option \<Rightarrow> token parser" where
  "get_token lh dh =
     and_then (huff_sym lh) (\<lambda>v.
       if v < 256 then yields (Literal (of_nat v))
       else if v = 256 then yields End_of_block
       else and_then (get_length v) (\<lambda>n. and_then (get_dist dh) (\<lambda>d. yields (Match n d))))"

text \<open>A match may overlap what it produces.\<close>

fun copy_match :: "nat \<Rightarrow> nat \<Rightarrow> u8 list \<Rightarrow> u8 list" where
  "copy_match 0 d out = out"
| "copy_match (Suc n) d out = copy_match n d (out @ [out ! (length out - d)])"

section \<open>Parsers that consume\<close>

text \<open>What is left of the input is never longer, and shorter after a symbol.\<close>

definition shrinks :: "'a parser \<Rightarrow> bool" where
  "shrinks p \<longleftrightarrow> (\<forall>bs x r. p bs = Inr (x, r) \<longrightarrow> length r \<le> length bs)"

text \<open>A parser that succeeds does the same when more input follows.\<close>

definition extends :: "'a parser \<Rightarrow> bool" where
  "extends p \<longleftrightarrow> (\<forall>bs x r y. p bs = Inr (x, r) \<longrightarrow> p (bs @ y) = Inr (x, r @ y))"

named_theorems parsing \<open>parsers that consume and that extend\<close>

lemma shrinksD: "shrinks p \<Longrightarrow> p bs = Inr (x, r) \<Longrightarrow> length r \<le> length bs"
  by (simp add: shrinks_def)

lemma extendsD: "extends p \<Longrightarrow> p bs = Inr (x, r) \<Longrightarrow> p (bs @ y) = Inr (x, r @ y)"
  by (simp add: extends_def)

lemma yields_parsing [parsing]: "shrinks (yields x)" "extends (yields x)"
  by (simp_all add: shrinks_def extends_def yields_def)

lemma fails_parsing [parsing]: "shrinks (fails e)" "extends (fails e)"
  by (simp_all add: shrinks_def extends_def fails_def)

lemma and_then_Inr: "and_then p f bs = Inr (y, r) \<longleftrightarrow> (\<exists>x t. p bs = Inr (x, t) \<and> f x t = Inr (y, r))"
  by (auto simp: and_then_def split: sum.split)

lemma and_then_shrinks [parsing]: "shrinks p \<Longrightarrow> (\<And>x. shrinks (f x)) \<Longrightarrow> shrinks (and_then p f)"
  by (fastforce simp: shrinks_def and_then_Inr)

lemma and_then_extends [parsing]: "extends p \<Longrightarrow> (\<And>x. extends (f x)) \<Longrightarrow> extends (and_then p f)"
  by (fastforce simp: extends_def and_then_Inr)

lemma get_bits_parsing [parsing]: "shrinks (get_bits n)" "extends (get_bits n)"
  by (auto simp: shrinks_def extends_def get_bits_def split: if_splits)

lemma huff_walk_shorter: "huff_walk ls n l first code bs = Inr (s, r) \<Longrightarrow> length r < length bs"
  by (induction ls n l first code bs rule: huff_walk.induct) (fastforce simp: Let_def split: if_splits)+

lemma huff_walk_extends:
  "huff_walk ls n l first code bs = Inr (s, r) \<Longrightarrow> huff_walk ls n l first code (bs @ y) = Inr (s, r @ y)"
  by (induction ls n l first code bs rule: huff_walk.induct) (auto simp: Let_def split: if_splits)

lemma huff_sym_shorter: "huff_sym h bs = Inr (s, r) \<Longrightarrow> length r < length bs"
  by (auto simp: huff_sym_def huff_walk_shorter split: if_splits)

lemma huff_sym_parsing [parsing]: "shrinks (huff_sym h)" "extends (huff_sym h)"
proof -
  show "shrinks (huff_sym h)" by (auto simp: shrinks_def dest!: huff_sym_shorter)
  show "extends (huff_sym h)" by (auto simp: extends_def huff_sym_def huff_walk_extends split: if_splits)
qed

lemma get_length_parsing [parsing]: "shrinks (get_length v)" "extends (get_length v)"
  by (auto simp: get_length_def parsing split: option.split)

lemma get_dist_sym_None: "shrinks (get_dist_sym None)" "extends (get_dist_sym None)"
  by (simp_all add: shrinks_def extends_def get_dist_sym_def)

lemma get_dist_sym_Some: "get_dist_sym (Some h) = huff_sym h"
  by (simp add: get_dist_sym_def fun_eq_iff)

lemma get_dist_sym_parsing [parsing]: "shrinks (get_dist_sym dh)" "extends (get_dist_sym dh)"
  by (cases dh; simp add: get_dist_sym_None get_dist_sym_Some parsing)+

lemma get_dist_parsing [parsing]: "shrinks (get_dist dh)" "extends (get_dist dh)"
  by (simp_all add: get_dist_def parsing Let_def)

lemma get_token_extends [parsing]: "extends (get_token lh dh)"
  by (simp add: get_token_def parsing)

lemma symbol_then_shorter:
  assumes "and_then (huff_sym h) f bs = Inr (x, r)" "\<And>v. shrinks (f v)"
  shows "length r < length bs"
proof -
  obtain v u where v: "huff_sym h bs = Inr (v, u)" "f v u = Inr (x, r)"
    using assms(1) by (auto simp: and_then_Inr)
  from shrinksD[OF assms(2) v(2)] huff_sym_shorter[OF v(1)] show ?thesis by simp
qed

lemma get_token_shorter: "get_token lh dh bs = Inr (t, r) \<Longrightarrow> length r < length bs"
  unfolding get_token_def by (erule symbol_then_shorter) (simp add: parsing)

section \<open>Blocks\<close>

text \<open>
  A block appends to what the stream has produced, also when it then fails; a match may not reach
  back before the beginning of the stream.
\<close>

type_synonym inflated = "u8 list \<times> (flate_err + bool list)"

function huff_block :: "huff \<Rightarrow> huff option \<Rightarrow> u8 list \<Rightarrow> bool list \<Rightarrow> inflated" where
  "huff_block lh dh out bs =
     (case get_token lh dh bs of
        Inl e \<Rightarrow> (out, Inl e)
      | Inr (Literal b, r) \<Rightarrow> huff_block lh dh (out @ [b]) r
      | Inr (End_of_block, r) \<Rightarrow> (out, Inr r)
      | Inr (Match n d, r) \<Rightarrow>
          if length out < d then (out, Inl Corrupt) else huff_block lh dh (copy_match n d out) r)"
  by pat_completeness auto
termination
  by (relation "measure (\<lambda>(lh, dh, out, bs). length bs)") (auto dest: get_token_shorter)

declare huff_block.simps [simp del]

text \<open>A stored block starts at a byte boundary with its length, twice.\<close>

definition get_stored_length :: "(nat \<times> nat) parser" where
  "get_stored_length = and_then (get_bits 16) (\<lambda>n. and_then (get_bits 16) (\<lambda>m. yields (n, m)))"

definition stored_block :: "u8 list \<Rightarrow> bool list \<Rightarrow> inflated" where
  "stored_block out bs =
     (case get_stored_length (drop (length bs mod 8) bs) of
        Inl e \<Rightarrow> (out, Inl e)
      | Inr ((n, m), r) \<Rightarrow>
          if m \<noteq> 65535 - n then (out, Inl Corrupt)
          else if length r < 8 * n then (out @ bytes_of_bits (length r div 8) r, Inl Short)
          else (out @ bytes_of_bits n r, Inr (drop (8 * n) r)))"

text \<open>The tables of a dynamic block: the code of the code lengths, then the lengths.\<close>

fun get_many :: "nat \<Rightarrow> nat list parser" where
  "get_many 0 = yields []"
| "get_many (Suc k) = and_then (get_bits 3) (\<lambda>x. and_then (get_many k) (\<lambda>xs. yields (x # xs)))"

definition code_order :: "nat list" where
  "code_order = [16, 17, 18, 0, 8, 7, 9, 6, 10, 5, 11, 4, 12, 3, 13, 2, 14, 1, 15]"

definition code_lengths :: "nat list \<Rightarrow> nat list" where
  "code_lengths xs =
     map (\<lambda>s. case map_of (zip code_order xs) s of None \<Rightarrow> 0 | Some v \<Rightarrow> v) [0..<19]"

definition repeats :: "nat \<Rightarrow> nat list \<Rightarrow> (nat \<times> nat \<times> nat) option" where
  "repeats x acc =
     (if x = 16 then (if acc = [] then None else Some (3, 2, last acc))
      else if x = 17 then Some (3, 3, 0)
      else if x = 18 then Some (11, 7, 0)
      else None)"

text \<open>One symbol gives one length or a run of them; the run may not pass the end.\<close>

definition length_item :: "huff \<Rightarrow> nat list \<Rightarrow> nat list parser" where
  "length_item h acc =
     and_then (huff_sym h) (\<lambda>x.
       if x < 16 then yields [x]
       else
         (case repeats x acc of
            None \<Rightarrow> fails Corrupt
          | Some (base, nb, v) \<Rightarrow> and_then (get_bits nb) (\<lambda>k. yields (replicate (base + k) v))))"

lemma length_item_shorter: "length_item h acc bs = Inr (xs, r) \<Longrightarrow> length r < length bs"
  unfolding length_item_def by (erule symbol_then_shorter) (auto simp: parsing split: option.split)

lemma length_item_extends [parsing]: "extends (length_item h acc)"
  unfolding length_item_def by (auto intro!: parsing split: option.split)

function get_lengths :: "huff \<Rightarrow> nat \<Rightarrow> nat list \<Rightarrow> nat list parser" where
  "get_lengths h n acc bs =
     (if n \<le> length acc then Inr (acc, bs)
      else
        (case length_item h acc bs of
           Inl e \<Rightarrow> Inl e
         | Inr (xs, r) \<Rightarrow>
             if n < length acc + length xs then Inl Corrupt else get_lengths h n (acc @ xs) r))"
  by pat_completeness auto
termination
  by (relation "measure (\<lambda>(h, n, acc, bs). length bs)") (auto dest: length_item_shorter)

declare get_lengths.simps [simp del]

definition get_tables :: "(huff \<times> huff) parser" where
  "get_tables =
     and_then (get_bits 14) (\<lambda>x.
       let nlit = x mod 32 + 257; ndist = x div 32 mod 32 + 1; nclen = x div 1024 + 4 in
       if 286 < nlit \<or> 30 < ndist then fails Corrupt
       else
         and_then (get_many nclen) (\<lambda>cl.
           case huff_init (code_lengths cl) of
             None \<Rightarrow> fails Corrupt
           | Some h \<Rightarrow>
               and_then (get_lengths h (nlit + ndist) []) (\<lambda>ls.
                 case (huff_init (take nlit ls), huff_init (drop nlit ls)) of
                   (Some a, Some b) \<Rightarrow> yields (a\<lparr>h_min := max (h_min a) (ls ! 256)\<rparr>, b)
                 | _ \<Rightarrow> fails Corrupt)))"

definition deflate_block :: "nat \<Rightarrow> u8 list \<Rightarrow> bool list \<Rightarrow> inflated" where
  "deflate_block typ out bs =
     (if typ = 0 then stored_block out bs
      else if typ = 1 then huff_block fixed_huff None out bs
      else if typ = 2 then
        (case get_tables bs of
           Inl e \<Rightarrow> (out, Inl e)
         | Inr ((a, b), r) \<Rightarrow> huff_block a (Some b) out r)
      else (out, Inl Corrupt))"


lemma huff_block_token:
  "huff_block lh dh out bs =
     (case get_token lh dh bs of
        Inl e \<Rightarrow> (out, Inl e)
      | Inr (t, r) \<Rightarrow>
          (case t of
             Literal b \<Rightarrow> huff_block lh dh (out @ [b]) r
           | End_of_block \<Rightarrow> (out, Inr r)
           | Match n d \<Rightarrow> if length out < d then (out, Inl Corrupt) else huff_block lh dh (copy_match n d out) r))"
  by (subst huff_block.simps) (simp split: sum.split prod.split token.split)

lemma huff_block_shrinks: "huff_block lh dh out bs = (out', Inr r) \<Longrightarrow> length r \<le> length bs"
proof (induction lh dh out bs rule: huff_block.induct)
  case (1 lh dh out bs)
  show ?case
  proof (cases "get_token lh dh bs")
    case (Inl e)
    then show ?thesis using 1(3) by (simp add: huff_block_token)
  next
    case (Inr x)
    then show ?thesis
      using 1(1)[OF Inr] 1(2)[OF Inr] 1(3) get_token_shorter[of lh dh bs]
      by (cases x; cases "fst x") (fastforce simp: huff_block_token[of lh dh out bs] split: if_splits)+
  qed
qed

lemma get_many_parsing [parsing]: "shrinks (get_many k)" "extends (get_many k)"
  by (induction k) (simp_all add: parsing)

lemma get_lengths_shrinks: "get_lengths h n acc bs = Inr (ls, r) \<Longrightarrow> length r \<le> length bs"
proof (induction h n acc bs rule: get_lengths.induct)
  case (1 h n acc bs)
  show ?case
  proof (cases "length_item h acc bs")
    case (Inl e)
    then show ?thesis using 1(2) by (auto simp: get_lengths.simps[of h n acc bs] split: if_splits)
  next
    case (Inr x)
    then show ?thesis
      using 1(1)[OF _ Inr] 1(2) length_item_shorter[of h acc bs]
      by (cases x) (fastforce simp: get_lengths.simps[of h n acc bs] split: if_splits)
  qed
qed

lemma get_tables_shrinks: "shrinks get_tables"
proof -
  have "shrinks (get_lengths h n acc)" for h n acc using get_lengths_shrinks by (auto simp: shrinks_def)
  then show ?thesis
    unfolding get_tables_def Let_def by (auto intro!: parsing split: option.split)
qed

lemma get_stored_length_parsing [parsing]: "shrinks get_stored_length" "extends get_stored_length"
  by (simp_all add: get_stored_length_def parsing)

lemma deflate_block_shrinks: "deflate_block typ out bs = (out', Inr r) \<Longrightarrow> length r \<le> length bs"
  using huff_block_shrinks shrinksD[OF get_tables_shrinks, of bs]
    shrinksD[OF get_stored_length_parsing(1), of "drop (length bs mod 8) bs"]
  by (fastforce simp: deflate_block_def stored_block_def split: if_splits sum.splits prod.splits)

section \<open>The DEFLATE stream\<close>

text \<open>Three bits before each block: whether it is the last one, and its type.\<close>

function inflate :: "u8 list \<Rightarrow> bool list \<Rightarrow> inflated" where
  "inflate out bs =
     (case get_bits 3 bs of
        Inl e \<Rightarrow> (out, Inl e)
      | Inr (x, r) \<Rightarrow>
          (case deflate_block (x div 2) out r of
             (out', Inl e) \<Rightarrow> (out', Inl e)
           | (out', Inr r') \<Rightarrow> if odd x then (out', Inr r') else inflate out' r'))"
  by pat_completeness auto
termination
  by (relation "measure (\<lambda>(out, bs). length bs)")
    (auto simp: get_bits_def split: if_splits dest!: deflate_block_shrinks[OF sym])

declare inflate.simps [simp del]

section \<open>The checksum\<close>

text \<open>CRC-32 with the polynomial of IEEE 802.3, reflected, bit by bit.\<close>

definition crc_bit :: "u32 \<Rightarrow> u32" where
  "crc_bit c = (if bit c 0 then xor (drop_bit 1 c) 0xEDB88320 else drop_bit 1 c)"

definition crc_byte :: "u8 \<Rightarrow> u32 \<Rightarrow> u32" where
  "crc_byte b c = (crc_bit ^^ 8) (xor c (ucast b))"

definition crc32 :: "u8 list \<Rightarrow> u32" where
  "crc32 bs = not (fold crc_byte bs 0xFFFFFFFF)"

text \<open>A little-endian number.\<close>

fun le_nat :: "u8 list \<Rightarrow> nat" where
  "le_nat [] = 0"
| "le_nat (b # bs) = unat b + 256 * le_nat bs"

section \<open>Headers\<close>

datatype header_err = No_header | Cut_header | Bad_header

text \<open>A zero-terminated string of at most 512 bytes, the zero included.\<close>

fun skip_string :: "nat \<Rightarrow> u8 list \<Rightarrow> header_err + u8 list" where
  "skip_string 0 bs = Inl Bad_header"
| "skip_string (Suc n) [] = Inl Cut_header"
| "skip_string (Suc n) (b # bs) = (if b = 0 then Inr bs else skip_string n bs)"

definition skip_bytes :: "nat \<Rightarrow> u8 list \<Rightarrow> header_err + u8 list" where
  "skip_bytes n bs = (if length bs < n then Inl Cut_header else Inr (drop n bs))"

text \<open>The optional parts that the flags announce, in the order of the format.\<close>

definition skip_extra :: "u8 \<Rightarrow> u8 list \<Rightarrow> header_err + u8 list" where
  "skip_extra flg bs =
     (if \<not> bit flg 2 then Inr bs
      else (case skip_bytes 2 bs of Inl e \<Rightarrow> Inl e | Inr r \<Rightarrow> skip_bytes (le_nat (take 2 bs)) r))"

definition skip_text :: "nat \<Rightarrow> u8 \<Rightarrow> u8 list \<Rightarrow> header_err + u8 list" where
  "skip_text k flg bs = (if bit flg k then skip_string 512 bs else Inr bs)"

text \<open>\<open>all\<close> is the whole header, whose checksum the last part holds.\<close>

definition skip_crc :: "u8 \<Rightarrow> u8 list \<Rightarrow> u8 list \<Rightarrow> header_err + u8 list" where
  "skip_crc flg all bs =
     (if \<not> bit flg 1 then Inr bs
      else if length bs < 2 then Inl Cut_header
      else if le_nat (take 2 bs) \<noteq> unat (crc32 (take (length all - length bs) all)) mod 65536
      then Inl Bad_header
      else Inr (drop 2 bs))"

definition read_header :: "u8 list \<Rightarrow> header_err + u8 list" where
  "read_header bs =
     (if bs = [] then Inl No_header
      else if length bs < 10 then Inl Cut_header
      else if take 3 bs \<noteq> [0x1f, 0x8b, 8] then Inl Bad_header
      else
        (let flg = bs ! 3 in
         case skip_extra flg (drop 10 bs) of
           Inl e \<Rightarrow> Inl e
         | Inr r1 \<Rightarrow>
             (case skip_text 3 flg r1 of
                Inl e \<Rightarrow> Inl e
              | Inr r2 \<Rightarrow>
                  (case skip_text 4 flg r2 of
                     Inl e \<Rightarrow> Inl e
                   | Inr r3 \<Rightarrow> skip_crc flg bs r3))))"

section \<open>The reader\<close>

text \<open>
  One member after its header: the contents, and what follows the trailer. The trailer starts at
  the next byte boundary.
\<close>

datatype member_err = Cut_member | Corrupt_data | Bad_checksum

definition read_member :: "u8 list \<Rightarrow> u8 list \<times> (member_err + u8 list)" where
  "read_member bs =
     (case inflate [] (bits_of bs) of
        (out, Inl Short) \<Rightarrow> (out, Inl Cut_member)
      | (out, Inl Corrupt) \<Rightarrow> (out, Inl Corrupt_data)
      | (out, Inr r) \<Rightarrow>
          (let t = drop (length bs - length r div 8) bs in
           if length t < 8 then (out, Inl Cut_member)
           else if le_nat (take 4 t) \<noteq> unat (crc32 out) \<or> le_nat (take 4 (drop 4 t)) \<noteq> length out mod 2 ^ 32
           then (out, Inl Bad_checksum)
           else (out, Inr (drop 8 t))))"

text \<open>
  An input is its bytes and the error that ends them, \<open>None\<close> for \<open>io.EOF\<close>; inside a member the
  end of the input is \<open>io.ErrUnexpectedEOF\<close>.
\<close>

definition at_end :: "go_error option \<Rightarrow> go_error" where
  "at_end e = (case e of None \<Rightarrow> Sentinel Io_EOF | Some err \<Rightarrow> err)"

definition inside_end :: "go_error option \<Rightarrow> go_error" where
  "inside_end e = (case e of None \<Rightarrow> Sentinel Io_ErrUnexpectedEOF | Some err \<Rightarrow> err)"

definition header_error :: "go_error option \<Rightarrow> header_err \<Rightarrow> go_error" where
  "header_error e h =
     (case h of
        No_header \<Rightarrow> at_end e
      | Cut_header \<Rightarrow> inside_end e
      | Bad_header \<Rightarrow> Sentinel Gzip_ErrHeader)"

definition member_error :: "go_error option \<Rightarrow> member_err \<Rightarrow> go_error" where
  "member_error e m =
     (case m of
        Cut_member \<Rightarrow> inside_end e
      | Corrupt_data \<Rightarrow> New_error ''flate: corrupt input before offset''
      | Bad_checksum \<Rightarrow> Sentinel Gzip_ErrChecksum)"

text \<open>The stream after the first header: each member's contents, then the next header if there is one.\<close>

lemma skip_bytes_shrinks: "skip_bytes n bs = Inr r \<Longrightarrow> length r \<le> length bs"
  by (auto simp: skip_bytes_def split: if_splits)

lemma skip_string_shrinks: "skip_string n bs = Inr r \<Longrightarrow> length r \<le> length bs"
  by (induction n bs rule: skip_string.induct) (auto split: if_splits)

lemma skip_extra_shrinks: "skip_extra flg bs = Inr r \<Longrightarrow> length r \<le> length bs"
  by (fastforce simp: skip_extra_def split: if_splits sum.splits dest: skip_bytes_shrinks)

lemma skip_text_shrinks: "skip_text k flg bs = Inr r \<Longrightarrow> length r \<le> length bs"
  by (auto simp: skip_text_def split: if_splits dest: skip_string_shrinks)

lemma skip_crc_shrinks: "skip_crc flg all bs = Inr r \<Longrightarrow> length r \<le> length bs"
  by (auto simp: skip_crc_def split: if_splits)

lemma read_header_shrinks: "read_header bs = Inr r \<Longrightarrow> length r < length bs"
  by (fastforce simp: read_header_def Let_def split: if_splits sum.splits
      dest: skip_extra_shrinks skip_text_shrinks skip_crc_shrinks)

lemma read_member_shrinks: "read_member bs = (out, Inr r) \<Longrightarrow> length r \<le> length bs"
  by (auto simp: read_member_def Let_def split: prod.splits sum.splits flate_err.splits if_splits)

function read_members :: "go_error option \<Rightarrow> u8 list \<Rightarrow> u8 list \<times> go_error option" where
  "read_members e bs =
     (case read_member bs of
        (out, Inl m) \<Rightarrow> (out, Some (member_error e m))
      | (out, Inr t) \<Rightarrow>
          (case read_header t of
             Inl No_header \<Rightarrow> (out, e)
           | Inl h \<Rightarrow> (out, Some (header_error e h))
           | Inr r \<Rightarrow> (case read_members e r of (out', err) \<Rightarrow> (out @ out', err))))"
  by pat_completeness auto
termination
  by (relation "measure (\<lambda>(e, bs). length bs)")
    (auto dest!: read_member_shrinks[OF sym] read_header_shrinks)

declare read_members.simps [simp del]

text \<open>
  \<open>gzip.NewReader\<close> reads the first header and fails if it is missing; the stream then delivers
  the contents of the members and ends in \<open>io.EOF\<close> or in an error.
\<close>

definition gzip_NewReader :: "reader \<Rightarrow> reader result" where
  "gzip_NewReader src =
     (case delivered src of
        (bs, e) \<Rightarrow>
          (case read_header bs of
             Inl h \<Rightarrow> Inl (header_error e h)
           | Inr r \<Rightarrow> Inr [read_members e r]))"

end
