(* ===== verification/Config_Correct.thy ===== *)
theory Config_Correct
  imports Config
begin

text \<open>
  What \<open>Validate\<close> and \<open>Load\<close> guarantee: the rules of a usable configuration stated as one
  predicate, acceptance exactly when they hold, one error for every rule that is broken, and the
  defaults with a block list and a source as the smallest accepted configuration.
\<close>

section \<open>The rules\<close>

definition config_ok :: "(string \<Rightarrow> go_error option) \<Rightarrow> Config \<Rightarrow> bool" where
  "config_ok parse_cron c \<longleftrightarrow>
     1 \<le> port (listen c) \<and> port (listen c) \<le> 65535 \<and> host (listen c) \<noteq> []
     \<and> (countries (block c) \<noteq> [] \<or> asns (block c) \<noteq> [])
     \<and> (\<forall>cc \<in> set (countries (block c)). countryCodePattern cc)
     \<and> (dbip_enabled (dbip (sources c)) \<or> bgptools_enabled (bgptools (sources c)))
     \<and> schedule (refresh c) \<noteq> [] \<and> parse_cron (schedule (refresh c)) = None
     \<and> 0 < sint (timeout (refresh c))
     \<and> startup_mode (behavior c) \<in> {StartupFailClosed, StartupFailOpen}
     \<and> 400 \<le> response_code (behavior c) \<and> response_code (behavior c) \<le> 599
     \<and> cache_path (cache c) \<noteq> [] \<and> 0 < sint (max_age (cache c))
     \<and> log_level_name (logging c) \<in> {LogLevelDebug, LogLevelInfo, LogLevelWarn, LogLevelError}
     \<and> log_format (logging c) \<in> {LogFormatJSON, LogFormatText}"

lemmas validators =
  validateListen_def validateBlock_def validateSources_def validateRefresh_def
  validateBehavior_def validateCache_def validateLogging_def

lemma country_errors_Nil_iff: "country_errors i ccs = [] \<longleftrightarrow> (\<forall>cc \<in> set ccs. countryCodePattern cc)"
  by (induction i ccs rule: country_errors.induct) auto

lemma length_country_errors:
  "length (country_errors i ccs) = length (filter (\<lambda>cc. \<not> countryCodePattern cc) ccs)"
  by (induction i ccs rule: country_errors.induct) auto

lemma country_errors_nth:
  "k < length ccs \<Longrightarrow> \<not> countryCodePattern (ccs ! k) \<Longrightarrow>
   Errorf ''block.countries[%d]=%q is not an ISO 3166-1 alpha-2 code'' [FInt (i + int k), FStr (ccs ! k)]
     \<in> set (country_errors i ccs)"
proof (induction i ccs arbitrary: k rule: country_errors.induct)
  case (2 i cc ccs)
  then show ?case by (cases k) (auto simp: add.assoc)
qed simp

lemma Validate_ok_iff: "Validate parse_cron c = None \<longleftrightarrow> config_ok parse_cron c"
  by (auto simp: Validate_def join_errors_def config_ok_def validators country_errors_Nil_iff
      isValidStartupMode_def isValidLogLevel_def isValidLogFormat_def
      split: if_splits option.splits)

section \<open>Properties\<close>

text \<open>
  C31 (functional). \<open>Load\<close> returns a configuration exactly when the file reads, its YAML decodes
  over the defaults to that configuration, and the configuration satisfies every rule; the result
  is the decoded value unchanged. (The comment on \<open>Load\<close> promises more, environment overrides for
  secrets and an error for one that is missing; the code has neither.)
\<close>

theorem load_returns_iff:
  "Load read_file decode parse_cron path = Inr cfg \<longleftrightarrow>
     (\<exists>raw. read_file path = Inr raw \<and> decode raw defaults = Inr cfg \<and> config_ok parse_cron cfg)"
  by (auto simp: Load_def Validate_ok_iff[symmetric] split: sum.splits option.splits)

text \<open>
  A rejected configuration reports every problem, not just the first: the joined
  error holds one error per broken rule, plus one for every country entry that is not a code.
\<close>

lemma validate_reports_all:
  assumes "Validate parse_cron c = Some err"
  shows "\<exists>errs. err = Joined errs \<and> length errs =
      of_bool (port (listen c) < 1 \<or> 65535 < port (listen c)) + of_bool (host (listen c) = [])
    + of_bool (countries (block c) = [] \<and> asns (block c) = [])
    + length (filter (\<lambda>cc. \<not> countryCodePattern cc) (countries (block c)))
    + of_bool (\<not> dbip_enabled (dbip (sources c)) \<and> \<not> bgptools_enabled (bgptools (sources c)))
    + of_bool (schedule (refresh c) = [] \<or> parse_cron (schedule (refresh c)) \<noteq> None)
    + of_bool (sint (timeout (refresh c)) \<le> 0)
    + of_bool (\<not> isValidStartupMode (startup_mode (behavior c)))
    + of_bool (response_code (behavior c) < 400 \<or> 599 < response_code (behavior c))
    + of_bool (cache_path (cache c) = []) + of_bool (sint (max_age (cache c)) \<le> 0)
    + of_bool (\<not> isValidLogLevel (log_level_name (logging c)))
    + of_bool (\<not> isValidLogFormat (log_format (logging c)))"
proof -
  define errs where "errs = validateListen c @ validateBlock c @ validateSources c
    @ validateRefresh parse_cron c @ validateBehavior c @ validateCache c @ validateLogging c"
  have "length (validateListen c) =
      of_bool (port (listen c) < 1 \<or> 65535 < port (listen c)) + of_bool (host (listen c) = [])"
    by (simp add: validateListen_def)
  moreover have "length (validateBlock c) = of_bool (countries (block c) = [] \<and> asns (block c) = [])
      + length (filter (\<lambda>cc. \<not> countryCodePattern cc) (countries (block c)))"
    by (simp add: validateBlock_def length_country_errors)
  moreover have "length (validateSources c) =
      of_bool (\<not> dbip_enabled (dbip (sources c)) \<and> \<not> bgptools_enabled (bgptools (sources c)))"
    by (simp add: validateSources_def)
  moreover have "length (validateRefresh parse_cron c) =
      of_bool (schedule (refresh c) = [] \<or> parse_cron (schedule (refresh c)) \<noteq> None)
      + of_bool (sint (timeout (refresh c)) \<le> 0)"
    by (simp add: validateRefresh_def split: option.split)
  moreover have "length (validateBehavior c) =
      of_bool (\<not> isValidStartupMode (startup_mode (behavior c)))
      + of_bool (response_code (behavior c) < 400 \<or> 599 < response_code (behavior c))"
    by (simp add: validateBehavior_def)
  moreover have "length (validateCache c) =
      of_bool (cache_path (cache c) = []) + of_bool (sint (max_age (cache c)) \<le> 0)"
    by (simp add: validateCache_def)
  moreover have "length (validateLogging c) =
      of_bool (\<not> isValidLogLevel (log_level_name (logging c)))
      + of_bool (\<not> isValidLogFormat (log_format (logging c)))"
    by (simp add: validateLogging_def)
  moreover have "err = Joined errs"
    using assms by (simp add: Validate_def join_errors_def errs_def split: if_splits)
  ultimately show ?thesis by (simp add: errs_def)
qed

lemma validate_reports_all_witness:
  "\<exists>e1 e2. Validate (\<lambda>_. None) defaults = Some (Joined [e1, e2])"
proof -
  obtain err where err: "Validate (\<lambda>_. None) defaults = Some err"
    by (cases "Validate (\<lambda>_. None) defaults") (auto simp: Validate_ok_iff config_ok_def defaults_def)
  from validate_reports_all[OF err] obtain errs where "err = Joined errs" "length errs = 2"
    by (auto simp: defaults_def isValidStartupMode_def isValidLogLevel_def isValidLogFormat_def)
  then show ?thesis
    using err by (auto simp: numeral_2_eq_2 length_Suc_conv)
qed

text \<open>
  The defaults are usable: any block list of country codes with at least one
  entry, put on top of \<open>defaults\<close> with a source enabled, is accepted when the default schedule
  parses.
\<close>

lemma defaults_need_only_block_and_source:
  assumes "parse_cron ''0 3 * * *'' = None" "ccs \<noteq> []" "\<forall>cc \<in> set ccs. countryCodePattern cc"
  shows "Validate parse_cron (defaults\<lparr>block := \<lparr>countries = ccs, asns = []\<rparr>,
           sources := \<lparr>dbip = \<lparr>dbip_enabled = True\<rparr>, bgptools = \<lparr>bgptools_enabled = False\<rparr>\<rparr>\<rparr>) = None"
  using assms by (simp add: Validate_ok_iff config_ok_def defaults_def)

lemma defaults_need_only_block_and_source_witness:
  "Validate (\<lambda>_. None) (defaults\<lparr>block := \<lparr>countries = [''CN'', ''RU''], asns = []\<rparr>,
     sources := \<lparr>dbip = \<lparr>dbip_enabled = True\<rparr>, bgptools = \<lparr>bgptools_enabled = False\<rparr>\<rparr>\<rparr>) = None"
  by (rule defaults_need_only_block_and_source)
    (simp_all add: countryCodePattern_def upper_letter_def)

text \<open>A configuration that blocks one country, for the witnesses of the daemon.\<close>

definition sample_config :: Config where
  "sample_config = defaults\<lparr>block := \<lparr>countries = [''CN''], asns = []\<rparr>,
     sources := \<lparr>dbip = \<lparr>dbip_enabled = True\<rparr>, bgptools = \<lparr>bgptools_enabled = False\<rparr>\<rparr>\<rparr>"

lemma sample_config_ok: "config_ok (\<lambda>_. None) sample_config"
  by (simp add: config_ok_def sample_config_def defaults_def StartupFailClosed_def LogLevelInfo_def
      LogFormatJSON_def countryCodePattern_def upper_letter_def)

end
