(* ===== verification/Logging.thy ===== *)
theory Logging
  imports Config_Correct Go_Text Sha256
begin

text \<open>
  The logger (\<open>internal/logging/logging.go\<close>): construction from the configuration, the logger
  carried by a context, and \<open>Redact\<close>. A \<open>*slog.Logger\<close> is its handler's format, minimum level
  and writer; it emits a record whose level is at least the minimum.
\<close>

section \<open>Levels and loggers\<close>

text \<open>The values of \<open>slog.Level\<close>.\<close>

fun level_value :: "log_level \<Rightarrow> int" where
  "level_value Debug = -4"
| "level_value Info = 0"
| "level_value Warn = 4"
| "level_value Error = 8"

text \<open>Levels compare by their values.\<close>

instantiation log_level :: linorder
begin

definition less_eq_log_level :: "log_level \<Rightarrow> log_level \<Rightarrow> bool" where
  "less_eq_log_level a b \<longleftrightarrow> level_value a \<le> level_value b"

definition less_log_level :: "log_level \<Rightarrow> log_level \<Rightarrow> bool" where
  "less_log_level a b \<longleftrightarrow> level_value a < level_value b"

instance
proof
  fix a b :: log_level
  show "a \<le> b \<Longrightarrow> b \<le> a \<Longrightarrow> a = b" by (cases a; cases b) (simp_all add: less_eq_log_level_def)
qed (auto simp: less_eq_log_level_def less_log_level_def)

end

datatype handler = JSONHandler | TextHandler
datatype writer = Stderr | Discard

record logger =
  handler_of :: handler
  min_level :: log_level
  writer_of :: writer

definition enabled :: "logger \<Rightarrow> log_record \<Rightarrow> bool" where
  "enabled l r \<longleftrightarrow> min_level l \<le> level r"

text \<open>The records a logger writes out of those it is handed.\<close>

definition emitted :: "logger \<Rightarrow> log_record list \<Rightarrow> log_record list" where
  "emitted l rs = (if writer_of l = Discard then [] else filter (enabled l) rs)"

definition slogLevel :: "LogLevel \<Rightarrow> log_level result" where
  "slogLevel l =
     (if l = LogLevelDebug then Inr Debug
      else if l = LogLevelInfo then Inr Info
      else if l = LogLevelWarn then Inr Warn
      else if l = LogLevelError then Inr Error
      else Inl (Errorf ''unsupported log level %q'' [FStr l]))"

definition newWithWriter :: "LoggingConfig \<Rightarrow> writer \<Rightarrow> logger result" where
  "newWithWriter cfg w =
     (case slogLevel (log_level_name cfg) of
        Inl err \<Rightarrow> Inl err
      | Inr lvl \<Rightarrow>
          if log_format cfg = LogFormatJSON
          then Inr \<lparr>handler_of = JSONHandler, min_level = lvl, writer_of = w\<rparr>
          else if log_format cfg = LogFormatText
          then Inr \<lparr>handler_of = TextHandler, min_level = lvl, writer_of = w\<rparr>
          else Inl (Errorf ''unsupported log format %q'' [FStr (log_format cfg)]))"

definition new_logger :: "LoggingConfig \<Rightarrow> logger result" where
  "new_logger cfg = newWithWriter cfg Stderr"

section \<open>The logger of a context\<close>

text \<open>A context as its chain of values; \<open>ctxKey{}\<close> is the key private to the package.\<close>

datatype ctx_key = Logging_ctxKey | Other_key string
datatype ctx_val = Logger_val logger | Other_val string

datatype ctx = Background | WithValue ctx ctx_key ctx_val

fun ctx_value :: "ctx \<Rightarrow> ctx_key \<Rightarrow> ctx_val option" where
  "ctx_value Background k = None"
| "ctx_value (WithValue c k' v) k = (if k = k' then Some v else ctx_value c k)"

definition discard :: logger where
  "discard = \<lparr>handler_of = TextHandler, min_level = Info, writer_of = Discard\<rparr>"

definition WithContext :: "ctx \<Rightarrow> logger \<Rightarrow> ctx" where
  "WithContext c l = WithValue c Logging_ctxKey (Logger_val l)"

definition FromContext :: "ctx \<Rightarrow> logger" where
  "FromContext c =
     (case ctx_value c Logging_ctxKey of Some (Logger_val l) \<Rightarrow> l | _ \<Rightarrow> discard)"

section \<open>Redaction\<close>

definition string_bytes :: "string \<Rightarrow> u8 list" where
  "string_bytes s = map (\<lambda>c. of_nat (of_char c)) s"

definition Redact :: "string \<Rightarrow> string" where
  "Redact s =
     (if s = '''' then ''''
      else (let sum = sha256 (string_bytes s) in ''[redacted:'' @ hex_string (take 4 sum) @ '']''))"

section \<open>Lemmas\<close>

lemma level_max [simp]: "(l :: log_level) \<le> Error"
  by (cases l) (simp_all add: less_eq_log_level_def)

lemma new_logger_valid:
  assumes "log_level_name cfg \<in> {LogLevelDebug, LogLevelInfo, LogLevelWarn, LogLevelError}"
    and "log_format cfg \<in> {LogFormatJSON, LogFormatText}"
  shows "\<exists>l. new_logger cfg = Inr l \<and> writer_of l = Stderr"
  using assms by (auto simp: new_logger_def newWithWriter_def slogLevel_def wiring)

lemma new_logger_stderr: "new_logger cfg = Inr l \<Longrightarrow> writer_of l = Stderr"
  by (auto simp: new_logger_def newWithWriter_def split: sum.splits if_splits)

text \<open>No logger the daemon builds drops an ERROR record: no configured level is above it.\<close>

lemma error_emitted:
  "new_logger cfg = Inr l \<Longrightarrow> r \<in> set rs \<Longrightarrow> level r = Error \<Longrightarrow> r \<in> set (emitted l rs)"
  by (auto simp: emitted_def new_logger_stderr enabled_def)

section \<open>Properties\<close>

text \<open>
  \<open>Redact\<close> shows nothing of a non-empty value but the first four bytes of its
  SHA-256 digest: the result is a fixed 19-character form, two values with the same four digest
  bytes are rendered alike, and the empty string stays empty.
\<close>

lemma redact_hides_value:
  "(Redact s = [] \<longleftrightarrow> s = [])
   \<and> (s \<noteq> [] \<longrightarrow> length (Redact s) = 19 \<and> take 10 (Redact s) = ''[redacted:'' \<and> last (Redact s) = CHR '']'')
   \<and> (s \<noteq> [] \<and> t \<noteq> [] \<and> take 4 (sha256 (string_bytes s)) = take 4 (sha256 (string_bytes t))
        \<longrightarrow> Redact s = Redact t)"
  by (simp add: Redact_def Let_def)

lemma redact_hides_value_witness:
  "length (Redact ''203.0.113.7'') = 19 \<and> take 10 (Redact ''203.0.113.7'') = ''[redacted:''"
  using redact_hides_value[of "''203.0.113.7''" "''203.0.113.7''"] by simp

text \<open>
  The logger attached to a context is the one handlers get from it and from
  every context derived under other keys; a context without one gives a logger that writes
  nothing, never a missing value.
\<close>

lemma from_context_finds_logger:
  "FromContext (WithContext c l) = l
   \<and> FromContext (WithValue (WithContext c l) (Other_key k) v) = l
   \<and> FromContext (WithContext (WithContext c l') l) = l
   \<and> emitted (FromContext Background) rs = []"
  by (simp add: FromContext_def WithContext_def discard_def emitted_def)

text \<open>
  For every logging section the validator accepts, the logger is built and writes
  every ERROR record it is handed: no accepted configuration silences the errors.
\<close>

lemma valid_logging_never_drops_errors:
  assumes "config_ok parse_cron c"
  shows "\<exists>l. new_logger (logging c) = Inr l \<and>
    (\<forall>rs. filter (\<lambda>r. level r = Error) (emitted l rs) = filter (\<lambda>r. level r = Error) rs)"
proof -
  obtain l where l: "new_logger (logging c) = Inr l" "writer_of l = Stderr"
    using assms new_logger_valid[of "logging c"] by (auto simp: config_ok_def)
  have "filter (\<lambda>r. level r = Error) (emitted l rs) = filter (\<lambda>r. level r = Error) rs" for rs
    using l(2) by (induction rs) (auto simp: emitted_def enabled_def)
  with l(1) show ?thesis by blast
qed

lemma valid_logging_never_drops_errors_witness:
  "\<exists>l. new_logger (logging defaults) = Inr l \<and>
     emitted l [logged Error ''check: blocklist still unusable'' []]
       = [logged Error ''check: blocklist still unusable'' []]"
proof -
  let ?c = "defaults\<lparr>block := \<lparr>countries = [''CN''], asns = []\<rparr>,
     sources := \<lparr>dbip = \<lparr>dbip_enabled = True\<rparr>, bgptools = \<lparr>bgptools_enabled = False\<rparr>\<rparr>\<rparr>"
  have "config_ok (\<lambda>_. None) ?c"
    by (simp add: config_ok_def defaults_def countryCodePattern_def upper_letter_def)
  from valid_logging_never_drops_errors[OF this] obtain l where
    l: "new_logger (logging defaults) = Inr l"
      "\<And>rs. filter (\<lambda>r. level r = Error) (emitted l rs) = filter (\<lambda>r. level r = Error) rs"
    by auto
  let ?r = "logged Error ''check: blocklist still unusable'' []"
  have "filter (\<lambda>r. level r = Error) (emitted l [?r]) = [?r]" using l(2)[of "[?r]"] by simp
  then have "emitted l [?r] = [?r]"
    by (auto simp: emitted_def split: if_splits)
  with l(1) show ?thesis by blast
qed

end
