(* ===== verification/Fetcher.thy ===== *)
theory Fetcher
  imports Civil Client_IP Diskcache_Correct Gzip Logging
begin

text \<open>
  \<open>internal/fetcher/fetcher.go\<close>: the options and the fetcher, the months a refresh asks for,
  the conditional GET, the bounded decompression and \<open>Refresh\<close>. The network,
  the file system calls and the MMDB reader are parameters; the source, the files, the log and
  the requests sent are the state that a refresh passes on.
\<close>

section \<open>Data\<close>

definition defaultBaseURL :: string where
  "defaultBaseURL = ''https://download.db-ip.com/free''"

definition maxDecompressedBytes :: nat where
  "maxDecompressedBytes = 536870912"

datatype outcome = OutcomeUpdated | OutcomeUnchanged

text \<open>
  The parts of \<open>http.Client\<close> the daemon sets; the answers of the network come with each refresh.
  A clock is a function of the wall clock: \<open>time.Now\<close> is the identity.
\<close>

record http_client =
  client_timeout :: duration
  tls_min_version :: nat

type_synonym clock = "instant \<Rightarrow> instant"

record fetcher_options =
  fo_HTTPClient :: "http_client option"
  fo_CachePath :: string
  fo_Countries :: "CountryCode list"
  fo_Source :: "source option"
  fo_Logger :: "logger option"
  fo_Now :: "clock option"

record fetcher =
  httpClient :: http_client
  baseURL :: string
  f_now :: clock
  cachePath :: string
  countries :: "CountryCode list"
  etag :: string
  lastModified :: string

record validators =
  v_etag :: string
  v_lastModified :: string

definition new_fetcher :: "fetcher_options \<Rightarrow> fetcher result" where
  "new_fetcher opts =
     (case fo_HTTPClient opts of
        None \<Rightarrow> Inl (New_error ''fetcher: HTTPClient is required'')
      | Some client \<Rightarrow>
          if fo_CachePath opts = '''' then Inl (New_error ''fetcher: CachePath is required'')
          else if length (fo_Countries opts) = 0 then Inl (New_error ''fetcher: Countries is required'')
          else if fo_Source opts = None then Inl (New_error ''fetcher: Source is required'')
          else if fo_Logger opts = None then Inl (New_error ''fetcher: Logger is required'')
          else
            Inr \<lparr>httpClient = client, baseURL = defaultBaseURL,
                 f_now = (case fo_Now opts of None \<Rightarrow> id | Some now \<Rightarrow> now),
                 cachePath = fo_CachePath opts, countries = fo_Countries opts,
                 etag = '''', lastModified = ''''\<rparr>)"

section \<open>Requests and responses\<close>

record http_request =
  req_method :: string
  req_url :: string
  req_header :: header

record http_response =
  status :: int
  resp_header :: header
  resp_body :: reader

text \<open>
  What the world answers to one refresh: the wall clock, whether a URL parses, the network, the
  file system calls, and whether the new file can be opened.
\<close>

record refresh_env =
  wall_clock :: instant
  bad_url :: "string \<Rightarrow> go_error option"
  network :: "http_request \<Rightarrow> http_response result"
  disk_calls :: write_env
  open_fault :: "go_error option"

definition header_set :: "string \<Rightarrow> string \<Rightarrow> header \<Rightarrow> header" where
  "header_set k v h = h(canonical_key k \<mapsto> [v])"

definition month_url :: "fetcher \<Rightarrow> string \<Rightarrow> string" where
  "month_url f month = baseURL f @ ''/dbip-country-lite-'' @ month @ ''.mmdb.gz''"

definition conditional_headers :: "fetcher \<Rightarrow> header" where
  "conditional_headers f =
     (let h = (if etag f \<noteq> '''' then header_set ''If-None-Match'' (etag f) Map.empty else Map.empty)
      in if lastModified f \<noteq> '''' then header_set ''If-Modified-Since'' (lastModified f) h else h)"

definition month_request :: "fetcher \<Rightarrow> string \<Rightarrow> http_request" where
  "month_request f month =
     \<lparr>req_method = ''GET'', req_url = month_url f month, req_header = conditional_headers f\<rparr>"

section \<open>Decompression\<close>

definition decompress :: "reader \<Rightarrow> u8 list result" where
  "decompress r =
     (case gzip_NewReader r of
        Inl err \<Rightarrow> Inl (Wrapf ''fetcher: open gzip stream: %w'' [] err)
      | Inr stream \<Rightarrow>
          (case read_limited (maxDecompressedBytes + 1) stream of
             (_, Some err) \<Rightarrow> Inl (Wrapf ''fetcher: decompress: %w'' [] err)
           | (bytes, None) \<Rightarrow>
               if maxDecompressedBytes < length bytes
               then Inl (Errorf ''fetcher: decompressed stream exceeds %d-byte cap'' [FInt (int maxDecompressedBytes)])
               else Inr bytes))"

section \<open>The conditional GET\<close>

text \<open>
  \<open>get\<close> returns the body, whether the answer was 304, the validators and the status, together
  with the requests it sent. Draining a body has no effect on the state of the program.
\<close>

definition get ::
  "fetcher \<Rightarrow> refresh_env \<Rightarrow> string
     \<Rightarrow> (u8 list \<times> bool \<times> validators \<times> int) result \<times> http_request list" where
  "get f env month =
     (case bad_url env (month_url f month) of
        Some err \<Rightarrow> (Inl (Wrapf ''fetcher: build request for %s: %w'' [FStr month] err), [])
      | None \<Rightarrow>
          (let req = month_request f month in
           (case network env req of
              Inl err \<Rightarrow> Inl (Wrapf ''fetcher: GET %s: %w'' [FStr month] err)
            | Inr resp \<Rightarrow>
                if status resp = 200 then
                  (case decompress (resp_body resp) of
                     Inl err \<Rightarrow> Inl err
                   | Inr body \<Rightarrow>
                       Inr (body, False,
                         \<lparr>v_etag = header_get (resp_header resp) ''ETag'',
                          v_lastModified = header_get (resp_header resp) ''Last-Modified''\<rparr>,
                         status resp))
                else if status resp = 304 then
                  Inr ([], True, \<lparr>v_etag = etag f, v_lastModified = lastModified f\<rparr>, status resp)
                else if status resp = 404 then
                  Inr ([], False, \<lparr>v_etag = '''', v_lastModified = ''''\<rparr>, status resp)
                else
                  Inl (Errorf ''fetcher: GET %s: unexpected status %d'' [FStr month, FInt (status resp)]),
            [req])))"

text \<open>The month of the fetcher's clock and the month before it.\<close>

definition current_month :: "instant \<Rightarrow> string" where
  "current_month now = (case utc_date now of (y, m, d) \<Rightarrow> format_month (y, m))"

definition prior_instant :: "instant \<Rightarrow> instant" where
  "prior_instant now = (case utc_date now of (y, m, d) \<Rightarrow> add_days now (- d))"

definition fetch ::
  "fetcher \<Rightarrow> refresh_env
     \<Rightarrow> (u8 list \<times> bool \<times> validators) result \<times> log_record list \<times> http_request list" where
  "fetch f env =
     (let now = f_now f (wall_clock env);
          current = current_month now;
          prior = current_month (prior_instant now);
          (r, sent) = get f env current in
      case r of
        Inl err \<Rightarrow> (Inl err, [], sent)
      | Inr (body, notModified, v, st) \<Rightarrow>
          if st = 404 then
            (let l = [logged Warn ''fetcher: current-month file not published; trying prior month''
                        [(''month'', AStr current), (''prior_month'', AStr prior)]];
                 (r', sent') = get f env prior in
             case r' of
               Inl err \<Rightarrow> (Inl err, l, sent @ sent')
             | Inr (body', notModified', v', st') \<Rightarrow>
                 if st' = 404 then
                   (Inl (Wrapf ''%w (%s, %s)'' [FStr current, FStr prior] (Sentinel Fetcher_ErrNotPublished)),
                    l, sent @ sent')
                 else (Inr (body', notModified', v'), l, sent @ sent'))
          else (Inr (body, notModified, v), [], sent))"

section \<open>Refresh\<close>

record refresher =
  fetcher_of :: fetcher
  active :: source
  fsys :: fs
  logs :: "log_record list"
  requests :: "http_request list"

text \<open>
  \<open>None\<close> is a panic of the trie. The mutex makes a refresh one step of the state.
\<close>

definition Refresh ::
  "mmdb_open \<Rightarrow> refresh_env \<Rightarrow> refresher \<Rightarrow> ((outcome \<times> go_error option) \<times> refresher) option" where
  "Refresh mmdb_open env s =
     (let f = fetcher_of s;
          (r, l, sent) = fetch f env;
          s1 = s\<lparr>logs := logs s @ l, requests := requests s @ sent\<rparr> in
      case r of
        Inl err \<Rightarrow> Some ((OutcomeUnchanged, Some err), s1)
      | Inr (body, notModified, v) \<Rightarrow>
          if notModified then
            Some ((OutcomeUnchanged, None),
              s1\<lparr>logs := logs s1 @ [logged Debug ''fetcher: source unchanged (304); retaining active blocklist'' []]\<rparr>)
          else
            (let (werr, F) = write_files (cachePath f) (disk_calls env) (bytes_reader body) (fsys s1);
                 s2 = s1\<lparr>fsys := F\<rparr> in
             case werr of
               Some err \<Rightarrow> Some ((OutcomeUnchanged, Some (Wrapf ''fetcher: write cache: %w'' [] err)), s2)
             | None \<Rightarrow>
                 (case LoadCountryBlocklist (Open mmdb_open (open_fault env)) (cachePath f)
                         (map_option data (fsys s2 (cachePath f))) (countries f) of
                    None \<Rightarrow> None
                  | Some (Inl err) \<Rightarrow>
                      Some ((OutcomeUnchanged, Some (Wrapf ''fetcher: load fetched mmdb: %w'' [] err)), s2)
                  | Some (Inr t) \<Rightarrow>
                      Some ((OutcomeUpdated, None),
                        s2\<lparr>active := Swap (Some t) (active s2),
                           fetcher_of := f\<lparr>etag := v_etag v, lastModified := v_lastModified v\<rparr>,
                           logs := logs s2 @ [logged Info ''fetcher: blocklist refreshed''
                                     [(''prefixes'', AInt (Len t))]]\<rparr>))))"

end
