(* ===== verification/Scheduler.thy ===== *)
theory Scheduler
  imports Go_Text
begin

text \<open>
  \<open>internal/scheduler/scheduler.go\<close>: the retry policy and its backoff on 64-bit durations, the
  cold-start loop and \<open>Run\<close>. The refresh, the readiness test, the sleep and the cancellation of
  the context are arguments; a run is the list of events it makes and the final state.
\<close>

unbundle bit_operations_syntax

section \<open>Policy and options\<close>

record retry_policy =
  MaxAttempts :: int
  BaseDelay :: duration
  MaxDelay :: duration

definition defaultColdStartMaxAttempts :: int where "defaultColdStartMaxAttempts = 8"
definition defaultColdStartBaseDelay :: duration where "defaultColdStartBaseDelay = 2 * second"
definition defaultColdStartMaxDelay :: duration where "defaultColdStartMaxDelay = 5 * minute"

definition withDefaults :: "retry_policy \<Rightarrow> retry_policy" where
  "withDefaults p =
     (let p1 = (if MaxAttempts p \<le> 0 then p\<lparr>MaxAttempts := defaultColdStartMaxAttempts\<rparr> else p);
          p2 = (if duration_le (BaseDelay p1) 0 then p1\<lparr>BaseDelay := defaultColdStartBaseDelay\<rparr> else p1)
      in if duration_le (MaxDelay p2) 0 then p2\<lparr>MaxDelay := defaultColdStartMaxDelay\<rparr> else p2)"

definition zero_policy :: retry_policy where
  "zero_policy = \<lparr>MaxAttempts = 0, BaseDelay = 0, MaxDelay = 0\<rparr>"

text \<open>
  A refresh gets its deadline and the number of the call; the state it works on is the daemon's.
  Whether a function or the logger was given at all is an option, as a nil check reads it.
\<close>

type_synonym 's refresh_func = "duration \<Rightarrow> nat \<Rightarrow> 's \<Rightarrow> go_error option \<times> 's"

record 's scheduler_options =
  so_Schedule :: string
  so_Timeout :: duration
  so_Refresh :: "'s refresh_func option"
  so_Ready :: "('s \<Rightarrow> bool) option"
  so_has_Logger :: bool
  so_ColdStart :: retry_policy

record 's scheduler =
  schedule :: string
  timeout :: duration
  refresh :: "'s refresh_func"
  ready :: "'s \<Rightarrow> bool"
  coldStart :: retry_policy

definition newScheduler :: "'s scheduler_options \<Rightarrow> 's scheduler result" where
  "newScheduler opts =
     (if so_Schedule opts = '''' then Inl (New_error ''scheduler: Schedule is required'')
      else if duration_le (so_Timeout opts) 0 then Inl (New_error ''scheduler: Timeout must be positive'')
      else
        (case so_Refresh opts of
           None \<Rightarrow> Inl (New_error ''scheduler: Refresh is required'')
         | Some rf \<Rightarrow>
            (case so_Ready opts of
               None \<Rightarrow> Inl (New_error ''scheduler: Ready is required'')
             | Some rd \<Rightarrow>
                if \<not> so_has_Logger opts then Inl (New_error ''scheduler: Logger is required'')
                else Inr \<lparr>schedule = so_Schedule opts, timeout = so_Timeout opts, refresh = rf,
                  ready = rd, coldStart = withDefaults (so_ColdStart opts)\<rparr>)))"

section \<open>Backoff\<close>

definition backoff :: "retry_policy \<Rightarrow> nat \<Rightarrow> duration" where
  "backoff p attempt =
     (if 62 \<le> attempt then MaxDelay p
      else
        (let d = push_bit attempt (BaseDelay p) in
         if duration_le d 0 \<or> duration_less (MaxDelay p) d then MaxDelay p else d))"

section \<open>The cold start\<close>

datatype sched_event =
    Attempt "go_error option"
  | Sleep duration
  | Log log_record

text \<open>
  What the context and the clock do: whether \<open>ctx.Err()\<close> is set before the \<open>k\<close>-th attempt, and
  what the sleep after it returns.
\<close>

record ctx_env =
  ctx_done :: "nat \<Rightarrow> bool"
  sleep_err :: "nat \<Rightarrow> go_error option"

definition refreshOnce :: "'s scheduler \<Rightarrow> nat \<Rightarrow> 's \<Rightarrow> go_error option \<times> 's" where
  "refreshOnce sch k s = refresh sch (timeout sch) k s"

function cold_loop :: "'s scheduler \<Rightarrow> ctx_env \<Rightarrow> nat \<Rightarrow> 's \<Rightarrow> sched_event list \<times> 's" where
  "cold_loop sch env attempt s =
     (if ctx_done env attempt then ([], s)
      else
        (let (err, s') = refreshOnce sch attempt s in
         case err of
           None \<Rightarrow> ([Attempt None], s')
         | Some e \<Rightarrow>
             if ready sch s' then
               ([Attempt err,
                 Log (logged Warn ''scheduler: initial refresh failed but a cached blocklist is active; relying on it until the next scheduled refresh''
                   [(''error'', AErr e)])], s')
             else if MaxAttempts (coldStart sch) \<le> int attempt + 1 then
               ([Attempt err,
                 Log (logged Error ''scheduler: cold-start retry budget exhausted; daemon stays fail-closed until the next scheduled refresh''
                   [(''attempts'', AInt (int attempt + 1)), (''error'', AErr e)])], s')
             else
               (let delay = backoff (coldStart sch) attempt;
                    step = [Attempt err,
                      Log (logged Warn ''scheduler: cold-start fetch failed; retrying''
                        [(''attempt'', AInt (int attempt + 1)), (''retry_in'', AStr (duration_string delay)),
                         (''error'', AErr e)]),
                      Sleep delay] in
                case sleep_err env attempt of
                  Some _ \<Rightarrow> (step, s')
                | None \<Rightarrow> (let (es, s'') = cold_loop sch env (attempt + 1) s' in (step @ es, s'')))))"
  by pat_completeness auto
termination
  by (relation "measure (\<lambda>(sch, env, attempt, s). nat (MaxAttempts (coldStart sch) - int attempt))") auto

declare cold_loop.simps [simp del]

definition runColdStart :: "'s scheduler \<Rightarrow> ctx_env \<Rightarrow> 's \<Rightarrow> sched_event list \<times> 's" where
  "runColdStart sch env s = cold_loop sch env 0 s"

section \<open>Run\<close>

text \<open>
  The scheduled refreshes the cron package runs before it is stopped, one after the other: it
  skips a tick that finds the last one still running. The \<open>k\<close>-th call of the refresh is given
  its number.
\<close>

fun cron_jobs :: "'s scheduler \<Rightarrow> nat \<Rightarrow> nat \<Rightarrow> 's \<Rightarrow> sched_event list \<times> 's" where
  "cron_jobs sch k 0 s = ([], s)"
| "cron_jobs sch k (Suc n) s =
     (let (err, s') = refreshOnce sch k s;
          l = (case err of
                 None \<Rightarrow> []
               | Some e \<Rightarrow> [Log (logged Warn ''scheduler: scheduled refresh failed; retaining active blocklist''
                                [(''error'', AErr e)])]);
          (es, s'') = cron_jobs sch (k + 1) n s'
      in (Attempt err # l @ es, s''))"

fun attempts :: "sched_event list \<Rightarrow> nat" where
  "attempts [] = 0"
| "attempts (Attempt _ # es) = Suc (attempts es)"
| "attempts (_ # es) = attempts es"

text \<open>
  \<open>add_cron\<close> is the cron package's parser on the schedule, \<open>done\<close> whether the context was
  cancelled during the cold start, \<open>ticks\<close> the number of scheduled refreshes before it was.
\<close>

definition scheduler_Run ::
  "(string \<Rightarrow> go_error option) \<Rightarrow> 's scheduler \<Rightarrow> ctx_env \<Rightarrow> bool \<Rightarrow> nat \<Rightarrow> 's
     \<Rightarrow> go_error option \<times> sched_event list \<times> 's" where
  "scheduler_Run add_cron sch env cancelled ticks s =
     (let (es, s1) = runColdStart sch env s in
      if cancelled then (None, es, s1)
      else
        (case add_cron (schedule sch) of
           Some err \<Rightarrow> (Some (Wrapf ''scheduler: add cron job %q: %w'' [FStr (schedule sch)] err), es, s1)
         | None \<Rightarrow>
             (let (cs, s2) = cron_jobs sch (attempts es) ticks s1 in
              (None,
               es @ Log (logged Info ''scheduler: started'' [(''schedule'', AStr (schedule sch))])
                 # cs @ [Log (logged Info ''scheduler: stopped'' [])],
               s2))))"

end
