(* ===== verification/Readiness.thy ===== *)
theory Readiness
  imports Go_IO Netip Config
begin

text \<open>
  \<open>internal/server/readiness.go\<close>: the readiness predicate and the tracker that turns it into log
  signals and counters. First each method as a function on the tracker, for a caller that runs
  alone; then \<open>observe\<close> and its companions as the atomic steps of many goroutines.
\<close>

section \<open>The predicate\<close>

text \<open>
  The interface \<open>Lookup\<close>: its two methods, \<open>Contains\<close> \<open>None\<close> when it panics. A nil interface
  is \<open>None\<close>.
\<close>

record lookup =
  lk_Contains :: "addr \<Rightarrow> bool option"
  lk_Len :: int

definition usable :: "lookup option \<Rightarrow> bool" where
  "usable l = (case l of None \<Rightarrow> False | Some k \<Rightarrow> 0 < lk_Len k)"

definition servingEnforcing :: string where "servingEnforcing = ''enforcing''"
definition servingDenyAll :: string where "servingDenyAll = ''deny-all''"
definition servingAllowAll :: string where "servingAllowAll = ''allow-all''"

definition causeNeverReady :: string where
  "causeNeverReady = ''no successful fetch since start''"

text \<open>The text has an em dash, whose three bytes are written out.\<close>

definition em_dash :: string where
  "em_dash = [char_of (0xE2 :: nat), char_of (0x80 :: nat), char_of (0x94 :: nat)]"

definition causeReadyThenEmpty :: string where
  "causeReadyThenEmpty = ''blocklist loaded but matched no configured countries '' @ em_dash
     @ '' check block.countries''"

section \<open>The tracker\<close>

record readiness =
  r_usable :: bool
  everReady :: bool
  unusableSince :: i64
  failOpenTotal :: u64
  failOpenSinceHeartbeat :: u64
  failOpenAtWindowStart :: u64
  r_mode :: StartupMode

definition newReadiness :: "StartupMode \<Rightarrow> readiness" where
  "newReadiness mode =
     \<lparr>r_usable = True, everReady = False, unusableSince = 0, failOpenTotal = 0,
      failOpenSinceHeartbeat = 0, failOpenAtWindowStart = 0, r_mode = mode\<rparr>"

definition failOpen :: "readiness \<Rightarrow> bool" where
  "failOpen t \<longleftrightarrow> r_mode t = StartupFailOpen"

definition serving :: "readiness \<Rightarrow> bool \<Rightarrow> string" where
  "serving t u = (if u then servingEnforcing else if failOpen t then servingAllowAll else servingDenyAll)"

text \<open>The clock is read by the caller: \<open>now\<close> is what \<open>t.now()\<close> returns in the call.\<close>

definition windowSince :: "instant \<Rightarrow> readiness \<Rightarrow> duration" where
  "windowSince now t =
     (if unusableSince t = 0 then 0 else time_sub now (sint (unusableSince t)))"

definition windowDuration :: "instant \<Rightarrow> readiness \<Rightarrow> string" where
  "windowDuration now t = duration_string (duration_round (windowSince now t) second)"

definition unusable_msg :: "readiness \<Rightarrow> string" where
  "unusable_msg t =
     (if failOpen t then ''check: blocklist unusable; ALLOWING ALL REQUESTS (startup_mode=fail-open)''
      else ''check: blocklist unusable; denying all requests'')"

definition emitUnusable :: "instant \<Rightarrow> readiness \<Rightarrow> log_record list \<times> readiness" where
  "emitUnusable now t =
     (let t' = t\<lparr>unusableSince := unix_nano now, failOpenAtWindowStart := failOpenTotal t,
                 failOpenSinceHeartbeat := 0\<rparr> in
      ([logged Error (unusable_msg t')
          [(''startup_mode'', AStr (r_mode t')), (''ever_ready'', ABool (everReady t')),
           (''serving'', AStr (serving t' False))]],
       t'))"

definition recovered_msg :: string where
  "recovered_msg = ''check: blocklist now usable; normal enforcement resumed''"

definition lookup_Len :: "lookup option \<Rightarrow> int" where
  "lookup_Len l = (case l of None \<Rightarrow> 0 | Some k \<Rightarrow> lk_Len k)"

definition emitRecovered :: "instant \<Rightarrow> lookup option \<Rightarrow> readiness \<Rightarrow> log_record list \<times> readiness" where
  "emitRecovered now l t =
     (let base = [(''unusable_for'', AStr (windowDuration now t)), (''prefixes'', AInt (lookup_Len l))];
          attrs = (if failOpen t
                   then base @ [(''failopen_allowed_total_window'', AUint (failOpenTotal t - failOpenAtWindowStart t))]
                   else base)
      in ([logged Info recovered_msg attrs], t\<lparr>unusableSince := 0\<rparr>))"

definition observe :: "instant \<Rightarrow> lookup option \<Rightarrow> readiness \<Rightarrow> bool \<times> log_record list \<times> readiness" where
  "observe now l t =
     (let u = usable l;
          t1 = (if u \<and> \<not> everReady t then t\<lparr>everReady := True\<rparr> else t) in
      if r_usable t1 = u then (u, [], t1)
      else
        (let (ls, t2) = (if u then emitRecovered now l t1 else emitUnusable now t1)
         in (u, ls, t2\<lparr>r_usable := u\<rparr>)))"

definition still_unusable_msg :: string where
  "still_unusable_msg = ''check: blocklist still unusable''"

text \<open>\<open>now\<close> is the clock in \<open>observe\<close>, \<open>now'\<close> the clock in the report.\<close>

definition heartbeat :: "instant \<Rightarrow> instant \<Rightarrow> lookup option \<Rightarrow> readiness \<Rightarrow> log_record list \<times> readiness" where
  "heartbeat now now' l t =
     (let (u, ls, t1) = observe now l t in
      if u then (ls, t1)
      else
        (let cause = (if everReady t1 then causeReadyThenEmpty else causeNeverReady);
             base = [(''startup_mode'', AStr (r_mode t1)), (''serving'', AStr (serving t1 False)),
                     (''ever_ready'', ABool (everReady t1)), (''unusable_for'', AStr (windowDuration now' t1))];
             (attrs, t2) =
               (if failOpen t1
                then (base @ [(''failopen_allowed_total'', AUint (failOpenTotal t1)),
                              (''failopen_allowed_since_last'', AUint (failOpenSinceHeartbeat t1))],
                      t1\<lparr>failOpenSinceHeartbeat := 0\<rparr>)
                else (base, t1))
         in (ls @ [logged Error still_unusable_msg (attrs @ [(''likely_cause'', AStr cause)])], t2)))"

definition countFailOpenAllow :: "readiness \<Rightarrow> readiness" where
  "countFailOpenAllow t =
     t\<lparr>failOpenTotal := failOpenTotal t + 1, failOpenSinceHeartbeat := failOpenSinceHeartbeat t + 1\<rparr>"

section \<open>Many goroutines\<close>

text \<open>
  Where a goroutine stands in a call. In \<open>observe\<close>: before the test of \<open>everReady\<close>, before its
  store, before the test of \<open>usable\<close>, waiting for the mutex, holding it before the second test.
  In \<open>emitUnusable\<close>: after the start of the window was stored, after the count at its start was,
  after the count since the heartbeat was cleared. In \<open>emitRecovered\<close>: after the attributes were
  read. In both: with the record to log, and after it was logged. In the report of \<open>heartbeat\<close>:
  with \<open>everReady\<close> read, with the window read too, with the total read too, with the record to
  log. In \<open>countFailOpenAllow\<close>: between its two additions. A step is one access to a variable that
  the mutex does not protect, with what it does to local and to protected ones.
\<close>

datatype place =
    Idle
  | Entered "lookup option"
  | Latching "lookup option"
  | Testing "lookup option"
  | Waiting "lookup option"
  | Locked "lookup option"
  | Opening "lookup option"
  | Clearing "lookup option"
  | Composing "lookup option"
  | Closing "lookup option" log_record
  | Announcing "lookup option" log_record
  | Signalled "lookup option"
  | Beat_since bool
  | Beat_total bool string
  | Beat_swap bool string u64
  | Beat_log log_record
  | Counting

record tracker =
  shared :: readiness
  holder :: "nat option"
  places :: "nat \<Rightarrow> place"
  out :: "log_record list"

definition at :: "nat \<Rightarrow> place \<Rightarrow> tracker \<Rightarrow> tracker" where
  "at i p s = s\<lparr>places := (places s)(i := p)\<rparr>"

definition start_tracker :: "StartupMode \<Rightarrow> tracker" where
  "start_tracker mode = \<lparr>shared = newReadiness mode, holder = None, places = (\<lambda>_. Idle), out = []\<rparr>"

text \<open>The record of the recurring report, from the values it was read from.\<close>

definition beat_record :: "readiness \<Rightarrow> bool \<Rightarrow> string \<Rightarrow> (string \<times> attr_value) list \<Rightarrow> log_record" where
  "beat_record t ever window counts =
     logged Error still_unusable_msg
       ([(''startup_mode'', AStr (r_mode t)), (''serving'', AStr (serving t False)),
         (''ever_ready'', ABool ever), (''unusable_for'', AStr window)] @ counts
        @ [(''likely_cause'', AStr (if ever then causeReadyThenEmpty else causeNeverReady))])"

text \<open>The steps of goroutine \<open>i\<close>.\<close>

inductive observe_step :: "nat \<Rightarrow> tracker \<Rightarrow> tracker \<Rightarrow> bool" for i where
  enter: "places s i = Idle \<Longrightarrow> observe_step i s (at i (Entered l) s)"
| see_ever: "places s i = Entered l \<Longrightarrow>
    observe_step i s (at i (if usable l \<and> \<not> everReady (shared s) then Latching l else Testing l) s)"
| latch: "places s i = Latching l \<Longrightarrow>
    observe_step i s (at i (Testing l) (s\<lparr>shared := (shared s)\<lparr>everReady := True\<rparr>\<rparr>))"
| test: "places s i = Testing l \<Longrightarrow>
    observe_step i s (at i (if r_usable (shared s) = usable l then Idle else Waiting l) s)"
| lock: "places s i = Waiting l \<Longrightarrow> holder s = None \<Longrightarrow>
    observe_step i s (at i (Locked l) (s\<lparr>holder := Some i\<rparr>))"
| retest: "places s i = Locked l \<Longrightarrow> r_usable (shared s) = usable l \<Longrightarrow>
    observe_step i s (at i Idle (s\<lparr>holder := None\<rparr>))"
| recover: "places s i = Locked l \<Longrightarrow> r_usable (shared s) \<noteq> usable l \<Longrightarrow> usable l \<Longrightarrow>
    fst (emitRecovered now l (shared s)) = [r] \<Longrightarrow>
    observe_step i s (at i (Closing l r) s)"
| close_window: "places s i = Closing l r \<Longrightarrow>
    observe_step i s (at i (Announcing l r) (s\<lparr>shared := (shared s)\<lparr>unusableSince := 0\<rparr>\<rparr>))"
| open_window: "places s i = Locked l \<Longrightarrow> r_usable (shared s) \<noteq> usable l \<Longrightarrow> \<not> usable l \<Longrightarrow>
    observe_step i s (at i (Opening l) (s\<lparr>shared := (shared s)\<lparr>unusableSince := unix_nano now\<rparr>\<rparr>))"
| snapshot_total: "places s i = Opening l \<Longrightarrow>
    observe_step i s (at i (Clearing l)
      (s\<lparr>shared := (shared s)\<lparr>failOpenAtWindowStart := failOpenTotal (shared s)\<rparr>\<rparr>))"
| clear_since: "places s i = Clearing l \<Longrightarrow>
    observe_step i s (at i (Composing l) (s\<lparr>shared := (shared s)\<lparr>failOpenSinceHeartbeat := 0\<rparr>\<rparr>))"
| compose: "places s i = Composing l \<Longrightarrow>
    observe_step i s (at i (Announcing l (logged Error (unusable_msg (shared s))
      [(''startup_mode'', AStr (r_mode (shared s))), (''ever_ready'', ABool (everReady (shared s))),
       (''serving'', AStr (serving (shared s) False))])) s)"
| announce: "places s i = Announcing l r \<Longrightarrow>
    observe_step i s (at i (Signalled l) (s\<lparr>out := out s @ [r]\<rparr>))"
| store: "places s i = Signalled l \<Longrightarrow>
    observe_step i s (at i Idle (s\<lparr>shared := (shared s)\<lparr>r_usable := usable l\<rparr>, holder := None\<rparr>))"
| count: "places s i = Idle \<Longrightarrow>
    observe_step i s (at i Counting (s\<lparr>shared := (shared s)\<lparr>failOpenTotal := failOpenTotal (shared s) + 1\<rparr>\<rparr>))"
| count_since: "places s i = Counting \<Longrightarrow>
    observe_step i s (at i Idle
      (s\<lparr>shared := (shared s)\<lparr>failOpenSinceHeartbeat := failOpenSinceHeartbeat (shared s) + 1\<rparr>\<rparr>))"
| beat_ever: "places s i = Idle \<Longrightarrow> observe_step i s (at i (Beat_since (everReady (shared s))) s)"
| beat_since: "places s i = Beat_since e \<Longrightarrow>
    observe_step i s (at i (Beat_total e (windowDuration now (shared s))) s)"
| beat_closed: "places s i = Beat_total e w \<Longrightarrow> \<not> failOpen (shared s) \<Longrightarrow>
    observe_step i s (at i (Beat_log (beat_record (shared s) e w [])) s)"
| beat_total: "places s i = Beat_total e w \<Longrightarrow> failOpen (shared s) \<Longrightarrow>
    observe_step i s (at i (Beat_swap e w (failOpenTotal (shared s))) s)"
| beat_swap: "places s i = Beat_swap e w n \<Longrightarrow>
    observe_step i s (at i (Beat_log (beat_record (shared s) e w
        [(''failopen_allowed_total'', AUint n),
         (''failopen_allowed_since_last'', AUint (failOpenSinceHeartbeat (shared s)))]))
      (s\<lparr>shared := (shared s)\<lparr>failOpenSinceHeartbeat := 0\<rparr>\<rparr>))"
| beat_log: "places s i = Beat_log r \<Longrightarrow> observe_step i s (at i Idle (s\<lparr>out := out s @ [r]\<rparr>))"

inductive reachable_tracker :: "StartupMode \<Rightarrow> tracker \<Rightarrow> bool" for mode where
  start: "reachable_tracker mode (start_tracker mode)"
| go: "reachable_tracker mode s \<Longrightarrow> observe_step i s s' \<Longrightarrow> reachable_tracker mode s'"

end
