(* ===== verification/Mux.thy ===== *)
theory Mux
  imports Client_IP Go_IO
begin

text \<open>
  Requests and responses, and what the server uses of \<open>net/http\<close>: \<open>http.ServeMux\<close> with the two
  patterns \<open>/check\<close> and \<open>/healthz\<close>, \<open>http.Redirect\<close> and \<open>http.Error\<close>.
\<close>

section \<open>Requests and responses\<close>

text \<open>
  Of a request: the method, \<open>URL.EscapedPath()\<close>, which is the path the mux works on, the query as
  it was sent, the authority (of a CONNECT request, else empty), whether the protocol is HTTP/1.1
  or later, and the header. The request target \<open>*\<close> has the path \<open>*\<close>, or the authority \<open>*\<close>.
\<close>

record request =
  http_method :: string
  url_path :: string
  raw_query :: string
  url_host :: string
  proto_1_1 :: bool
  headers :: header

record response =
  code :: int
  resp_headers :: header
  body :: string

definition write_header :: "int \<Rightarrow> response" where
  "write_header c = \<lparr>code = c, resp_headers = Map.empty, body = ''''\<rparr>"

section \<open>Paths\<close>

text \<open>
  \<open>cleanPath\<close> of \<open>net/http\<close>: a rooted path without empty and dot elements, its trailing slash
  kept.
\<close>

definition clean_url_path :: "string \<Rightarrow> string" where
  "clean_url_path p =
     (if p = '''' then ''/''
      else
        (let q = (if hd p \<noteq> CHR ''/'' then CHR ''/'' # p else p);
             c = filepath_clean q
         in if last q = CHR ''/'' \<and> c \<noteq> ''/'' then c @ ''/'' else c))"

text \<open>\<open>url.PathUnescape\<close>.\<close>

fun path_unescape :: "string \<Rightarrow> string option" where
  "path_unescape [] = Some []"
| "path_unescape (c # cs) =
     (if c = CHR ''%'' then
        (case cs of
           a # b # ds \<Rightarrow>
             (case (hex_val a, hex_val b) of
                (Some m, Some n) \<Rightarrow> map_option (Cons (char_of (16 * m + n))) (path_unescape ds)
              | _ \<Rightarrow> None)
         | _ \<Rightarrow> None)
      else map_option (Cons c) (path_unescape cs))"

text \<open>
  A pattern of one literal segment: the path is that one segment, unescaped where it can be.
\<close>

definition segment_is :: "string \<Rightarrow> string \<Rightarrow> bool" where
  "segment_is name p \<longleftrightarrow> p \<noteq> '''' \<and> p \<noteq> ''/'' \<and> CHR ''/'' \<notin> set (tl p)
     \<and> (case path_unescape (tl p) of None \<Rightarrow> tl p | Some s \<Rightarrow> s) = name"

section \<open>Routing\<close>

datatype route = Check | Healthz | Moved string | Not_found | Bad_request

text \<open>
  The target \<open>*\<close> is refused. For every method but CONNECT a path that is not clean is redirected;
  any other path than the two has no handler.
\<close>

definition mux_route :: "request \<Rightarrow> route" where
  "mux_route r =
     (let p = url_path r; c = clean_url_path p in
      if p = ''*'' \<or> http_method r = ''CONNECT'' \<and> p = '''' \<and> url_host r = ''*'' then Bad_request
      else if http_method r \<noteq> ''CONNECT'' \<and> c \<noteq> p then Moved c
      else if segment_is ''check'' p then Check
      else if segment_is ''healthz'' p then Healthz
      else Not_found)"

section \<open>Answers of the library\<close>

definition bad_request :: "request \<Rightarrow> response" where
  "bad_request r =
     \<lparr>code = 400, resp_headers = (if proto_1_1 r then [''Connection'' \<mapsto> [''close'']] else Map.empty), body = ''''\<rparr>"

text \<open>\<open>http.Error\<close>: two headers, the message and a newline.\<close>

definition http_Error :: "header \<Rightarrow> string \<Rightarrow> int \<Rightarrow> response" where
  "http_Error h message c =
     \<lparr>code = c,
      resp_headers = h(''Content-Type'' \<mapsto> [''text/plain; charset=utf-8''], ''X-Content-Type-Options'' \<mapsto> [''nosniff'']),
      body = message @ [CHR 0x0A]\<rparr>"

definition not_found :: response where
  "not_found = http_Error Map.empty ''404 page not found'' 404"

text \<open>The handlers' answer to another method: \<open>Allow\<close> is set, then an empty error message.\<close>

definition method_not_allowed :: response where
  "method_not_allowed = http_Error [''Allow'' \<mapsto> [''GET'']] '''' 405"

text \<open>
  \<open>URL.String\<close> of a rooted path and a query: in the path everything is escaped but letters, digits
  and a few marks. The escaped path of the request is escaped once more, as the mux does it.
\<close>

definition path_plain :: "char \<Rightarrow> bool" where
  "path_plain c \<longleftrightarrow>
     (let n = (of_char c :: nat) in
      48 \<le> n \<and> n \<le> 57 \<or> 65 \<le> n \<and> n \<le> 90 \<or> 97 \<le> n \<and> n \<le> 122 \<or> c \<in> set ''-_.~$&+,/:;=@'')"

definition upper_hex_char :: "nat \<Rightarrow> char" where
  "upper_hex_char d = (if d < 10 then char_of (48 + d) else char_of (55 + d))"

definition path_escape :: "string \<Rightarrow> string" where
  "path_escape p =
     concat (map (\<lambda>c. if path_plain c then [c]
                      else [CHR ''%'', upper_hex_char (of_char c div 16), upper_hex_char (of_char c mod 16)]) p)"

definition url_string :: "string \<Rightarrow> string \<Rightarrow> string" where
  "url_string p q = path_escape p @ (if q = '''' then '''' else CHR ''?'' # q)"

definition hexEscapeNonASCII :: "string \<Rightarrow> string" where
  "hexEscapeNonASCII s =
     concat (map (\<lambda>c. if of_char c < (128 :: nat) then [c]
                      else [CHR ''%'', hex_char (of_char c div 16), hex_char (of_char c mod 16)]) s)"

definition htmlEscape :: "string \<Rightarrow> string" where
  "htmlEscape s =
     concat (map (\<lambda>c. if c = CHR ''&'' then ''&amp;'' else if c = CHR ''<'' then ''&lt;''
                      else if c = CHR ''>'' then ''&gt;'' else if c = CHR 0x22 then ''&#34;''
                      else if c = CHR 0x27 then ''&#39;'' else [c]) s)"

text \<open>
  \<open>http.Redirect\<close> to a clean path with the query of the request: the target in \<open>Location\<close>, a
  content type for GET and HEAD, and the page for GET. (It cleans the target again, which is clean.)
\<close>

definition moved :: "request \<Rightarrow> string \<Rightarrow> response" where
  "moved r p =
     (let u = url_string p (raw_query r);
          h = [''Location'' \<mapsto> [hexEscapeNonASCII u]] in
      \<lparr>code = 301,
       resp_headers =
         (if http_method r \<in> {''GET'', ''HEAD''}
          then h(''Content-Type'' \<mapsto> [''text/html; charset=utf-8'']) else h),
       body =
         (if http_method r = ''GET''
          then ''<a href='' @ [CHR 0x22] @ htmlEscape u @ [CHR 0x22] @ ''>Moved Permanently</a>.'' @ [CHR 0x0A, CHR 0x0A]
          else '''')\<rparr>)"

section \<open>The two endpoints\<close>

lemma clean_endpoints:
  "clean_url_path ''/check'' = ''/check''" "clean_url_path ''/healthz'' = ''/healthz''"
  by (simp_all add: clean_url_path_def filepath_clean_def Let_def)

lemma segment_endpoints:
  "segment_is ''check'' ''/check''" "\<not> segment_is ''check'' ''/healthz''" "segment_is ''healthz'' ''/healthz''"
  by (simp_all add: segment_is_def)

lemma mux_route_check: "url_path r = ''/check'' \<Longrightarrow> mux_route r = Check"
  by (simp add: mux_route_def clean_endpoints segment_endpoints)

lemma mux_route_healthz: "url_path r = ''/healthz'' \<Longrightarrow> mux_route r = Healthz"
  by (simp add: mux_route_def clean_endpoints segment_endpoints)

text \<open>Other spellings: an escaped letter is the endpoint, a doubled slash is redirected.\<close>

lemma mux_route_examples:
  "url_path r = ''/%63heck'' \<Longrightarrow> mux_route r = Check"
  "url_path r = ''//check'' \<Longrightarrow> http_method r = ''GET'' \<Longrightarrow> mux_route r = Moved ''/check''"
  "url_path r = ''/check/'' \<Longrightarrow> mux_route r = Not_found"
  "url_path r = ''*'' \<Longrightarrow> mux_route r = Bad_request"
  by (simp_all add: mux_route_def segment_is_def clean_url_path_def filepath_clean_def Let_def hex_val_def char_of_def bit_0)

lemma moved_example:
  "http_method r = ''GET'' \<Longrightarrow> raw_query r = ''a=1&b'' \<Longrightarrow>
     resp_headers (moved r ''/x y'') ''Location'' = Some [''/x%20y?a=1&b'']
     \<and> body (moved r ''/x y'') = ''<a href='' @ [CHR 0x22] @ ''/x%20y?a=1&amp;b'' @ [CHR 0x22] @ ''>Moved Permanently</a>.'' @ [CHR 0x0A, CHR 0x0A]"
  by (simp add: moved_def url_string_def path_escape_def path_plain_def upper_hex_char_def hexEscapeNonASCII_def
      htmlEscape_def Let_def char_of_def bit_0)

end
