(* ===== verification/Server.thy ===== *)
theory Server
  imports Readiness Mux Logging
begin

text \<open>
  \<open>internal/server/server.go\<close>: the constructor, the two
  handlers behind the mux, the heartbeat loop and \<open>Run\<close>. A handler is given the one lookup it reads, the clock
  and the tracker, and returns the response, the log lines that reach the writer and the tracker;
  \<open>None\<close> is a panic of the lookup.
\<close>

section \<open>The server\<close>

record server_options =
  sv_Addr :: string
  sv_has_Lookup :: bool
  sv_Logger :: "logger option"
  sv_BlockStatus :: int
  sv_LogBlocked :: bool
  sv_LogAllowed :: bool
  sv_StartupMode :: StartupMode

record server =
  addr_of :: string
  logger_of :: logger
  blockStatus :: int
  logBlocked :: bool
  logAllowed :: bool

text \<open>The tracker is the mutable part of the server, so it is returned beside it.\<close>

definition server_New :: "server_options \<Rightarrow> (server \<times> readiness) result" where
  "server_New opts =
     (if sv_Addr opts = '''' then Inl (New_error ''server: Addr is required'')
      else if \<not> sv_has_Lookup opts then Inl (New_error ''server: Lookup is required'')
      else
        (case sv_Logger opts of
           None \<Rightarrow> Inl (New_error ''server: Logger is required'')
         | Some lg \<Rightarrow>
             if sv_BlockStatus opts < 400 \<or> 599 < sv_BlockStatus opts then
               Inl (Errorf ''server: BlockStatus must be 4xx/5xx, got %d'' [FInt (sv_BlockStatus opts)])
             else if sv_StartupMode opts \<noteq> StartupFailClosed \<and> sv_StartupMode opts \<noteq> StartupFailOpen then
               Inl (Errorf ''server: StartupMode must be %q or %q, got %q''
                 [FStr StartupFailClosed, FStr StartupFailOpen, FStr (sv_StartupMode opts)])
             else
               Inr (\<lparr>addr_of = sv_Addr opts, logger_of = lg, blockStatus = sv_BlockStatus opts,
                     logBlocked = sv_LogBlocked opts, logAllowed = sv_LogAllowed opts\<rparr>,
                    newReadiness (sv_StartupMode opts))))"

definition AddrFromConfig :: "ListenConfig \<Rightarrow> string" where
  "AddrFromConfig c = join_host_port (host c) (int_dec (port c))"

section \<open>/check\<close>

text \<open>The tracker logs with the server's logger, the handler with the one of the context.\<close>

definition handleCheck ::
  "server \<Rightarrow> ctx \<Rightarrow> instant \<Rightarrow> lookup option \<Rightarrow> request \<Rightarrow> readiness
     \<Rightarrow> (response \<times> log_record list \<times> readiness) option" where
  "handleCheck sv ctx now l r t =
     (if http_method r \<noteq> ''GET'' then Some (method_not_allowed, [], t)
      else
        (let logger = FromContext ctx;
             (u, ls, t1) = observe now l t;
             lines = emitted (logger_of sv) ls in
         if \<not> u then
           (if failOpen t1 then Some (write_header 200, lines, countFailOpenAllow t1)
            else Some (write_header (blockStatus sv), lines, t1))
         else
           (case extractClientIP (headers r) of
              None \<Rightarrow>
                Some (write_header (blockStatus sv),
                  lines @ emitted logger [logged Warn ''check: fail-closed (unparseable client IP)''
                    [(''x_real_ip_present'', ABool (header_get (headers r) headerXRealIP \<noteq> '''')),
                     (''x_forwarded_for_present'', ABool (header_get (headers r) headerXForwardedFor \<noteq> ''''))]],
                  t1)
            | Some a \<Rightarrow>
                (case l of
                   None \<Rightarrow> None
                 | Some k \<Rightarrow>
                     (case lk_Contains k a of
                        None \<Rightarrow> None
                      | Some True \<Rightarrow>
                          Some (write_header (blockStatus sv),
                            lines @ (if logBlocked sv
                              then emitted logger [logged Info ''check: blocked''
                                     [(''client_ip_redacted'', AStr (Redact (addr_string a)))]]
                              else []),
                            t1)
                      | Some False \<Rightarrow>
                          Some (write_header 200,
                            lines @ (if logAllowed sv
                              then emitted logger [logged Debug ''check: allowed''
                                     [(''client_ip_redacted'', AStr (Redact (addr_string a)))]]
                              else []),
                            t1))))))"

section \<open>/healthz\<close>

record healthzResponse =
  hz_Status :: string
  hz_Serving :: string
  hz_EverReady :: bool
  hz_Prefixes :: "int option"
  hz_EmptyForSeconds :: "int option"

text \<open>
  \<open>encoding/json\<close> on the envelope: the fields in order, a nil pointer left out, a newline at the
  end. The strings are the program's own and need no escapes beyond the quotes.
\<close>

definition json_string :: "string \<Rightarrow> string" where
  "json_string s = CHR 0x22 # s @ [CHR 0x22]"

definition json_field :: "string \<Rightarrow> string \<Rightarrow> string" where
  "json_field k v = json_string k @ '':'' @ v"

definition json_bool :: "bool \<Rightarrow> string" where
  "json_bool b = (if b then ''true'' else ''false'')"

definition json_int_field :: "string \<Rightarrow> int option \<Rightarrow> string list" where
  "json_int_field k v = (case v of None \<Rightarrow> [] | Some n \<Rightarrow> [json_field k (int_dec n)])"

definition healthz_json :: "healthzResponse \<Rightarrow> string" where
  "healthz_json h =
     ''{'' @ join_with CHR '',''
       ([json_field ''status'' (json_string (hz_Status h)),
         json_field ''serving'' (json_string (hz_Serving h)),
         json_field ''ever_ready'' (json_bool (hz_EverReady h))]
        @ json_int_field ''prefixes'' (hz_Prefixes h)
        @ json_int_field ''empty_for_seconds'' (hz_EmptyForSeconds h))
     @ ''}'' @ [CHR 0x0A]"

text \<open>\<open>now\<close> is the clock in \<open>observe\<close>, \<open>now'\<close> the clock in \<open>windowSince\<close>.\<close>

definition handleHealthz ::
  "server \<Rightarrow> instant \<Rightarrow> instant \<Rightarrow> lookup option \<Rightarrow> request \<Rightarrow> readiness
     \<Rightarrow> response \<times> log_record list \<times> readiness" where
  "handleHealthz sv now now' l r t =
     (if http_method r \<noteq> ''GET'' then (method_not_allowed, [], t)
      else
        (let (u, ls, t1) = observe now l t;
             hs = [''Content-Type'' \<mapsto> [''application/json'']] in
         if \<not> u then
           (let emptyFor = go_quot (sint (windowSince now' t1)) (sint second) in
            (\<lparr>code = 503, resp_headers = hs,
              body = healthz_json \<lparr>hz_Status = ''empty'', hz_Serving = serving t1 False,
                hz_EverReady = everReady t1, hz_Prefixes = None, hz_EmptyForSeconds = Some emptyFor\<rparr>\<rparr>,
             emitted (logger_of sv) ls, t1))
         else
           (\<lparr>code = 200, resp_headers = hs,
             body = healthz_json \<lparr>hz_Status = ''ok'', hz_Serving = servingEnforcing, hz_EverReady = True,
               hz_Prefixes = Some (lookup_Len l), hz_EmptyForSeconds = None\<rparr>\<rparr>,
            emitted (logger_of sv) ls, t1)))"

section \<open>The handler\<close>

text \<open>\<open>withRequestLogger\<close> puts the server's logger into the context of the request.\<close>

definition withRequestLogger :: "server \<Rightarrow> ctx \<Rightarrow> ctx" where
  "withRequestLogger sv ctx = WithContext ctx (logger_of sv)"

definition Handler ::
  "server \<Rightarrow> ctx \<Rightarrow> instant \<Rightarrow> instant \<Rightarrow> lookup option \<Rightarrow> request \<Rightarrow> readiness
     \<Rightarrow> (response \<times> log_record list \<times> readiness) option" where
  "Handler sv ctx now now' l r t =
     (case mux_route r of
        Check \<Rightarrow> handleCheck sv (withRequestLogger sv ctx) now l r t
      | Healthz \<Rightarrow> Some (handleHealthz sv now now' l r t)
      | Moved p \<Rightarrow> Some (moved r p, [], t)
      | Not_found \<Rightarrow> Some (not_found, [], t)
      | Bad_request \<Rightarrow> Some (bad_request r, [], t))"

section \<open>Serving\<close>

text \<open>
  What happens while the server runs, in the order in which it happens: a request, or a tick of
  the heartbeat's ticker, each with the clock and the lookup that the source yields then.
\<close>

datatype serve_event =
    Request instant instant "lookup option" request
  | Tick instant instant "lookup option"

text \<open>The loop handles the ticks; each one is a heartbeat.\<close>

definition heartbeat_tick ::
  "server \<Rightarrow> instant \<Rightarrow> instant \<Rightarrow> lookup option \<Rightarrow> readiness \<Rightarrow> log_record list \<times> readiness" where
  "heartbeat_tick sv now now' l t =
     (let (ls, t') = heartbeat now now' l t in (emitted (logger_of sv) ls, t'))"

fun serve ::
  "server \<Rightarrow> ctx \<Rightarrow> serve_event list \<Rightarrow> readiness
     \<Rightarrow> (response list \<times> log_record list \<times> readiness) option" where
  "serve sv ctx [] t = Some ([], [], t)"
| "serve sv ctx (Tick now now' l # es) t =
     (let (ls, t1) = heartbeat_tick sv now now' l t in
      case serve sv ctx es t1 of
        None \<Rightarrow> None
      | Some (rs, ms, t2) \<Rightarrow> Some (rs, ls @ ms, t2))"
| "serve sv ctx (Request now now' l r # es) t =
     (case Handler sv ctx now now' l r t of
        None \<Rightarrow> None
      | Some (resp, ls, t1) \<Rightarrow>
          (case serve sv ctx es t1 of
             None \<Rightarrow> None
           | Some (rs, ms, t2) \<Rightarrow> Some (resp # rs, ls @ ms, t2)))"

text \<open>
  How the run ends: the context was cancelled, with the result of the shutdown; or
  \<open>ListenAndServe\<close> returned first. \<open>listen_err\<close> is what \<open>ListenAndServe\<close> returned.
\<close>

datatype run_end =
    Cancelled "go_error option"
  | Listen_failed

definition listen_result :: "go_error \<Rightarrow> go_error option" where
  "listen_result err = (if errors_is err Http_ErrServerClosed then None else Some err)"

definition server_Run ::
  "server \<Rightarrow> ctx \<Rightarrow> instant \<Rightarrow> lookup option \<Rightarrow> serve_event list \<Rightarrow> run_end \<Rightarrow> go_error \<Rightarrow> readiness
     \<Rightarrow> (go_error option \<times> response list \<times> log_record list \<times> readiness) option" where
  "server_Run sv ctx now l es fin listen_err t =
     (let (u, ls, t1) = observe now l t;
          listening = emitted (logger_of sv) [logged Info ''server: listening'' [(''addr'', AStr (addr_of sv))]] in
      case serve sv ctx es t1 of
        None \<Rightarrow> None
      | Some (rs, ms, t2) \<Rightarrow>
          Some
            ((case fin of
                Cancelled (Some err) \<Rightarrow> Some (Wrapf ''server: shutdown: %w'' [] err)
              | Cancelled None \<Rightarrow> listen_result listen_err
              | Listen_failed \<Rightarrow> listen_result listen_err),
             rs, emitted (logger_of sv) ls @ listening @ ms, t2))"

end
