(* ===== verification/Daemon.thy ===== *)
theory Daemon
  imports Fetcher Scheduler Server
begin

text \<open>
  \<open>cmd/bitblocker/main.go\<close>: the command line, the start of the daemon from its configuration, the
  disk cache and the constructors, and the running system, in which requests, heartbeats and
  refreshes interleave over the one blocklist source.
\<close>

section \<open>The command line\<close>

text \<open>
  \<open>flag.Parse\<close> for a set with the one string flag \<open>config\<close>: one or two dashes, the value after
  an equals sign or in the next argument, the last occurrence wins, parsing stops at \<open>--\<close> and at
  the first argument that is no flag.
\<close>

definition split_value :: "string \<Rightarrow> string \<times> string option" where
  "split_value s =
     (let n = takeWhile (\<lambda>c. c \<noteq> CHR ''='') (tl s); rest = drop (length n) (tl s) in
      (hd s # n, if rest = '''' then None else Some (tl rest)))"

function flag_parse :: "string \<Rightarrow> string list \<Rightarrow> string result" where
  "flag_parse cur [] = Inr cur"
| "flag_parse cur (s # args) =
     (if length s < 2 \<or> hd s \<noteq> CHR ''-'' \<or> s = ''--'' then Inr cur
      else
        (let name = (if s ! 1 = CHR ''-'' then drop 2 s else drop 1 s) in
         if hd name = CHR ''-'' \<or> hd name = CHR ''='' then Inl (Errorf ''bad flag syntax: %s'' [FStr s])
         else
           (let (n, v) = split_value name in
            if n = ''help'' \<or> n = ''h'' then Inl (New_error ''flag: help requested'')
            else if n \<noteq> ''config'' then Inl (Errorf ''flag provided but not defined: -%s'' [FStr n])
            else
              (case v of
                 Some x \<Rightarrow> flag_parse x args
               | None \<Rightarrow>
                   (case args of
                      [] \<Rightarrow> Inl (Errorf ''flag needs an argument: -%s'' [FStr n])
                    | x # args' \<Rightarrow> flag_parse x args')))))"
  by pat_completeness auto
termination
  by (relation "measure (\<lambda>(cur, args). length args)") auto

definition default_config_path :: string where
  "default_config_path = ''/etc/bitblocker/config.yaml''"

section \<open>The wiring\<close>

text \<open>
  The closure of \<open>newLookupSource\<close>: an untyped nil when no trie is loaded, the trie otherwise.
\<close>

definition trie_lookup :: "trie \<Rightarrow> lookup" where
  "trie_lookup t = \<lparr>lk_Contains = Contains t, lk_Len = Len t\<rparr>"

definition newLookupSource :: "source \<Rightarrow> lookup option" where
  "newLookupSource src = (case Current src of None \<Rightarrow> None | Some t \<Rightarrow> Some (trie_lookup t))"

definition os_remove_call :: "go_error option \<Rightarrow> string \<Rightarrow> fs \<Rightarrow> go_error option \<times> fs" where
  "os_remove_call fault p F =
     (case fault of
        Some e \<Rightarrow> (Some e, F)
      | None \<Rightarrow>
          (case F p of
             None \<Rightarrow> (Some (Wrapf ''remove %s: %w'' [FStr p] (Sentinel Os_ErrNotExist)), F)
           | Some _ \<Rightarrow> (None, F(p := None))))"

definition removeUnusableCache :: "go_error option \<Rightarrow> string \<Rightarrow> fs \<Rightarrow> log_record list \<times> fs" where
  "removeUnusableCache fault path F =
     (case os_remove_call fault path F of
        (Some err, F') \<Rightarrow>
          (if \<not> errors_is err Os_ErrNotExist
           then [logged Warn ''disk cache: could not remove unusable file'' [(''path'', AStr path), (''error'', AErr err)]]
           else [], F')
      | (None, F') \<Rightarrow> ([], F'))"

text \<open>What the operating system answers while the daemon starts.\<close>

record start_env =
  read_file :: "string \<Rightarrow> string result"
  decode_yaml :: "string \<Rightarrow> Config \<Rightarrow> Config result"
  parse_cron :: "string \<Rightarrow> go_error option"
  stat_fault :: "go_error option"
  cache_fault :: "go_error option"
  remove_fault :: "go_error option"
  start_time :: instant

definition loadDiskCache ::
  "mmdb_open \<Rightarrow> start_env \<Rightarrow> Config \<Rightarrow> source \<Rightarrow> fs \<Rightarrow> (log_record list \<times> source \<times> fs) option" where
  "loadDiskCache mmdb_open env cfg src F =
     (let path = cache_path (cache cfg) in
      case cache_Load (Open mmdb_open (cache_fault env)) (stat_fault env) F path (max_age (cache cfg)) (start_time env)
             (BlockConfig.countries (block cfg)) of
        None \<Rightarrow> None
      | Some (Inl err) \<Rightarrow>
          if errors_is err Diskcache_ErrAbsent then
            Some ([logged Info ''disk cache: none present; cold start'' [(''path'', AStr path)]], src, F)
          else if errors_is err Diskcache_ErrStale then
            (let (ls, F') = removeUnusableCache (remove_fault env) path F in
             Some (logged Warn ''disk cache: stale; skipping and removing''
                     [(''path'', AStr path), (''max_age'', ADur (max_age (cache cfg)))] # ls, src, F'))
          else
            (let (ls, F') = removeUnusableCache (remove_fault env) path F in
             Some (logged Warn ''disk cache: unreadable; skipping and removing''
                     [(''path'', AStr path), (''error'', AErr err)] # ls, src, F'))
      | Some (Inr t) \<Rightarrow>
          Some ([logged Info ''disk cache: loaded blocklist from disk''
                   [(''path'', AStr path), (''prefixes'', AInt (Len t))]], Swap (Some t) src, F))"

definition newFetcher :: "Config \<Rightarrow> source \<Rightarrow> logger \<Rightarrow> fetcher result" where
  "newFetcher cfg src lg =
     new_fetcher \<lparr>fo_HTTPClient = Some \<lparr>client_timeout = RefreshConfig.timeout (Config.refresh cfg), tls_min_version = 0x0303\<rparr>,
       fo_CachePath = cache_path (cache cfg), fo_Countries = BlockConfig.countries (block cfg),
       fo_Source = Some src, fo_Logger = Some lg, fo_Now = None\<rparr>"

text \<open>
  The scheduler's refresh is one \<open>Refresh\<close> of the fetcher over the state they share; \<open>envs k\<close> is
  what the world answers to the \<open>k\<close>-th call. A state of \<open>None\<close> is a panicked daemon.
\<close>

definition refresh_call :: "mmdb_open \<Rightarrow> (nat \<Rightarrow> refresh_env) \<Rightarrow> refresher option refresh_func" where
  "refresh_call mmdb_open envs d k s =
     (case s of
        None \<Rightarrow> (None, None)
      | Some st \<Rightarrow>
          (case Refresh mmdb_open (envs k) st of
             None \<Rightarrow> (None, None)
           | Some ((outc, rerr), st') \<Rightarrow> (rerr, Some st')))"

definition blocklist_ready :: "refresher option \<Rightarrow> bool" where
  "blocklist_ready s =
     (case s of
        None \<Rightarrow> False
      | Some st \<Rightarrow> (case Current (active st) of None \<Rightarrow> False | Some t \<Rightarrow> 0 < Len t))"

definition buildScheduler ::
  "mmdb_open \<Rightarrow> (nat \<Rightarrow> refresh_env) \<Rightarrow> Config \<Rightarrow> refresher option scheduler result" where
  "buildScheduler mmdb_open envs cfg =
     newScheduler \<lparr>so_Schedule = RefreshConfig.schedule (Config.refresh cfg), so_Timeout = RefreshConfig.timeout (Config.refresh cfg),
       so_Refresh = Some (refresh_call mmdb_open envs), so_Ready = Some blocklist_ready,
       so_has_Logger = True, so_ColdStart = zero_policy\<rparr>"

section \<open>The start\<close>

text \<open>
  A started daemon: the server and its tracker, the scheduler, the shared state of the fetcher, and
  the lines written so far.
\<close>

record daemon =
  d_server :: server
  d_tracker :: readiness
  d_scheduler :: "refresher option scheduler"
  d_state :: refresher
  d_lines :: "log_record list"

text \<open>
  \<open>run\<close> up to \<open>runComponents\<close>. The lines of a failed start are dropped: the error goes to the
  standard error output instead.
\<close>

definition start_daemon ::
  "mmdb_open \<Rightarrow> (nat \<Rightarrow> refresh_env) \<Rightarrow> start_env \<Rightarrow> string list \<Rightarrow> fs \<Rightarrow> daemon result option" where
  "start_daemon mmdb_open envs env args F =
     (case flag_parse default_config_path args of
        Inl err \<Rightarrow> Some (Inl err)
      | Inr path \<Rightarrow>
     (case Load (read_file env) (decode_yaml env) (parse_cron env) path of
        Inl err \<Rightarrow> Some (Inl err)
      | Inr cfg \<Rightarrow>
     (case new_logger (logging cfg) of
        Inl err \<Rightarrow> Some (Inl (Wrapf ''logging: %w'' [] err))
      | Inr lg \<Rightarrow>
     (let starting = logged Info ''bitblocker: starting''
            [(''listen'', AStr (AddrFromConfig (listen cfg))),
             (''countries'', AStrs (BlockConfig.countries (block cfg))),
             (''startup_mode'', AStr (startup_mode (behavior cfg)))] in
      case loadDiskCache mmdb_open env cfg NewSource F of
        None \<Rightarrow> None
      | Some (ls, src, F') \<Rightarrow>
     (case server_New \<lparr>sv_Addr = AddrFromConfig (listen cfg), sv_has_Lookup = True, sv_Logger = Some lg,
             sv_BlockStatus = response_code (behavior cfg), sv_LogBlocked = log_blocked (behavior cfg),
             sv_LogAllowed = log_allowed (behavior cfg), sv_StartupMode = startup_mode (behavior cfg)\<rparr> of
        Inl err \<Rightarrow> Some (Inl (Wrapf ''server: %w'' [] err))
      | Inr (sv, tr) \<Rightarrow>
     (case newFetcher cfg src lg of
        Inl err \<Rightarrow> Some (Inl (Wrapf ''fetcher: %w'' [] err))
      | Inr f \<Rightarrow>
     (case buildScheduler mmdb_open envs cfg of
        Inl err \<Rightarrow> Some (Inl (Wrapf ''scheduler: %w'' [] err))
      | Inr sch \<Rightarrow>
          Some (Inr \<lparr>d_server = sv, d_tracker = tr, d_scheduler = sch,
            d_state = \<lparr>fetcher_of = f, active = src, fsys = F', logs = [], requests = []\<rparr>,
            d_lines = emitted lg (starting # ls)\<rparr>))))))))"

section \<open>The running system\<close>

text \<open>
  Requests, heartbeats and refreshes in the order in which they take effect: a request reads the
  source once, a refresh takes effect on requests with its one swap. The scheduler decides which
  refreshes happen; here any sequence may.
\<close>

datatype daemon_event =
    On_request instant instant request
  | On_tick instant instant
  | On_refresh refresh_env

text \<open>The lookup of the moment is the trie the source points at.\<close>

fun daemon_step ::
  "mmdb_open \<Rightarrow> ctx \<Rightarrow> daemon_event \<Rightarrow> daemon \<Rightarrow> (response list \<times> daemon) option" where
  "daemon_step mmdb_open ctx (On_request now now' r) d =
     (case Handler (d_server d) ctx now now' (newLookupSource (active (d_state d))) r (d_tracker d) of
        None \<Rightarrow> None
      | Some (resp, ls, tr) \<Rightarrow> Some ([resp], d\<lparr>d_tracker := tr, d_lines := d_lines d @ ls\<rparr>))"
| "daemon_step mmdb_open ctx (On_tick now now') d =
     (let (ls, tr) = heartbeat_tick (d_server d) now now' (newLookupSource (active (d_state d))) (d_tracker d)
      in Some ([], d\<lparr>d_tracker := tr, d_lines := d_lines d @ ls\<rparr>))"
| "daemon_step mmdb_open ctx (On_refresh env) d =
     (case Refresh mmdb_open env (d_state d) of
        None \<Rightarrow> None
      | Some (outc, st) \<Rightarrow> Some ([], d\<lparr>d_state := st\<rparr>))"

fun daemon_run ::
  "mmdb_open \<Rightarrow> ctx \<Rightarrow> daemon_event list \<Rightarrow> daemon \<Rightarrow> (response list \<times> daemon) option" where
  "daemon_run mmdb_open ctx [] d = Some ([], d)"
| "daemon_run mmdb_open ctx (e # es) d =
     (case daemon_step mmdb_open ctx e d of
        None \<Rightarrow> None
      | Some (rs, d') \<Rightarrow>
          (case daemon_run mmdb_open ctx es d' of
             None \<Rightarrow> None
           | Some (rs', d'') \<Rightarrow> Some (rs @ rs', d'')))"

end
