(* ===== verification/Concurrent.thy ===== *)
theory Concurrent
  imports Daemon
begin

text \<open>
  The daemon with its goroutines at the grain of atomic accesses: any number of requests, probes
  and heartbeats, each one goroutine that loads the blocklist pointer once and then moves through
  the readiness tracker step by step, and the refresher, whose only effect on the others is its
  one store to the pointer.
\<close>

section \<open>The handler after observe\<close>

text \<open>
  What \<open>handleCheck\<close> does once the blocklist was found usable: the response and the lines for the
  logger of the context.
\<close>

definition check_verdict ::
  "server \<Rightarrow> lookup option \<Rightarrow> request \<Rightarrow> (response \<times> log_record list) option" where
  "check_verdict sv l r =
     (case extractClientIP (headers r) of
        None \<Rightarrow>
          Some (write_header (blockStatus sv),
            [logged Warn ''check: fail-closed (unparseable client IP)''
              [(''x_real_ip_present'', ABool (header_get (headers r) headerXRealIP \<noteq> '''')),
               (''x_forwarded_for_present'', ABool (header_get (headers r) headerXForwardedFor \<noteq> ''''))]])
      | Some a \<Rightarrow>
          (case l of
             None \<Rightarrow> None
           | Some k \<Rightarrow>
               (case lk_Contains k a of
                  None \<Rightarrow> None
                | Some True \<Rightarrow>
                    Some (write_header (blockStatus sv),
                      if logBlocked sv
                      then [logged Info ''check: blocked'' [(''client_ip_redacted'', AStr (Redact (addr_string a)))]]
                      else [])
                | Some False \<Rightarrow>
                    Some (write_header 200,
                      if logAllowed sv
                      then [logged Debug ''check: allowed'' [(''client_ip_redacted'', AStr (Redact (addr_string a)))]]
                      else []))))"

definition probe_ok :: "lookup option \<Rightarrow> response" where
  "probe_ok l =
     \<lparr>code = 200, resp_headers = [''Content-Type'' \<mapsto> [''application/json'']],
      body = healthz_json \<lparr>hz_Status = ''ok'', hz_Serving = servingEnforcing, hz_EverReady = True,
        hz_Prefixes = Some (lookup_Len l), hz_EmptyForSeconds = None\<rparr>\<rparr>"

definition probe_empty :: "string \<Rightarrow> bool \<Rightarrow> int \<Rightarrow> response" where
  "probe_empty posture ever emptyFor =
     \<lparr>code = 503, resp_headers = [''Content-Type'' \<mapsto> [''application/json'']],
      body = healthz_json \<lparr>hz_Status = ''empty'', hz_Serving = posture, hz_EverReady = ever,
        hz_Prefixes = None, hz_EmptyForSeconds = Some emptyFor\<rparr>\<rparr>"

section \<open>The state\<close>

text \<open>
  Where a goroutine of the server stands. A request carries the number of values the pointer had
  held when it arrived; past its load it carries the trie it read.
\<close>

datatype phase =
    Free
  | Arrived request nat
  | Checking request nat "trie option"
  | Allowing request nat "trie option"
  | Probing request nat "trie option"
  | Probed request nat "trie option" int
  | Beating "trie option"
  | Reporting

text \<open>
  \<open>history\<close> lists the values of the pointer in order, the present one last. An answer is recorded
  with the numbers of values at the arrival and at the response. \<open>pending\<close> is a refresh that has
  done everything but its store.
\<close>

record system =
  sys_server :: server
  tracker_of :: tracker
  state_of :: refresher
  pending :: "((outcome \<times> go_error option) \<times> refresher) option"
  history :: "trie option list"
  phases :: "nat \<Rightarrow> phase"
  answers :: "(request \<times> nat \<times> nat \<times> response) list"
  lines :: "log_record list"

definition moves :: "nat \<Rightarrow> phase \<Rightarrow> system \<Rightarrow> system" where
  "moves i p s = s\<lparr>phases := (phases s)(i := p)\<rparr>"

definition responds :: "nat \<Rightarrow> request \<Rightarrow> nat \<Rightarrow> response \<Rightarrow> system \<Rightarrow> system" where
  "responds i r k resp s =
     (moves i Free s)\<lparr>answers := answers s @ [(r, k, length (history s), resp)]\<rparr>"

text \<open>The load of the pointer, and the call of \<open>observe\<close> with what it returned.\<close>

definition loads :: "nat \<Rightarrow> (trie option \<Rightarrow> phase) \<Rightarrow> system \<Rightarrow> system" where
  "loads i p s =
     (moves i (p (Current (active (state_of s)))) s)
       \<lparr>tracker_of := at i (Entered (newLookupSource (active (state_of s)))) (tracker_of s)\<rparr>"

definition returned :: "system \<Rightarrow> nat \<Rightarrow> bool" where
  "returned s i \<longleftrightarrow> places (tracker_of s) i = Idle"

definition seen :: "trie option \<Rightarrow> lookup option" where
  "seen c = map_option trie_lookup c"

text \<open>
  \<open>Run\<close> observes once before it serves; \<open>now\<close> is the clock of that observation. Until then no
  other goroutine is in the tracker; from then on they all run.
\<close>

definition start_system :: "instant \<Rightarrow> daemon \<Rightarrow> system" where
  "start_system now d =
     (let (u, ls, t) = observe now (newLookupSource (active (d_state d))) (d_tracker d) in
      \<lparr>sys_server = d_server d,
       tracker_of = \<lparr>shared = t, holder = None, places = (\<lambda>_. Idle), out = ls\<rparr>,
       state_of = d_state d, pending = None, history = [Current (active (d_state d))],
       phases = (\<lambda>_. Free), answers = [], lines = []\<rparr>)"

section \<open>Steps\<close>

inductive sys_step :: "mmdb_open \<Rightarrow> ctx \<Rightarrow> system \<Rightarrow> system \<Rightarrow> bool" for mmdb_open ctx where
  arrive: "phases s i = Free \<Longrightarrow>
    sys_step mmdb_open ctx s (moves i (Arrived r (length (history s))) s)"
| elsewhere: "phases s i = Arrived r k \<Longrightarrow> mux_route r = Not_found \<Longrightarrow>
    sys_step mmdb_open ctx s (responds i r k not_found s)"
| redirect: "phases s i = Arrived r k \<Longrightarrow> mux_route r = Moved p \<Longrightarrow>
    sys_step mmdb_open ctx s (responds i r k (moved r p) s)"
| asterisk: "phases s i = Arrived r k \<Longrightarrow> mux_route r = Bad_request \<Longrightarrow>
    sys_step mmdb_open ctx s (responds i r k (bad_request r) s)"
| refuse: "phases s i = Arrived r k \<Longrightarrow> mux_route r \<in> {Check, Healthz} \<Longrightarrow> http_method r \<noteq> ''GET'' \<Longrightarrow>
    sys_step mmdb_open ctx s (responds i r k method_not_allowed s)"
| check_load: "phases s i = Arrived r k \<Longrightarrow> mux_route r = Check \<Longrightarrow> http_method r = ''GET'' \<Longrightarrow>
    sys_step mmdb_open ctx s (loads i (Checking r k) s)"
| probe_load: "phases s i = Arrived r k \<Longrightarrow> mux_route r = Healthz \<Longrightarrow> http_method r = ''GET'' \<Longrightarrow>
    sys_step mmdb_open ctx s (loads i (Probing r k) s)"
| tick: "phases s i = Free \<Longrightarrow> sys_step mmdb_open ctx s (loads i Beating s)"
| track: "phases s i \<noteq> Free \<Longrightarrow> \<not> returned s i \<Longrightarrow> observe_step i (tracker_of s) t \<Longrightarrow>
    sys_step mmdb_open ctx s (s\<lparr>tracker_of := t\<rparr>)"
| deny: "phases s i = Checking r k c \<Longrightarrow> returned s i \<Longrightarrow> \<not> usable (seen c) \<Longrightarrow>
    \<not> failOpen (shared (tracker_of s)) \<Longrightarrow>
    sys_step mmdb_open ctx s (responds i r k (write_header (blockStatus (sys_server s))) s)"
| allow: "phases s i = Checking r k c \<Longrightarrow> returned s i \<Longrightarrow> \<not> usable (seen c) \<Longrightarrow>
    failOpen (shared (tracker_of s)) \<Longrightarrow> observe_step i (tracker_of s) t \<Longrightarrow> places t i = Counting \<Longrightarrow>
    sys_step mmdb_open ctx s ((moves i (Allowing r k c) s)\<lparr>tracker_of := t\<rparr>)"
| allowed: "phases s i = Allowing r k c \<Longrightarrow> returned s i \<Longrightarrow>
    sys_step mmdb_open ctx s (responds i r k (write_header 200) s)"
| decide: "phases s i = Checking r k c \<Longrightarrow> returned s i \<Longrightarrow> usable (seen c) \<Longrightarrow>
    check_verdict (sys_server s) (seen c) r = Some (resp, ls) \<Longrightarrow>
    sys_step mmdb_open ctx s
      ((responds i r k resp s)
        \<lparr>lines := lines s @ emitted (FromContext (withRequestLogger (sys_server s) ctx)) ls\<rparr>)"
| probe_usable: "phases s i = Probing r k c \<Longrightarrow> returned s i \<Longrightarrow> usable (seen c) \<Longrightarrow>
    sys_step mmdb_open ctx s (responds i r k (probe_ok (seen c)) s)"
| probe_since: "phases s i = Probing r k c \<Longrightarrow> returned s i \<Longrightarrow> \<not> usable (seen c) \<Longrightarrow>
    sys_step mmdb_open ctx s
      (moves i (Probed r k c (go_quot (sint (windowSince now (shared (tracker_of s)))) (sint second))) s)"
| probe_unusable: "phases s i = Probed r k c n \<Longrightarrow>
    sys_step mmdb_open ctx s
      (responds i r k (probe_empty (serving (shared (tracker_of s)) False) (everReady (shared (tracker_of s))) n) s)"
| beat_quiet: "phases s i = Beating c \<Longrightarrow> returned s i \<Longrightarrow> usable (seen c) \<Longrightarrow>
    sys_step mmdb_open ctx s (moves i Free s)"
| beat_report: "phases s i = Beating c \<Longrightarrow> returned s i \<Longrightarrow> \<not> usable (seen c) \<Longrightarrow>
    observe_step i (tracker_of s) t \<Longrightarrow> places t i = Beat_since e \<Longrightarrow>
    sys_step mmdb_open ctx s ((moves i Reporting s)\<lparr>tracker_of := t\<rparr>)"
| beat_done: "phases s i = Reporting \<Longrightarrow> returned s i \<Longrightarrow>
    sys_step mmdb_open ctx s (moves i Free s)"
| refresh: "pending s = None \<Longrightarrow> Refresh mmdb_open env (state_of s) = Some (res, st) \<Longrightarrow>
    sys_step mmdb_open ctx s (s\<lparr>pending := Some (res, st)\<rparr>)"
| swap: "pending s = Some ((OutcomeUpdated, e), st) \<Longrightarrow>
    sys_step mmdb_open ctx s
      (s\<lparr>state_of := st, pending := None, history := history s @ [Current (active st)]\<rparr>)"
| give_up: "pending s = Some ((OutcomeUnchanged, e), st) \<Longrightarrow>
    sys_step mmdb_open ctx s (s\<lparr>state_of := st, pending := None\<rparr>)"

text \<open>The goroutines at work, and the steps that only they take: no arrival, no tick, no refresh.\<close>

definition busy :: "system \<Rightarrow> nat set" where
  "busy s = {i. phases s i \<noteq> Free}"

definition serving_step :: "mmdb_open \<Rightarrow> ctx \<Rightarrow> system \<Rightarrow> system \<Rightarrow> bool" where
  "serving_step mmdb_open ctx s s' \<longleftrightarrow> sys_step mmdb_open ctx s s'
     \<and> state_of s' = state_of s \<and> pending s' = pending s \<and> (\<forall>i. phases s i = Free \<longrightarrow> phases s' i = Free)"

text \<open>
  The scheduler's goroutine runs before the server's \<open>Run\<close> does, so refreshes may come before the
  first observation.
\<close>

definition one_refresh :: "mmdb_open \<Rightarrow> refresher \<Rightarrow> refresher \<Rightarrow> bool" where
  "one_refresh mmdb_open st st' \<longleftrightarrow> (\<exists>env res. Refresh mmdb_open env st = Some (res, st'))"

inductive reachable_system :: "mmdb_open \<Rightarrow> ctx \<Rightarrow> daemon \<Rightarrow> system \<Rightarrow> bool" for mmdb_open ctx d where
  start: "(one_refresh mmdb_open)\<^sup>*\<^sup>* (d_state d) st \<Longrightarrow>
    reachable_system mmdb_open ctx d (start_system now (d\<lparr>d_state := st\<rparr>))"
| go: "reachable_system mmdb_open ctx d s \<Longrightarrow> sys_step mmdb_open ctx s s' \<Longrightarrow>
    reachable_system mmdb_open ctx d s'"

end
