(* ===== verification/Lifecycle.thy ===== *)
theory Lifecycle
  imports Daemon
begin

text \<open>
  The process from \<open>runComponents\<close> to its exit: the goroutine of \<open>main\<close>, which runs the server,
  the listener, the heartbeat loop and the scheduler, with their contexts and channels. Each
  goroutine is a step relation of its own; a step is taken by the program or by the world (a
  signal, a timer, the network), and the process interleaves them.
\<close>

section \<open>The scheduler's calls\<close>

text \<open>One attempt of the cold start, after the test of the context: its events, whether it is to be retried.\<close>

definition cold_attempt :: "'s scheduler \<Rightarrow> nat \<Rightarrow> 's \<Rightarrow> sched_event list \<times> bool \<times> 's" where
  "cold_attempt sch attempt s =
     (let (err, s') = refreshOnce sch attempt s in
      case err of
        None \<Rightarrow> ([Attempt None], False, s')
      | Some e \<Rightarrow>
          if ready sch s' then
            ([Attempt err,
              Log (logged Warn ''scheduler: initial refresh failed but a cached blocklist is active; relying on it until the next scheduled refresh''
                [(''error'', AErr e)])], False, s')
          else if MaxAttempts (coldStart sch) \<le> int attempt + 1 then
            ([Attempt err,
              Log (logged Error ''scheduler: cold-start retry budget exhausted; daemon stays fail-closed until the next scheduled refresh''
                [(''attempts'', AInt (int attempt + 1)), (''error'', AErr e)])], False, s')
          else
            (let delay = backoff (coldStart sch) attempt in
             ([Attempt err,
               Log (logged Warn ''scheduler: cold-start fetch failed; retrying''
                 [(''attempt'', AInt (int attempt + 1)), (''retry_in'', AStr (duration_string delay)),
                  (''error'', AErr e)]),
               Sleep delay], True, s')))"

text \<open>The closure that \<open>Run\<close> gives to the cron.\<close>

definition cron_job :: "'s scheduler \<Rightarrow> nat \<Rightarrow> 's \<Rightarrow> sched_event list \<times> 's" where
  "cron_job sch k s =
     (let (err, s') = refreshOnce sch k s in
      (Attempt err #
        (case err of
           None \<Rightarrow> []
         | Some e \<Rightarrow> [Log (logged Warn ''scheduler: scheduled refresh failed; retaining active blocklist''
                          [(''error'', AErr e)])]), s'))"

section \<open>Errors at the end\<close>

text \<open>What the scheduler's goroutine logs, what \<open>runComponents\<close> and then \<open>run\<close> return, and the exit status.\<close>

definition scheduler_end :: "go_error option \<Rightarrow> log_record list" where
  "scheduler_end serr =
     (case serr of
        None \<Rightarrow> []
      | Some e \<Rightarrow> [logged Error ''scheduler: stopped with error'' [(''error'', AErr e)]])"

definition run_result :: "go_error option \<Rightarrow> go_error option" where
  "run_result runErr =
     (case runErr of
        None \<Rightarrow> None
      | Some err \<Rightarrow> if errors_is err Http_ErrServerClosed then None else Some (Wrapf ''server: %w'' [] err))"

definition run_end :: "logger \<Rightarrow> go_error option \<Rightarrow> log_record list \<times> go_error option" where
  "run_end lg err =
     (case err of
        Some e \<Rightarrow> ([], Some e)
      | None \<Rightarrow> (emitted lg [logged Info ''bitblocker: stopped'' []], None))"

definition exitFailure :: int where "exitFailure = 1"

definition main_exit :: "go_error option \<Rightarrow> int" where
  "main_exit err = (case err of None \<Rightarrow> 0 | Some _ \<Rightarrow> exitFailure)"

section \<open>Places\<close>

text \<open>
  The goroutine of \<open>main\<close>: in \<open>Run\<close> of the server before the observation, in the select, in
  \<open>Shutdown\<close>, waiting for the listener's error, waiting for the heartbeat in the deferred call; then
  back in \<open>runComponents\<close> before \<open>cancel\<close> and in \<open>wg.Wait\<close>; then in \<open>run\<close> with its error, and gone.
\<close>

datatype main_place =
    Observing
  | Selecting
  | Shutting_down
  | Receiving
  | Leaving "go_error option"
  | Cancelling "go_error option"
  | Waiting_all "go_error option"
  | Finishing "go_error option"
  | Exited int

datatype listener_place = No_listener | Announcing_addr | Binding | Listening | Listener_done

datatype beat_place = No_beat | Await_tick | In_heartbeat | Beat_done

text \<open>
  The goroutine of the scheduler: before the test of the context, in attempt \<open>k\<close>, asleep after it;
  after the cold start; with the cron running, idle or in call \<open>k\<close>; the cron stopped, a call still
  running or none; returned, before and after its last line.
\<close>

datatype sched_place =
    Cold nat
  | Fetching nat
  | Asleep nat
  | After_cold
  | Adding
  | Cron_idle nat
  | Cron_busy nat
  | Cron_draining nat
  | Cron_stopped
  | Sched_returned "go_error option"
  | Sched_done "go_error option"

section \<open>The process\<close>

text \<open>
  \<open>errCh\<close> is the channel of capacity one. \<open>signalled\<close> is the context of \<open>signal.NotifyContext\<close>,
  \<open>run_cancelled\<close> and \<open>beat_cancelled\<close> the two \<open>WithCancel\<close> contexts below it; \<open>closing\<close> says that
  \<open>Shutdown\<close> was called. \<open>in_flight\<close> counts the requests being served, \<open>conns\<close> the open connections
  without one: new ones, and ones kept alive. \<open>world\<close> is the state that refreshes work on, \<open>trace\<close> the events of the
  scheduler, \<open>printed\<close> the lines of the other goroutines.
\<close>

record 's process =
  main_at :: main_place
  listener_at :: listener_place
  beat_at :: beat_place
  sched_at :: sched_place
  errCh :: "go_error option option"
  signalled :: bool
  run_cancelled :: bool
  beat_cancelled :: bool
  closing :: bool
  in_flight :: nat
  conns :: nat
  world :: 's
  trace :: "sched_event list"
  printed :: "log_record list"

definition start_process :: "'s \<Rightarrow> 's process" where
  "start_process w =
     \<lparr>main_at = Observing, listener_at = No_listener, beat_at = No_beat, sched_at = Cold 0, errCh = None,
      signalled = False, run_cancelled = False, beat_cancelled = False, closing = False, in_flight = 0, conns = 0,
      world = w, trace = [], printed = []\<rparr>"

definition run_done :: "'s process \<Rightarrow> bool" where
  "run_done s \<longleftrightarrow> signalled s \<or> run_cancelled s"

definition beat_ctx_done :: "'s process \<Rightarrow> bool" where
  "beat_ctx_done s \<longleftrightarrow> run_done s \<or> beat_cancelled s"

text \<open>Who takes a step.\<close>

datatype actor = World | Program

section \<open>Steps\<close>

text \<open>
  \<open>Run\<close> of the server: the observation and the two goroutines it starts, the select, and the
  deferred end of the heartbeat. \<open>Shutdown\<close> returns nil once no connection is left, or the error of
  its deadline.
\<close>

inductive run_move :: "actor \<Rightarrow> 's process \<Rightarrow> 's process \<Rightarrow> bool" where
  observed: "main_at s = Observing \<Longrightarrow>
    run_move Program s (s\<lparr>main_at := Selecting, beat_at := Await_tick, listener_at := Announcing_addr\<rparr>)"
| select_done: "main_at s = Selecting \<Longrightarrow> run_done s \<Longrightarrow>
    run_move Program s (s\<lparr>main_at := Shutting_down, closing := True\<rparr>)"
| select_err: "main_at s = Selecting \<Longrightarrow> errCh s = Some e \<Longrightarrow>
    run_move Program s (s\<lparr>main_at := Leaving e, errCh := None, beat_cancelled := True\<rparr>)"
| shutdown: "main_at s = Shutting_down \<Longrightarrow> in_flight s = 0 \<Longrightarrow> conns s = 0 \<Longrightarrow>
    run_move Program s (s\<lparr>main_at := Receiving\<rparr>)"
| shutdown_late: "main_at s = Shutting_down \<Longrightarrow> 0 < in_flight s + conns s \<Longrightarrow>
    run_move World s
      (s\<lparr>main_at := Leaving (Some (Wrapf ''server: shutdown: %w'' [] (Foreign ''context deadline exceeded''))),
         beat_cancelled := True\<rparr>)"
| received: "main_at s = Receiving \<Longrightarrow> errCh s = Some e \<Longrightarrow>
    run_move Program s (s\<lparr>main_at := Leaving e, errCh := None, beat_cancelled := True\<rparr>)"
| beat_over: "main_at s = Leaving e \<Longrightarrow> beat_at s = Beat_done \<Longrightarrow>
    run_move Program s (s\<lparr>main_at := Cancelling e\<rparr>)"

text \<open>\<open>runComponents\<close> after the server's \<open>Run\<close>, and the end of \<open>run\<close> and \<open>main\<close>.\<close>

inductive main_move :: "logger \<Rightarrow> actor \<Rightarrow> 's process \<Rightarrow> 's process \<Rightarrow> bool" for lg where
  cancel: "main_at s = Cancelling e \<Longrightarrow>
    main_move lg Program s (s\<lparr>main_at := Waiting_all e, run_cancelled := True\<rparr>)"
| all_done: "main_at s = Waiting_all e \<Longrightarrow> sched_at s = Sched_done serr \<Longrightarrow>
    main_move lg Program s (s\<lparr>main_at := Finishing (run_result e)\<rparr>)"
| finish: "main_at s = Finishing e \<Longrightarrow> run_end lg e = (ls, err) \<Longrightarrow>
    main_move lg Program s (s\<lparr>main_at := Exited (main_exit err), printed := printed s @ ls\<rparr>)"

text \<open>
  The listener's goroutine, and the connections that it accepts. A request may come on any open
  connection, also while \<open>Shutdown\<close> waits; after the response the connection is kept, unless the
  server is closing, or closed. \<open>Shutdown\<close> closes the connections that have no request (a new one
  after it has been silent for five seconds), and a client may close one at any time.
\<close>

inductive listener_move :: "server \<Rightarrow> actor \<Rightarrow> 's process \<Rightarrow> 's process \<Rightarrow> bool" for sv where
  listening: "listener_at s = Announcing_addr \<Longrightarrow>
    listener_move sv Program s
      (s\<lparr>listener_at := Binding,
         printed := printed s @ emitted (logger_of sv) [logged Info ''server: listening'' [(''addr'', AStr (addr_of sv))]]\<rparr>)"
| bind: "listener_at s = Binding \<Longrightarrow> \<not> closing s \<Longrightarrow>
    listener_move sv Program s (s\<lparr>listener_at := Listening\<rparr>)"
| closed: "listener_at s \<in> {Binding, Listening} \<Longrightarrow> closing s \<Longrightarrow> errCh s = None \<Longrightarrow>
    listener_move sv Program s (s\<lparr>listener_at := Listener_done, errCh := Some (listen_result (Sentinel Http_ErrServerClosed))\<rparr>)"
| listen_error: "listener_at s = Binding \<or> listener_at s = Listening \<and> \<not> closing s \<Longrightarrow> \<not> errors_is err Http_ErrServerClosed \<Longrightarrow> errCh s = None \<Longrightarrow>
    listener_move sv World s (s\<lparr>listener_at := Listener_done, errCh := Some (listen_result err)\<rparr>)"
| connect: "listener_at s = Listening \<Longrightarrow> \<not> closing s \<Longrightarrow>
    listener_move sv World s (s\<lparr>conns := Suc (conns s)\<rparr>)"
| accept: "conns s = Suc n \<Longrightarrow>
    listener_move sv World s (s\<lparr>conns := n, in_flight := Suc (in_flight s)\<rparr>)"
| respond: "in_flight s = Suc n \<Longrightarrow> listener_move sv Program s (s\<lparr>in_flight := n\<rparr>)"
| respond_keep: "in_flight s = Suc n \<Longrightarrow> \<not> closing s \<Longrightarrow>
    listener_move sv Program s (s\<lparr>in_flight := n, conns := Suc (conns s)\<rparr>)"
| hang_up: "conns s = Suc n \<Longrightarrow> a = World \<or> closing s \<Longrightarrow>
    listener_move sv a s (s\<lparr>conns := n\<rparr>)"

text \<open>\<open>heartbeatLoop\<close>.\<close>

inductive beat_move :: "actor \<Rightarrow> 's process \<Rightarrow> 's process \<Rightarrow> bool" where
  tick: "beat_at s = Await_tick \<Longrightarrow> beat_move World s (s\<lparr>beat_at := In_heartbeat\<rparr>)"
| beaten: "beat_at s = In_heartbeat \<Longrightarrow> beat_move Program s (s\<lparr>beat_at := Await_tick\<rparr>)"
| beat_stop: "beat_at s = Await_tick \<Longrightarrow> beat_ctx_done s \<Longrightarrow> beat_move Program s (s\<lparr>beat_at := Beat_done\<rparr>)"

text \<open>
  \<open>Run\<close> of the scheduler with \<open>realSleep\<close>, in the goroutine of \<open>runComponents\<close> that logs its error.
  A refresh takes effect where it ends. The cron starts a call while it is not stopped and no call
  is running; stopping it waits for the one that is. \<open>add_cron\<close> is the parser behind \<open>AddFunc\<close>; for
  a started daemon it is the one that validated the schedule, \<open>parse_cron\<close> of the start.
\<close>

definition works :: "sched_place \<Rightarrow> sched_event list \<Rightarrow> 's \<Rightarrow> 's process \<Rightarrow> 's process" where
  "works p es w s = s\<lparr>sched_at := p, world := w, trace := trace s @ es\<rparr>"

text \<open>
  \<open>realSleep\<close>: what ends it and whether it then returns an error, given whether the context is done.
\<close>

inductive realSleep :: "bool \<Rightarrow> actor \<Rightarrow> bool \<Rightarrow> bool" where
  ctx_first: "realSleep True Program True"
| timer_first: "realSleep ctx_over World False"

inductive_simps realSleep_iff [simp]: "realSleep ctx_over a failed"

inductive sched_move ::
  "logger \<Rightarrow> (string \<Rightarrow> go_error option) \<Rightarrow> 's scheduler \<Rightarrow> actor \<Rightarrow> 's process \<Rightarrow> 's process \<Rightarrow> bool"
  for lg add_cron sch where
  cold_cancelled: "sched_at s = Cold k \<Longrightarrow> run_done s \<Longrightarrow>
    sched_move lg add_cron sch Program s (s\<lparr>sched_at := After_cold\<rparr>)"
| cold_begin: "sched_at s = Cold k \<Longrightarrow> \<not> run_done s \<Longrightarrow>
    sched_move lg add_cron sch Program s (s\<lparr>sched_at := Fetching k\<rparr>)"
| cold_end: "sched_at s = Fetching k \<Longrightarrow> cold_attempt sch k (world s) = (es, retry, w) \<Longrightarrow>
    sched_move lg add_cron sch Program s (works (if retry then Asleep k else After_cold) es w s)"
| sleep_cut: "sched_at s = Asleep k \<Longrightarrow> realSleep (run_done s) a True \<Longrightarrow>
    sched_move lg add_cron sch a s (s\<lparr>sched_at := After_cold\<rparr>)"
| sleep_over: "sched_at s = Asleep k \<Longrightarrow> realSleep (run_done s) a False \<Longrightarrow>
    sched_move lg add_cron sch a s (s\<lparr>sched_at := Cold (Suc k)\<rparr>)"
| run_cancelled_early: "sched_at s = After_cold \<Longrightarrow> run_done s \<Longrightarrow>
    sched_move lg add_cron sch Program s (s\<lparr>sched_at := Sched_returned None\<rparr>)"
| run_on: "sched_at s = After_cold \<Longrightarrow> \<not> run_done s \<Longrightarrow>
    sched_move lg add_cron sch Program s (s\<lparr>sched_at := Adding\<rparr>)"
| add_fails: "sched_at s = Adding \<Longrightarrow> add_cron (schedule sch) = Some err \<Longrightarrow>
    sched_move lg add_cron sch Program s
      (s\<lparr>sched_at := Sched_returned (Some (Wrapf ''scheduler: add cron job %q: %w'' [FStr (schedule sch)] err))\<rparr>)"
| cron_start: "sched_at s = Adding \<Longrightarrow> add_cron (schedule sch) = None \<Longrightarrow>
    sched_move lg add_cron sch Program s
      (works (Cron_idle (attempts (trace s)))
         [Log (logged Info ''scheduler: started'' [(''schedule'', AStr (schedule sch))])] (world s) s)"
| cron_tick: "sched_at s = Cron_idle k \<Longrightarrow>
    sched_move lg add_cron sch World s (s\<lparr>sched_at := Cron_busy k\<rparr>)"
| job_ends: "sched_at s = Cron_busy k \<Longrightarrow> cron_job sch k (world s) = (es, w) \<Longrightarrow>
    sched_move lg add_cron sch Program s (works (Cron_idle (Suc k)) es w s)"
| stop_idle: "sched_at s = Cron_idle k \<Longrightarrow> run_done s \<Longrightarrow>
    sched_move lg add_cron sch Program s (s\<lparr>sched_at := Cron_stopped\<rparr>)"
| stop_busy: "sched_at s = Cron_busy k \<Longrightarrow> run_done s \<Longrightarrow>
    sched_move lg add_cron sch Program s (s\<lparr>sched_at := Cron_draining k\<rparr>)"
| drained: "sched_at s = Cron_draining k \<Longrightarrow> cron_job sch k (world s) = (es, w) \<Longrightarrow>
    sched_move lg add_cron sch Program s (works Cron_stopped es w s)"
| sched_stopped: "sched_at s = Cron_stopped \<Longrightarrow>
    sched_move lg add_cron sch Program s
      (works (Sched_returned None) [Log (logged Info ''scheduler: stopped'' [])] (world s) s)"
| sched_ends: "sched_at s = Sched_returned serr \<Longrightarrow>
    sched_move lg add_cron sch Program s
      (s\<lparr>sched_at := Sched_done serr, printed := printed s @ emitted lg (scheduler_end serr)\<rparr>)"

text \<open>One step of the process, until it exits: any of its goroutines, or a signal.\<close>

inductive process_step ::
  "server \<Rightarrow> (string \<Rightarrow> go_error option) \<Rightarrow> 's scheduler \<Rightarrow> actor \<Rightarrow> 's process \<Rightarrow> 's process \<Rightarrow> bool"
  for sv add_cron sch where
  in_run: "run_move a s s' \<Longrightarrow> process_step sv add_cron sch a s s'"
| in_main: "main_move (logger_of sv) a s s' \<Longrightarrow> process_step sv add_cron sch a s s'"
| in_listener: "\<forall>c. main_at s \<noteq> Exited c \<Longrightarrow> listener_move sv a s s' \<Longrightarrow> process_step sv add_cron sch a s s'"
| in_beat: "\<forall>c. main_at s \<noteq> Exited c \<Longrightarrow> beat_move a s s' \<Longrightarrow> process_step sv add_cron sch a s s'"
| in_sched: "\<forall>c. main_at s \<noteq> Exited c \<Longrightarrow> sched_move (logger_of sv) add_cron sch a s s' \<Longrightarrow>
    process_step sv add_cron sch a s s'"
| signal: "\<forall>c. main_at s \<noteq> Exited c \<Longrightarrow> process_step sv add_cron sch World s (s\<lparr>signalled := True\<rparr>)"

inductive reachable_process ::
  "server \<Rightarrow> (string \<Rightarrow> go_error option) \<Rightarrow> 's scheduler \<Rightarrow> 's \<Rightarrow> 's process \<Rightarrow> bool"
  for sv add_cron sch w where
  start: "reachable_process sv add_cron sch w (start_process w)"
| go: "reachable_process sv add_cron sch w s \<Longrightarrow> process_step sv add_cron sch a s s' \<Longrightarrow>
    reachable_process sv add_cron sch w s'"

end
