(* ===== verification/Whole.thy ===== *)
theory Whole
  imports Concurrent Lifecycle
begin

text \<open>
  The running program: the process with its contexts and channels, and the server's goroutines with
  the tracker and the blocklist pointer, in step with each other. A request that the listener
  accepts is a goroutine of the server, the response ends both; the loop's heartbeat is the
  goroutine that reports; a refresh that the scheduler finishes is the store to the pointer.
\<close>

section \<open>The state\<close>

record whole =
  process_of :: "refresher option process"
  server_of :: system
  accepted :: "request list"

text \<open>The request a goroutine of the server is at work on, and whether it is the heartbeat's.\<close>

fun request_of :: "phase \<Rightarrow> request option" where
  "request_of (Arrived r k) = Some r"
| "request_of (Checking r k c) = Some r"
| "request_of (Allowing r k c) = Some r"
| "request_of (Probing r k c) = Some r"
| "request_of (Probed r k c n) = Some r"
| "request_of _ = None"

fun beating :: "phase \<Rightarrow> bool" where
  "beating (Beating c) \<longleftrightarrow> True"
| "beating Reporting \<longleftrightarrow> True"
| "beating _ \<longleftrightarrow> False"

text \<open>The end of a refresh: its store, when it updates.\<close>

definition refreshed :: "outcome \<Rightarrow> refresher \<Rightarrow> system \<Rightarrow> system" where
  "refreshed oc st s =
     (case oc of
        OutcomeUpdated \<Rightarrow> s\<lparr>state_of := st, history := history s @ [Current (active st)]\<rparr>
      | OutcomeUnchanged \<Rightarrow> s\<lparr>state_of := st\<rparr>)"

section \<open>Steps\<close>

text \<open>
  A step of the process alone, or of the server alone, or of both: where the process counts a
  request or moves the heartbeat, the server does it, and where a refresh ends, the server sees
  the pointer change.
\<close>

inductive whole_step ::
  "mmdb_open \<Rightarrow> ctx \<Rightarrow> server \<Rightarrow> (string \<Rightarrow> go_error option) \<Rightarrow> refresher option scheduler
     \<Rightarrow> actor \<Rightarrow> whole \<Rightarrow> whole \<Rightarrow> bool"
  for mmdb_open ctx sv add_cron sch where
  process_alone: "process_step sv add_cron sch a (process_of w) p \<Longrightarrow>
    in_flight p = in_flight (process_of w) \<Longrightarrow> world p = world (process_of w) \<Longrightarrow>
    (beat_at p = In_heartbeat \<longleftrightarrow> beat_at (process_of w) = In_heartbeat) \<Longrightarrow>
    whole_step mmdb_open ctx sv add_cron sch a w (w\<lparr>process_of := p\<rparr>)"
| refresh_ends: "process_step sv add_cron sch a (process_of w) p \<Longrightarrow>
    in_flight p = in_flight (process_of w) \<Longrightarrow>
    (beat_at p = In_heartbeat \<longleftrightarrow> beat_at (process_of w) = In_heartbeat) \<Longrightarrow>
    Refresh mmdb_open env (state_of (server_of w)) = Some ((oc, err), st) \<Longrightarrow> world p = Some st \<Longrightarrow>
    whole_step mmdb_open ctx sv add_cron sch a w
      (w\<lparr>process_of := p, server_of := refreshed oc st (server_of w)\<rparr>)"
| accepts: "process_step sv add_cron sch World (process_of w) p \<Longrightarrow>
    in_flight p = Suc (in_flight (process_of w)) \<Longrightarrow> phases (server_of w) i = Free \<Longrightarrow>
    whole_step mmdb_open ctx sv add_cron sch World w
      (w\<lparr>process_of := p,
         server_of := moves i (Arrived r (length (history (server_of w)))) (server_of w),
         accepted := accepted w @ [r]\<rparr>)"
| handlers_work: "\<forall>c. main_at (process_of w) \<noteq> Exited c \<Longrightarrow>
    serving_step mmdb_open ctx (server_of w) s \<Longrightarrow> answers s = answers (server_of w) \<Longrightarrow>
    (\<forall>i. beating (phases s i) \<longleftrightarrow> beating (phases (server_of w) i)) \<Longrightarrow>
    whole_step mmdb_open ctx sv add_cron sch Program w (w\<lparr>server_of := s\<rparr>)"
| handler_responds: "process_step sv add_cron sch Program (process_of w) p \<Longrightarrow>
    in_flight (process_of w) = Suc (in_flight p) \<Longrightarrow>
    serving_step mmdb_open ctx (server_of w) s \<Longrightarrow> answers s = answers (server_of w) @ [x] \<Longrightarrow>
    whole_step mmdb_open ctx sv add_cron sch Program w (w\<lparr>process_of := p, server_of := s\<rparr>)"
| heartbeat_begins: "process_step sv add_cron sch World (process_of w) p \<Longrightarrow>
    beat_at (process_of w) \<noteq> In_heartbeat \<Longrightarrow> beat_at p = In_heartbeat \<Longrightarrow> phases (server_of w) i = Free \<Longrightarrow>
    whole_step mmdb_open ctx sv add_cron sch World w
      (w\<lparr>process_of := p, server_of := loads i Beating (server_of w)\<rparr>)"
| heartbeat_ends: "process_step sv add_cron sch Program (process_of w) p \<Longrightarrow>
    beat_at (process_of w) = In_heartbeat \<Longrightarrow> beat_at p \<noteq> In_heartbeat \<Longrightarrow>
    serving_step mmdb_open ctx (server_of w) s \<Longrightarrow> beating (phases (server_of w) i) \<Longrightarrow> phases s i = Free \<Longrightarrow>
    whole_step mmdb_open ctx sv add_cron sch Program w (w\<lparr>process_of := p, server_of := s\<rparr>)"

text \<open>
  It begins when the server's \<open>Run\<close> observes, after whatever the scheduler's goroutine has done by
  then; \<open>now\<close> is the clock of the observation.
\<close>

inductive reachable_whole :: "mmdb_open \<Rightarrow> ctx \<Rightarrow> (string \<Rightarrow> go_error option) \<Rightarrow> daemon \<Rightarrow> whole \<Rightarrow> bool"
  for mmdb_open ctx add_cron d where
  start: "reachable_process (d_server d) add_cron (d_scheduler d) (Some (d_state d)) p \<Longrightarrow>
    main_at p = Observing \<Longrightarrow> world p = Some st \<Longrightarrow> run_move Program p p' \<Longrightarrow>
    reachable_whole mmdb_open ctx add_cron d
      \<lparr>process_of = p', server_of = start_system now (d\<lparr>d_state := st\<rparr>), accepted = []\<rparr>"
| go: "reachable_whole mmdb_open ctx add_cron d w \<Longrightarrow>
    whole_step mmdb_open ctx (d_server d) add_cron (d_scheduler d) a w w' \<Longrightarrow>
    reachable_whole mmdb_open ctx add_cron d w'"

end
