(* ===== verification/Gzip_Correct.thy ===== *)
theory Gzip_Correct
  imports Gzip
begin

text \<open>
  What the gzip reader promises the fetcher: a member that was read is read the same when more
  input follows, so a stream that was cut is never taken for a complete one; and what a stored
  encoding holds comes back byte for byte.
\<close>

section \<open>Bits and numbers\<close>

lemma bits_of_simps [simp]:
  "bits_of [] = []" "bits_of (b # bs) = byte_bits b @ bits_of bs" "bits_of (bs @ cs) = bits_of bs @ bits_of cs"
  by (simp_all add: bits_of_def)

lemma length_byte_bits [simp]: "length (byte_bits b) = 8"
  by (simp add: byte_bits_def)

lemma length_bits_of [simp]: "length (bits_of bs) = 8 * length bs"
  by (induction bs) simp_all

lemma bits_nat_append: "bits_nat (xs @ ys) = bits_nat xs + 2 ^ length xs * bits_nat ys"
  by (induction xs) simp_all

lemma bits_nat_horner: "bits_nat bs = horner_sum of_bool 2 bs"
  by (induction bs) simp_all

lemma bits_nat_byte [simp]: "bits_nat (byte_bits b) = unat b"
proof -
  have "map (bit b) [0..<8] = map (bit (unat b)) [0..<8]"
    by (rule map_cong[OF refl]) (simp add: bit_unsigned_iff)
  then have "bits_nat (byte_bits b) = take_bit 8 (unat b)"
    by (simp only: byte_bits_def bits_nat_horner horner_sum_bit_eq_take_bit)
  also have "\<dots> = unat b" using unsigned_less[of b] by (simp add: take_bit_nat_eq_self_iff)
  finally show ?thesis .
qed

lemma bits_nat_bytes: "bits_nat (bits_of bs) = le_nat bs"
  by (induction bs) (simp_all add: bits_nat_append)

lemma bytes_of_bits_bytes: "length bs = n \<Longrightarrow> bytes_of_bits n (bits_of bs @ y) = bs"
  by (induction bs arbitrary: n) auto

text \<open>A number as little-endian bytes.\<close>

fun le_bytes :: "nat \<Rightarrow> nat \<Rightarrow> u8 list" where
  "le_bytes 0 n = []"
| "le_bytes (Suc k) n = of_nat n # le_bytes k (n div 256)"

lemma length_le_bytes [simp]: "length (le_bytes k n) = k"
  by (induction k n rule: le_bytes.induct) simp_all

lemma le_nat_bytes: "le_nat (le_bytes k n) = n mod 256 ^ k"
proof (induction k n rule: le_bytes.induct)
  case (2 k n)
  have "unat (of_nat n :: u8) = n mod 256" by (simp add: unat_of_nat)
  then show ?case by (simp add: 2 mod_mult2_eq)
qed simp

section \<open>Longer inputs\<close>

lemma get_lengths_extends [parsing]: "extends (get_lengths h n acc)"
proof -
  have "get_lengths h n acc bs = Inr (ls, r) \<Longrightarrow> get_lengths h n acc (bs @ y) = Inr (ls, r @ y)" for bs ls r y
  proof (induction h n acc bs rule: get_lengths.induct)
    case (1 h n acc bs)
    show ?case
    proof (cases "n \<le> length acc")
      case True
      then show ?thesis using 1(2) by (simp add: get_lengths.simps)
    next
      case False
      then obtain xs t where x: "length_item h acc bs = Inr (xs, t)" "\<not> n < length acc + length xs"
          "get_lengths h n (acc @ xs) t = Inr (ls, r)"
        using 1(2) by (auto simp: get_lengths.simps[of h n acc bs] split: sum.splits if_splits)
      have "length_item h acc (bs @ y) = Inr (xs, t @ y)" by (rule extendsD[OF length_item_extends x(1)])
      moreover have "get_lengths h n (acc @ xs) (t @ y) = Inr (ls, r @ y)"
        using 1(1)[OF False x(1) refl x(2,3)] .
      ultimately show ?thesis using False x(2) by (simp add: get_lengths.simps[of h n acc "bs @ y"])
    qed
  qed
  then show ?thesis by (simp add: extends_def)
qed

lemma get_tables_extends [parsing]: "extends get_tables"
  unfolding get_tables_def Let_def by (auto intro!: parsing split: option.split)

lemma huff_block_extends:
  "huff_block lh dh out bs = (out', Inr r) \<Longrightarrow> huff_block lh dh out (bs @ y) = (out', Inr (r @ y))"
proof (induction lh dh out bs rule: huff_block.induct)
  case (1 lh dh out bs)
  show ?case
  proof (cases "get_token lh dh bs")
    case (Inl e)
    then show ?thesis using 1(3) by (simp add: huff_block_token)
  next
    case (Inr x)
    obtain t u where x: "x = (t, u)" by (cases x)
    have y: "get_token lh dh (bs @ y) = Inr (t, u @ y)"
      using extendsD[OF get_token_extends] Inr x by blast
    have r: "(case t of
         Literal b \<Rightarrow> huff_block lh dh (out @ [b]) u
       | End_of_block \<Rightarrow> (out, Inr u)
       | Match n d \<Rightarrow> if length out < d then (out, Inl Corrupt) else huff_block lh dh (copy_match n d out) u)
      = (out', Inr r)"
      using 1(3) Inr x by (simp add: huff_block_token[of lh dh out bs])
    show ?thesis
      unfolding huff_block_token[of lh dh out "bs @ y"] y
      using 1(1)[OF Inr x[symmetric]] 1(2)[OF Inr x[symmetric]] r
      by (cases t) (auto split: if_splits)
  qed
qed

lemma stored_block_extends:
  assumes "stored_block out bs = (out', Inr r)" "length y mod 8 = 0"
  shows "stored_block out (bs @ y) = (out', Inr (r @ y))"
proof -
  let ?a = "drop (length bs mod 8) bs"
  obtain n m t where g: "get_stored_length ?a = Inr ((n, m), t)" "m = 65535 - n" "8 * n \<le> length t"
      "out' = out @ bytes_of_bits n t" "r = drop (8 * n) t"
    using assms(1) by (auto simp: stored_block_def split: sum.splits prod.splits if_splits)
  have a: "drop (length (bs @ y) mod 8) (bs @ y) = ?a @ y"
  proof -
    have "length (bs @ y) mod 8 = length bs mod 8" using assms(2) by (simp add: mod_add_eq[symmetric])
    moreover have "length bs mod 8 \<le> length bs" by simp
    ultimately show ?thesis by simp
  qed
  have "bytes_of_bits n (t @ y) = bytes_of_bits n t" using g(3)
  proof (induction n arbitrary: t)
    case (Suc n)
    then show ?case using Suc.IH[of "drop 8 t"] by simp
  qed simp
  then show ?thesis using extendsD[OF get_stored_length_parsing(2) g(1), of y] g(2-5)
    unfolding stored_block_def a by simp
qed

lemma deflate_block_extends:
  assumes "deflate_block typ out bs = (out', Inr r)" "length y mod 8 = 0"
  shows "deflate_block typ out (bs @ y) = (out', Inr (r @ y))"
proof -
  have "typ = 0 \<or> typ = 1 \<or> typ = 2" using assms(1) by (auto simp: deflate_block_def split: if_splits)
  then show ?thesis
    using assms stored_block_extends[of out bs out' r y] huff_block_extends[of _ _ out _ out' r y]
      extendsD[OF get_tables_extends, of bs]
    by (auto simp: deflate_block_def split: sum.splits prod.splits)
qed

lemma inflate_extends:
  "inflate out bs = (out', Inr r) \<Longrightarrow> length y mod 8 = 0 \<Longrightarrow> inflate out (bs @ y) = (out', Inr (r @ y))"
proof (induction out bs rule: inflate.induct)
  case (1 out bs)
  obtain x t where x: "get_bits 3 bs = Inr (x, t)"
    using 1(2) by (auto simp: inflate.simps[of out bs] split: sum.splits)
  obtain out1 t1 where b: "deflate_block (x div 2) out t = (out1, Inr t1)"
    using 1(2) x by (auto simp: inflate.simps[of out bs] split: sum.splits prod.splits)
  have "get_bits 3 (bs @ y) = Inr (x, t @ y)" by (rule extendsD[OF get_bits_parsing(2) x])
  moreover have "deflate_block (x div 2) out (t @ y) = (out1, Inr (t1 @ y))"
    by (rule deflate_block_extends[OF b 1(3)])
  ultimately show ?case
    using 1(1)[OF x refl b[symmetric] refl _ _ 1(3)] 1(2) x b
    by (auto simp: inflate.simps[of out bs] inflate.simps[of out "bs @ y"] split: if_splits)
qed

lemma read_member_extends:
  assumes "read_member bs = (out, Inr r)"
  shows "read_member (bs @ y) = (out, Inr (r @ y))"
proof -
  obtain t where t: "inflate [] (bits_of bs) = (out, Inr t)"
    using assms by (auto simp: read_member_def Let_def split: prod.splits sum.splits flate_err.splits if_splits)
  define k where "k = length bs - length t div 8"
  have "inflate [] (bits_of (bs @ y)) = (out, Inr (t @ bits_of y))" using inflate_extends[OF t] by simp
  moreover have "length (bs @ y) - length (t @ bits_of y) div 8 = k" by (simp add: k_def)
  moreover have "drop k (bs @ y) = drop k bs @ y" by (simp add: k_def)
  ultimately show ?thesis
    using assms t by (auto simp: read_member_def Let_def k_def[symmetric] split: if_splits)
qed

lemma skip_bytes_extends: "skip_bytes n bs = Inr r \<Longrightarrow> skip_bytes n (bs @ y) = Inr (r @ y)"
  by (auto simp: skip_bytes_def split: if_splits)

lemma skip_string_extends: "skip_string n bs = Inr r \<Longrightarrow> skip_string n (bs @ y) = Inr (r @ y)"
  by (induction n bs rule: skip_string.induct) (auto split: if_splits)

lemma skip_extra_extends: "skip_extra flg bs = Inr r \<Longrightarrow> skip_extra flg (bs @ y) = Inr (r @ y)"
  by (auto simp: skip_extra_def skip_bytes_def split: if_splits)

lemma skip_text_extends: "skip_text k flg bs = Inr r \<Longrightarrow> skip_text k flg (bs @ y) = Inr (r @ y)"
  by (auto simp: skip_text_def skip_string_extends split: if_splits)

lemma skip_crc_extends:
  "skip_crc flg all bs = Inr r \<Longrightarrow> length bs \<le> length all \<Longrightarrow> skip_crc flg (all @ y) (bs @ y) = Inr (r @ y)"
  by (auto simp: skip_crc_def split: if_splits)

lemma read_header_extends:
  assumes "read_header bs = Inr r"
  shows "read_header (bs @ y) = Inr (r @ y)"
proof -
  obtain r1 r2 r3 where p: "10 \<le> length bs" "take 3 bs = [0x1f, 0x8b, 8]"
      "skip_extra (bs ! 3) (drop 10 bs) = Inr r1" "skip_text 3 (bs ! 3) r1 = Inr r2"
      "skip_text 4 (bs ! 3) r2 = Inr r3" "skip_crc (bs ! 3) bs r3 = Inr r"
    using assms by (auto simp: read_header_def Let_def split: if_splits sum.splits)
  have "length r3 \<le> length bs"
    using skip_extra_shrinks[OF p(3)] skip_text_shrinks[OF p(4)] skip_text_shrinks[OF p(5)] by simp
  then show ?thesis
    using p skip_extra_extends[OF p(3), of y] skip_text_extends[OF p(4), of y]
      skip_text_extends[OF p(5), of y] skip_crc_extends[OF p(6), of y]
    by (auto simp: read_header_def nth_append)
qed

section \<open>Cut streams\<close>

text \<open>A stream of one member: a header, the member, and nothing after it.\<close>

definition one_member :: "u8 list \<Rightarrow> u8 list \<Rightarrow> bool" where
  "one_member z out \<longleftrightarrow> (\<exists>r. read_header z = Inr r \<and> read_member r = (out, Inr []))"

lemma read_members_None:
  "read_members e bs = (out, None) \<Longrightarrow> \<exists>out1 r. read_member bs = (out1, Inr r)"
  by (subst (asm) read_members.simps) (auto split: prod.splits sum.splits)

lemma one_member_reads: "one_member z out \<Longrightarrow> gzip_NewReader [(z, None)] = Inr [(out, None)]"
proof -
  assume "one_member z out"
  then obtain r where r: "read_header z = Inr r" "read_member r = (out, Inr [])" by (auto simp: one_member_def)
  moreover have "read_header [] = Inl No_header" by (simp add: read_header_def)
  ultimately show ?thesis by (simp add: gzip_NewReader_def read_members.simps[of None r])
qed

text \<open>
  Such a stream that is cut anywhere, or that ends in a read error, is not read to its end without
  an error.
\<close>

lemma read_members_error_end: "read_members (Some err) bs = (out, e) \<Longrightarrow> e \<noteq> None"
proof (induction "Some err" bs arbitrary: out e rule: read_members.induct)
  case (1 bs)
  then show ?case
    by (subst (asm) (2) read_members.simps)
      (fastforce split: prod.splits sum.splits header_err.splits)
qed

lemma cut_member_fails:
  assumes "one_member (p @ y) out" "y \<noteq> [] \<or> e \<noteq> None"
    and "delivered src = (p, e)" "gzip_NewReader src = Inr stream"
  shows "snd (delivered stream) \<noteq> None"
proof
  assume d: "snd (delivered stream) = None"
  obtain r where r: "read_header p = Inr r" "stream = [read_members e r]"
    using assms(3,4) by (auto simp: gzip_NewReader_def split: sum.splits)
  obtain o1 where o1: "read_members e r = (o1, None)"
    using d r(2) by (cases "read_members e r") (auto split: option.splits)
  then obtain out1 t where t: "read_member r = (out1, Inr t)" using read_members_None by blast
  have "read_header (p @ y) = Inr (r @ y)" by (rule read_header_extends[OF r(1)])
  moreover have "read_member (r @ y) = (out1, Inr (t @ y))" by (rule read_member_extends[OF t])
  ultimately have "y = []" using assms(1) by (auto simp: one_member_def)
  moreover have "e = None" using read_members_error_end o1 by (cases e) auto
  ultimately show False using assms(2) by simp
qed

section \<open>Stored encodings\<close>

text \<open>An encoder that does not compress: blocks of at most 65535 bytes.\<close>

function stored_blocks :: "u8 list \<Rightarrow> u8 list" where
  "stored_blocks bs =
     (if length bs \<le> 65535
      then 1 # le_bytes 2 (length bs) @ le_bytes 2 (65535 - length bs) @ bs
      else 0 # le_bytes 2 65535 @ le_bytes 2 0 @ take 65535 bs @ stored_blocks (drop 65535 bs))"
  by pat_completeness auto
termination
  by (relation "measure length") auto

declare stored_blocks.simps [simp del]

definition gzip_stored :: "u8 list \<Rightarrow> u8 list" where
  "gzip_stored bs =
     [0x1f, 0x8b, 8, 0, 0, 0, 0, 0, 0, 0xff] @ stored_blocks bs
       @ le_bytes 4 (unat (crc32 bs)) @ le_bytes 4 (length bs mod 2 ^ 32)"

lemma get_bits_bytes:
  "length bs = k \<Longrightarrow> n = 8 * k \<Longrightarrow> get_bits n (bits_of bs @ y) = Inr (le_nat bs, y)"
  by (simp add: get_bits_def bits_nat_bytes)

lemma get_stored_length_bytes:
  assumes "n \<le> 65535"
  shows "get_stored_length (bits_of (le_bytes 2 n) @ bits_of (le_bytes 2 (65535 - n)) @ y) = Inr ((n, 65535 - n), y)"
  using assms get_bits_bytes[of "le_bytes 2 n" 2 16] get_bits_bytes[of "le_bytes 2 (65535 - n)" 2 16]
  by (simp add: get_stored_length_def and_then_def yields_def le_nat_bytes)

lemma stored_block_bytes:
  assumes "length bs \<le> 65535" "length y mod 8 = 0" "length pad < 8"
  shows "stored_block out (pad @ bits_of (le_bytes 2 (length bs)) @ bits_of (le_bytes 2 (65535 - length bs))
      @ bits_of bs @ y) = (out @ bs, Inr y)"
proof -
  define z where "z = bits_of (le_bytes 2 (length bs)) @ bits_of (le_bytes 2 (65535 - length bs)) @ bits_of bs @ y"
  have "length z mod 8 = 0" using assms(2) by (simp add: z_def mod_add_eq[symmetric] add.assoc)
  then have "length (pad @ z) mod 8 = length pad" using assms(3) by (simp add: mod_add_eq[symmetric])
  then have pad: "drop (length (pad @ z) mod 8) (pad @ z) = z" by simp
  show ?thesis
    unfolding z_def[symmetric] stored_block_def pad
    using get_stored_length_bytes[OF assms(1)] by (simp add: z_def bytes_of_bits_bytes)
qed

lemma byte_bits_small: "byte_bits 0 = replicate 8 False" "byte_bits 1 = True # replicate 7 False"
  by (simp_all add: byte_bits_def upt_rec numeral_eq_Suc bit_0 bit_Suc del: upt_Suc)

lemma get_block_header:
  "get_bits 3 (byte_bits 0 @ z) = Inr (0, replicate 5 False @ z)"
  "get_bits 3 (byte_bits 1 @ z) = Inr (1, replicate 5 False @ z)"
  by (simp_all add: get_bits_def byte_bits_small numeral_eq_Suc)

lemma inflate_stored:
  assumes "length y mod 8 = 0"
  shows "inflate out (bits_of (stored_blocks bs) @ y) = (out @ bs, Inr y)"
proof (induction bs arbitrary: out rule: stored_blocks.induct)
  case (1 bs)
  show ?case
  proof (cases "length bs \<le> 65535")
    case True
    have "get_bits 3 (bits_of (stored_blocks bs) @ y) = Inr (1, replicate 5 False
        @ bits_of (le_bytes 2 (length bs)) @ bits_of (le_bytes 2 (65535 - length bs)) @ bits_of bs @ y)"
      using True by (simp add: stored_blocks.simps[of bs] get_block_header)
    moreover have "deflate_block 0 out (replicate 5 False
        @ bits_of (le_bytes 2 (length bs)) @ bits_of (le_bytes 2 (65535 - length bs)) @ bits_of bs @ y)
        = (out @ bs, Inr y)"
      using stored_block_bytes[OF True assms, of "replicate 5 False"] by (simp add: deflate_block_def)
    ultimately show ?thesis by (simp add: inflate.simps)
  next
    case False
    let ?z = "bits_of (stored_blocks (drop 65535 bs)) @ y"
    have len: "length (take 65535 bs) = 65535" using False by simp
    have "get_bits 3 (bits_of (stored_blocks bs) @ y) = Inr (0, replicate 5 False
        @ bits_of (le_bytes 2 65535) @ bits_of (le_bytes 2 0) @ bits_of (take 65535 bs) @ ?z)"
      using False by (simp add: stored_blocks.simps[of bs] get_block_header)
    moreover have "length ?z mod 8 = 0" using assms by (simp add: mod_add_eq[symmetric])
    then have "deflate_block 0 out (replicate 5 False
        @ bits_of (le_bytes 2 65535) @ bits_of (le_bytes 2 0) @ bits_of (take 65535 bs) @ ?z)
        = (out @ take 65535 bs, Inr ?z)"
      using stored_block_bytes[of "take 65535 bs" ?z "replicate 5 False" out] len by (simp add: deflate_block_def)
    ultimately show ?thesis
      using 1[OF False, of "out @ take 65535 bs"] by (simp add: inflate.simps[of out "bits_of (stored_blocks bs) @ y"])
  qed
qed

text \<open>A stored encoding is one member, and it holds exactly its bytes.\<close>

lemma gzip_stored_member: "one_member (gzip_stored bs) bs"
proof -
  define trailer where "trailer = le_bytes 4 (unat (crc32 bs)) @ le_bytes 4 (length bs mod 2 ^ 32)"
  let ?r = "stored_blocks bs @ trailer"
  have h: "read_header (gzip_stored bs) = Inr ?r"
    by (simp add: gzip_stored_def trailer_def read_header_def skip_extra_def skip_text_def skip_crc_def)
  have len: "length trailer = 8" by (simp add: trailer_def)
  have i: "inflate [] (bits_of ?r) = (bs, Inr (bits_of trailer))"
    using inflate_stored[of "bits_of trailer" "[]" bs] by simp
  have d: "drop (length ?r - length (bits_of trailer) div 8) ?r = trailer" by (simp add: len)
  have "unat (crc32 bs) < 2 ^ 32" using unsigned_less[of "crc32 bs"] by simp
  then have "le_nat (take 4 trailer) = unat (crc32 bs)" by (simp add: trailer_def le_nat_bytes)
  moreover have "le_nat (drop 4 trailer) = length bs mod 2 ^ 32" by (simp add: trailer_def le_nat_bytes)
  ultimately have "read_member ?r = (bs, Inr [])"
    unfolding read_member_def i by (simp add: d len)
  with h show ?thesis by (auto simp: one_member_def)
qed

end
