(* ===== verification/Fetcher_Correct.thy ===== *)
theory Fetcher_Correct
  imports Fetcher Gzip_Correct
begin

text \<open>
  What a refresh promises: which requests it sends, which months they name, what the bounded
  decompression accepts, and what each outcome does to the active blocklist, the cache file and
  the remembered validators.
\<close>

section \<open>Decompression\<close>

lemma decompress_Inr_iff:
  "decompress r = Inr bs \<longleftrightarrow>
     (\<exists>stream. gzip_NewReader r = Inr stream \<and> delivered stream = (bs, None) \<and> length bs \<le> maxDecompressedBytes)"
proof (cases "gzip_NewReader r")
  case (Inr stream)
  show ?thesis
  proof (cases "length (fst (delivered stream)) \<le> maxDecompressedBytes")
    case True
    then have "read_limited (maxDecompressedBytes + 1) stream = delivered stream"
      by (intro read_limited_whole) simp
    then show ?thesis using Inr True
      by (cases "delivered stream") (auto simp: decompress_def split: option.split)
  next
    case False
    then have "length (fst (read_limited (maxDecompressedBytes + 1) stream)) = maxDecompressedBytes + 1"
      by (intro read_limited_cut) simp
    then show ?thesis using Inr False
      by (cases "read_limited (maxDecompressedBytes + 1) stream")
        (auto simp: decompress_def split: option.split)
  qed
qed (simp add: decompress_def)

text \<open>
  A body decompresses to some bytes exactly when the gzip reader opens it, delivers
  those bytes to the end with its checksum in order, and they are at most 512 MiB: damage anywhere
  in the stream and any excess over the cap are errors, never a shortened database.
\<close>

lemma decompress_exact:
  "decompress r = Inr bs \<longleftrightarrow>
     (\<exists>stream. gzip_NewReader r = Inr stream \<and> delivered stream = (bs, None) \<and> length bs \<le> 512 * 1024 * 1024)"
  by (simp add: decompress_Inr_iff maxDecompressedBytes_def)

lemma gzip_stored_reads: "gzip_NewReader (bytes_reader (gzip_stored bs)) = Inr [(bs, None)]"
  using one_member_reads[OF gzip_stored_member] by (simp add: bytes_reader_def)

text \<open>
  C35 (bounds). What a server compressed without loss comes back: the stored encoding of any bytes
  up to the cap decompresses to exactly those bytes, and the encoding of more bytes than the cap is
  refused with the error that names it.
\<close>

theorem decompress_stored:
  "decompress (bytes_reader (gzip_stored bs)) =
     (if length bs \<le> 512 * 1024 * 1024 then Inr bs
      else Inl (Errorf ''fetcher: decompressed stream exceeds %d-byte cap'' [FInt 536870912]))"
  by (auto simp: decompress_def gzip_stored_reads maxDecompressedBytes_def)

lemma sample_body: "decompress (bytes_reader (gzip_stored [1, 2])) = Inr [1, 2]"
  by (simp add: decompress_Inr_iff maxDecompressedBytes_def gzip_stored_reads)

lemma cut_body_fails:
  assumes "one_member (p @ y) out" "y \<noteq> [] \<or> e \<noteq> None" "delivered src = (p, e)"
  shows "\<exists>err. decompress src = Inl err"
proof (rule ccontr)
  assume "\<nexists>err. decompress src = Inl err"
  then obtain bs where "decompress src = Inr bs" by (cases "decompress src") auto
  then obtain stream where "gzip_NewReader src = Inr stream" "delivered stream = (bs, None)"
    by (auto simp: decompress_Inr_iff)
  with cut_member_fails[OF assms this(1)] show False by simp
qed

text \<open>
  The gzip reader concatenates members, so a stream that is cut between two of them is accepted as
  the shorter file that it is then; the comment on \<open>decompress\<close> expects a single stream.
\<close>

lemma gzip_members_concatenate:
  "gzip_NewReader (bytes_reader (gzip_stored as @ gzip_stored bs)) = Inr [(as @ bs, None)]"
proof -
  obtain r where r: "read_header (gzip_stored as) = Inr r" "read_member r = (as, Inr [])"
    using gzip_stored_member[of as] by (auto simp: one_member_def)
  obtain r' where r': "read_header (gzip_stored bs) = Inr r'" "read_member r' = (bs, Inr [])"
    using gzip_stored_member[of bs] by (auto simp: one_member_def)
  have "read_header [] = Inl No_header" by (simp add: read_header_def)
  then have "read_members None r' = (bs, None)" using r'(2) by (simp add: read_members.simps[of None r'])
  moreover have "read_member (r @ gzip_stored bs) = (as, Inr (gzip_stored bs))"
    using read_member_extends[OF r(2)] by simp
  ultimately have "read_members None (r @ gzip_stored bs) = (as @ bs, None)"
    using r'(1) by (simp add: read_members.simps[of None "r @ gzip_stored bs"])
  then show ?thesis using read_header_extends[OF r(1)] by (simp add: gzip_NewReader_def)
qed

section \<open>Months\<close>

lemma utc_day_add: "utc_day (add_days t k) = utc_day t + k"
  by (simp add: utc_day_def add_days_def)

text \<open>
  C36 (functional). Going back by the day of the month reaches the previous calendar month for
  every instant: the second file a refresh asks for is the one published just before the first,
  over year ends and after leap days too.
\<close>

theorem prior_month_is_previous:
  "current_month (prior_instant now)
     = (case utc_date now of (y, m, d) \<Rightarrow> format_month (if m = 1 then (y - 1, 12) else (y, m - 1)))"
proof -
  obtain y m d where D: "utc_date now = (y, m, d)" by (metis prod_cases3)
  obtain y' m' d' where E: "utc_date (add_days now (- d)) = (y', m', d')" by (metis prod_cases3)
  have "date_of_days (utc_day now - d) = (y', m', d')"
    using E by (simp add: utc_date_def utc_day_add)
  from prior_month[OF _ this] D have "(y', m') = month_before (y, m)" by (simp add: utc_date_def)
  then show ?thesis by (simp add: current_month_def prior_instant_def D E month_before_def)
qed

section \<open>Requests\<close>

lemma get_sent: "snd (get f env month) = (if bad_url env (month_url f month) = None then [month_request f month] else [])"
  by (simp add: get_def Let_def split: option.split)

text \<open>A 404 answer is the only result with status 404, and a 304 the only unmodified one.\<close>

lemma get_Inr_iff:
  "fst (get f env month) = Inr (body, nm, v, st) \<longleftrightarrow>
     bad_url env (month_url f month) = None \<and>
     (\<exists>resp. network env (month_request f month) = Inr resp \<and> status resp = st \<and>
        (st = 200 \<and> \<not> nm \<and> decompress (resp_body resp) = Inr body
           \<and> v = \<lparr>v_etag = header_get (resp_header resp) ''ETag'',
                  v_lastModified = header_get (resp_header resp) ''Last-Modified''\<rparr>
         \<or> st = 304 \<and> nm \<and> body = [] \<and> v = \<lparr>v_etag = etag f, v_lastModified = lastModified f\<rparr>
         \<or> st = 404 \<and> \<not> nm \<and> body = [] \<and> v = \<lparr>v_etag = '''', v_lastModified = ''''\<rparr>))"
  by (auto simp: get_def Let_def split: option.splits sum.splits if_splits)

definition env_months :: "refresher \<Rightarrow> refresh_env \<Rightarrow> string \<times> string" where
  "env_months s env =
     (let now = f_now (fetcher_of s) (wall_clock env)
      in (current_month now, current_month (prior_instant now)))"

lemma fetch_Inr:
  assumes "fetch f env = (Inr (body, nm, v), l, sent)"
  obtains month st where
    "month \<in> {current_month (f_now f (wall_clock env)),
        current_month (prior_instant (f_now f (wall_clock env)))}"
    "fst (get f env month) = Inr (body, nm, v, st)" "st \<noteq> 404"
proof -
  define now where "now = f_now f (wall_clock env)"
  obtain r sent1 where g: "get f env (current_month now) = (r, sent1)" by (cases "get f env (current_month now)")
  obtain b n w st where r: "r = Inr (b, n, w, st)"
    using assms g by (cases r) (auto simp: fetch_def Let_def now_def)
  show thesis
  proof (cases "st = 404")
    case False
    then show thesis using that[of "current_month now" st] assms g r by (auto simp: fetch_def Let_def now_def)
  next
    case True
    obtain r' sent' where g': "get f env (current_month (prior_instant now)) = (r', sent')"
      by (cases "get f env (current_month (prior_instant now))")
    obtain b' n' w' st' where r': "r' = Inr (b', n', w', st')"
      using assms g g' r True by (cases r') (auto simp: fetch_def Let_def now_def)
    show thesis
      using that[of "current_month (prior_instant now)" st'] assms g g' r r' True
      by (auto simp: fetch_def Let_def now_def split: if_splits)
  qed
qed

section \<open>Outcomes\<close>

text \<open>The five ways a refresh returns.\<close>

lemma Refresh_cases:
  assumes "Refresh mmdb_open env s = Some ((out, err), s')"
  obtains (fetch_failed) e l sent where "fetch (fetcher_of s) env = (Inl e, l, sent)"
      "out = OutcomeUnchanged" "err = Some e" "s' = s\<lparr>logs := logs s @ l, requests := requests s @ sent\<rparr>"
  | (unchanged) body v l sent l' where "fetch (fetcher_of s) env = (Inr (body, True, v), l, sent)"
      "out = OutcomeUnchanged" "err = None"
      "s' = s\<lparr>requests := requests s @ sent, logs := l'\<rparr>"
  | (write_failed) body v l sent e F where "fetch (fetcher_of s) env = (Inr (body, False, v), l, sent)"
      "write_files (cachePath (fetcher_of s)) (disk_calls env) (bytes_reader body) (fsys s) = (Some e, F)"
      "out = OutcomeUnchanged" "err = Some (Wrapf ''fetcher: write cache: %w'' [] e)"
      "s' = s\<lparr>logs := logs s @ l, requests := requests s @ sent, fsys := F\<rparr>"
  | (load_failed) body v l sent e F where "fetch (fetcher_of s) env = (Inr (body, False, v), l, sent)"
      "write_files (cachePath (fetcher_of s)) (disk_calls env) (bytes_reader body) (fsys s) = (None, F)"
      "LoadCountryBlocklist (Open mmdb_open (open_fault env)) (cachePath (fetcher_of s))
         (map_option data (F (cachePath (fetcher_of s)))) (countries (fetcher_of s)) = Some (Inl e)"
      "out = OutcomeUnchanged" "err = Some (Wrapf ''fetcher: load fetched mmdb: %w'' [] e)"
      "s' = s\<lparr>logs := logs s @ l, requests := requests s @ sent, fsys := F\<rparr>"
  | (updated) body v l sent F t l' where "fetch (fetcher_of s) env = (Inr (body, False, v), l, sent)"
      "write_files (cachePath (fetcher_of s)) (disk_calls env) (bytes_reader body) (fsys s) = (None, F)"
      "LoadCountryBlocklist mmdb_open (cachePath (fetcher_of s))
         (map_option data (F (cachePath (fetcher_of s)))) (countries (fetcher_of s)) = Some (Inr t)"
      "out = OutcomeUpdated" "err = None"
      "s' = s\<lparr>requests := requests s @ sent, fsys := F, active := Swap (Some t) (active s),
         fetcher_of := (fetcher_of s)\<lparr>etag := v_etag v, lastModified := v_lastModified v\<rparr>, logs := l'\<rparr>"
proof -
  obtain r l sent where f: "fetch (fetcher_of s) env = (r, l, sent)" by (metis prod_cases3)
  show thesis
  proof (cases r)
    case (Inl e)
    then show thesis using assms f by (intro fetch_failed) (auto simp: Refresh_def Let_def)
  next
    case (Inr x)
    obtain body nm v where x: "x = (body, nm, v)" by (cases x)
    show thesis
    proof (cases nm)
      case True
      then show thesis using assms f Inr x by (intro unchanged) (auto simp: Refresh_def Let_def)
    next
      case False
      obtain w F where w: "write_files (cachePath (fetcher_of s)) (disk_calls env) (bytes_reader body) (fsys s) = (w, F)"
        by (cases "write_files (cachePath (fetcher_of s)) (disk_calls env) (bytes_reader body) (fsys s)")
      obtain x' where t: "LoadCountryBlocklist (Open mmdb_open (open_fault env)) (cachePath (fetcher_of s))
          (map_option data (F (cachePath (fetcher_of s)))) (countries (fetcher_of s)) = Some x'"
        using LoadCountryBlocklist_returns by blast
      show thesis
      proof (cases w)
        case (Some e)
        then show thesis using assms f Inr x False w by (intro write_failed) (auto simp: Refresh_def Let_def)
      next
        case None
        show thesis
        proof (cases x')
          case (Inl e)
          then show thesis using assms f \<open>r = Inr x\<close> x False w t None
            by (intro load_failed[of body v l sent F e]) (auto simp: Refresh_def Let_def)
        next
          case (Inr t')
          have "LoadCountryBlocklist mmdb_open (cachePath (fetcher_of s))
              (map_option data (F (cachePath (fetcher_of s)))) (countries (fetcher_of s)) = Some (Inr t')"
            using t Inr by simp
          then show thesis using assms f \<open>r = Inr x\<close> x False w t None Inr
            by (intro updated[of body v l sent F t']) (auto simp: Refresh_def Let_def)
        qed
      qed
    qed
  qed
qed


lemma write_files_cases:
  assumes "write_files path env src F = (r, F')" "temp_fresh env path F"
  shows "r = None \<Longrightarrow> F' = F(path \<mapsto> snapshot env (fst (delivered src)))"
    and "r = Some e \<Longrightarrow> F' path = F path"
  using assms cache_Write_files[of env path src F]
  by (auto simp: write_files_def split: prod.splits)

lemma write_files_path:
  assumes "write_files path env src F = (r, F')" "temp_fresh env path F"
  shows "F' path = (if r = None then Some (snapshot env (fst (delivered src))) else F path)"
  using write_files_cases[OF assms] by (cases r) simp_all

text \<open>After an update the cache file and the active trie come from the same bytes.\<close>

lemma Refresh_updated:
  assumes "Refresh mmdb_open env s = Some ((OutcomeUpdated, err), s')"
    and "temp_fresh (disk_calls env) (cachePath (fetcher_of s)) (fsys s)"
  obtains body t where "fsys s' (cachePath (fetcher_of s)) = Some (snapshot (disk_calls env) body)"
    "LoadCountryBlocklist mmdb_open (cachePath (fetcher_of s)) (Some body) (countries (fetcher_of s)) = Some (Inr t)"
    "Current (active s') = Some t"
  using assms(1)
proof (cases rule: Refresh_cases)
  case (updated body v l sent F t l')
  then show thesis
    using that[of body t] write_files_path[OF updated(2) assms(2)] by (simp add: Swap_def Current_def)
qed simp_all

text \<open>A sample for the witnesses: a cold fetcher, and a server that has the current month.\<close>

definition sample_refresher :: refresher where
  "sample_refresher =
     \<lparr>fetcher_of = \<lparr>httpClient = \<lparr>client_timeout = 2 * minute, tls_min_version = 771\<rparr>, baseURL = defaultBaseURL,
        f_now = id, cachePath = sample_path, countries = [''CN''], etag = '''', lastModified = ''''\<rparr>,
      active = NewSource, fsys = old_files, logs = [], requests = []\<rparr>"

definition answering :: "int \<Rightarrow> refresh_env" where
  "answering st =
     \<lparr>wall_clock = 1785542400000000000, bad_url = (\<lambda>_. None),
      network = (\<lambda>req. Inr \<lparr>status = st, resp_header = [''Etag'' \<mapsto> [''v1'']], resp_body = bytes_reader (gzip_stored [1, 2])\<rparr>),
      disk_calls = sample_env, open_fault = None\<rparr>"

abbreviation sample_mmdb :: mmdb_open where "sample_mmdb \<equiv> \<lambda>_. Inr sample_reader"

lemma sample_env_fresh: "temp_fresh sample_env sample_path old_files"
  using sample_fresh[of None] by (simp add: sample_env_def)

text \<open>
  A refresh that returns an error, whatever went wrong, leaves the active blocklist
  and the remembered validators exactly as they were; the cache file is then the old one or, when
  only the load of the new database failed, the complete download.
\<close>

lemma refresh_failure_keeps_blocklist:
  assumes "Refresh mmdb_open env s = Some ((out, Some e), s')"
    and "temp_fresh (disk_calls env) (cachePath (fetcher_of s)) (fsys s)"
  shows "out = OutcomeUnchanged \<and> active s' = active s \<and> fetcher_of s' = fetcher_of s
    \<and> fsys s' (cachePath (fetcher_of s)) \<in>
        insert (fsys s (cachePath (fetcher_of s))) (range (\<lambda>bs. Some (snapshot (disk_calls env) bs)))"
  using assms by (cases rule: Refresh_cases) (auto simp: write_files_path)

lemma refresh_failure_keeps_blocklist_witness:
  "\<exists>out e s'. Refresh sample_mmdb (answering 503) sample_refresher = Some ((out, Some e), s')
     \<and> out = OutcomeUnchanged \<and> active s' = NewSource"
proof -
  have "\<exists>e s'. Refresh sample_mmdb (answering 503) sample_refresher = Some ((OutcomeUnchanged, Some e), s')"
    by (simp add: Refresh_def fetch_def get_def answering_def Let_def)
  then obtain e s' where r: "Refresh sample_mmdb (answering 503) sample_refresher
      = Some ((OutcomeUnchanged, Some e), s')" by blast
  have "temp_fresh (disk_calls (answering 503)) (cachePath (fetcher_of sample_refresher)) (fsys sample_refresher)"
    using sample_env_fresh by (simp add: answering_def sample_refresher_def)
  from refresh_failure_keeps_blocklist[OF r this] r show ?thesis
    by (simp add: sample_refresher_def)
qed

text \<open>
  C8 (safety). A download that breaks off changes nothing: if the body of a 200 answer, for the
  current month or after a 404 for the prior one, is a proper beginning of a gzip file of one
  member, wherever it was cut, or if the connection fails while it is read, the refresh returns an
  error and the active blocklist, the validators and every file stay as they are, so a good cache
  is never overwritten by a truncated database. (A file of several members that ends between two
  of them is no such case: lemma \<open>gzip_members_concatenate\<close>.)
\<close>

theorem truncated_download_changes_nothing:
  assumes "month = fst (env_months s env)
      \<or> month = snd (env_months s env) \<and> bad_url env (month_url (fetcher_of s) (fst (env_months s env))) = None
        \<and> (\<exists>resp0. network env (month_request (fetcher_of s) (fst (env_months s env))) = Inr resp0 \<and> status resp0 = 404)"
    and "bad_url env (month_url (fetcher_of s) month) = None"
    and "network env (month_request (fetcher_of s) month) = Inr resp" "status resp = 200"
    and "delivered (resp_body resp) = (p, e)" "one_member (p @ y) file" "y \<noteq> [] \<or> e \<noteq> None"
  shows "\<exists>err s'. Refresh mmdb_open env s = Some ((OutcomeUnchanged, Some err), s')
    \<and> active s' = active s \<and> fetcher_of s' = fetcher_of s \<and> fsys s' = fsys s"
proof -
  obtain err where "decompress (resp_body resp) = Inl err" using cut_body_fails[OF assms(6,7,5)] by blast
  then have g: "get (fetcher_of s) env month = (Inl err, [month_request (fetcher_of s) month])"
    using assms(2-4) by (simp add: get_def Let_def)
  have "fst (fetch (fetcher_of s) env) = Inl err"
    using assms(1)
  proof
    assume "month = fst (env_months s env)"
    then show ?thesis using g by (simp add: fetch_def env_months_def Let_def)
  next
    assume prior: "month = snd (env_months s env) \<and> bad_url env (month_url (fetcher_of s) (fst (env_months s env))) = None
        \<and> (\<exists>resp0. network env (month_request (fetcher_of s) (fst (env_months s env))) = Inr resp0 \<and> status resp0 = 404)"
    then have "\<exists>v. fst (get (fetcher_of s) env (fst (env_months s env))) = Inr ([], False, v, 404)"
      by (auto simp: get_def Let_def)
    then show ?thesis using g prior by (auto simp: fetch_def env_months_def Let_def split: prod.split)
  qed
  then show ?thesis by (auto simp: Refresh_def Let_def split: prod.split)
qed

text \<open>The first twenty bytes of a stored encoding, as an answer.\<close>

theorem truncated_download_changes_nothing_witness:
  "\<exists>err s'. Refresh sample_mmdb ((answering 200)\<lparr>network := \<lambda>req. Inr \<lparr>status = 200, resp_header = Map.empty,
      resp_body = bytes_reader (take 20 (gzip_stored [1, 2]))\<rparr>\<rparr>) sample_refresher
    = Some ((OutcomeUnchanged, Some err), s') \<and> fsys s' = old_files"
proof -
  let ?env = "(answering 200)\<lparr>network := \<lambda>req. Inr \<lparr>status = 200, resp_header = Map.empty,
      resp_body = bytes_reader (take 20 (gzip_stored [1, 2]))\<rparr>\<rparr>"
  have "length (gzip_stored [1, 2]) = 25" by (simp add: gzip_stored_def stored_blocks.simps)
  then have "drop 20 (gzip_stored [1, 2]) \<noteq> []" by simp
  moreover have "one_member (take 20 (gzip_stored [1, 2]) @ drop 20 (gzip_stored [1, 2])) [1, 2]"
    using gzip_stored_member[of "[1, 2]"] by simp
  ultimately show ?thesis
    using truncated_download_changes_nothing[of "fst (env_months sample_refresher ?env)" sample_refresher ?env
        "\<lparr>status = 200, resp_header = Map.empty, resp_body = bytes_reader (take 20 (gzip_stored [1, 2]))\<rparr>"
        "take 20 (gzip_stored [1, 2])" None "drop 20 (gzip_stored [1, 2])" "[1, 2]" sample_mmdb]
    by (fastforce simp: answering_def sample_refresher_def)
qed

lemma Refresh_updates:
  assumes "bad_url env (month_url (fetcher_of s) (fst (env_months s env))) = None"
    and "network env (month_request (fetcher_of s) (fst (env_months s env))) = Inr resp" "status resp = 200"
    and "decompress (resp_body resp) = Inr body"
    and "fst (write_files (cachePath (fetcher_of s)) (disk_calls env) (bytes_reader body) (fsys s)) = None"
    and "temp_fresh (disk_calls env) (cachePath (fetcher_of s)) (fsys s)"
    and "LoadCountryBlocklist mmdb_open (cachePath (fetcher_of s)) (Some body) (countries (fetcher_of s)) = Some (Inr t)"
    and "open_fault env = None"
  shows "\<exists>s'. Refresh mmdb_open env s = Some ((OutcomeUpdated, None), s') \<and> Current (active s') = Some t"
proof -
  obtain F where w: "write_files (cachePath (fetcher_of s)) (disk_calls env) (bytes_reader body) (fsys s) = (None, F)"
    using assms(5) by (metis prod.collapse)
  have "F (cachePath (fetcher_of s)) = Some (snapshot (disk_calls env) body)"
    using write_files_cases(1)[OF w assms(6)] by simp
  then show ?thesis
    using assms(1-4,7,8) w
    by (simp add: Refresh_def fetch_def get_def env_months_def Let_def Swap_def Current_def)
qed

text \<open>A download that the loader refuses has replaced the cache by then.\<close>

lemma Refresh_unloadable:
  assumes "bad_url renv (month_url (fetcher_of st0) (fst (env_months st0 renv))) = None"
    and "network renv (month_request (fetcher_of st0) (fst (env_months st0 renv))) = Inr resp" "status resp = 200"
    and "decompress (resp_body resp) = Inr bs"
    and "fst (write_files (cachePath (fetcher_of st0)) (disk_calls renv) (bytes_reader bs) (fsys st0)) = None"
    and "temp_fresh (disk_calls renv) (cachePath (fetcher_of st0)) (fsys st0)"
    and "LoadCountryBlocklist mmdb_open (cachePath (fetcher_of st0)) (Some bs) (countries (fetcher_of st0)) = Some (Inl e)"
  obtains err st where "Refresh mmdb_open renv st0 = Some ((OutcomeUnchanged, Some err), st)"
    "active st = active st0" "fsys st = (fsys st0)(cachePath (fetcher_of st0) \<mapsto> snapshot (disk_calls renv) bs)"
proof -
  obtain F where w: "write_files (cachePath (fetcher_of st0)) (disk_calls renv) (bytes_reader bs) (fsys st0) = (None, F)"
    using assms(5) by (metis prod.collapse)
  have "F = (fsys st0)(cachePath (fetcher_of st0) \<mapsto> snapshot (disk_calls renv) bs)"
    using write_files_cases(1)[OF w assms(6)] by simp
  moreover obtain e' where "LoadCountryBlocklist (Open mmdb_open (open_fault renv)) (cachePath (fetcher_of st0))
      (Some bs) (countries (fetcher_of st0)) = Some (Inl e')"
    using assms(7) LoadCountryBlocklist_returns[of "Open mmdb_open (open_fault renv)" "cachePath (fetcher_of st0)" "Some bs"
        "countries (fetcher_of st0)"]
    by (metis LoadCountryBlocklist_Open Inl_Inr_False option.inject sum.exhaust)
  ultimately show thesis
    using assms(1-4) w that by (simp add: Refresh_def fetch_def get_def env_months_def Let_def)
qed

lemma sample_refresh:
  obtains t s' where "LoadCountryBlocklist sample_mmdb sample_path (Some [1, 2]) [''CN''] = Some (Inr t)"
    "Refresh sample_mmdb (answering 200) sample_refresher = Some ((OutcomeUpdated, None), s')"
    "Current (active s') = Some t"
proof -
  obtain t where t: "LoadCountryBlocklist sample_mmdb sample_path (Some [1, 2]) [''CN''] = Some (Inr t)"
    using sample_load by blast
  note d = sample_body
  have w: "fst (write_files sample_path sample_env (bytes_reader [1, 2]) old_files) = None"
    by (simp add: write_files_def sample_write)
  have "\<exists>s'. Refresh sample_mmdb (answering 200) sample_refresher = Some ((OutcomeUpdated, None), s')
      \<and> Current (active s') = Some t"
    by (rule Refresh_updates[of _ _
          "\<lparr>status = 200, resp_header = [''Etag'' \<mapsto> [''v1'']], resp_body = bytes_reader (gzip_stored [1, 2])\<rparr>" "[1, 2]"])
      (use t d w sample_env_fresh in \<open>simp_all add: answering_def sample_refresher_def\<close>)
  then show thesis using t that by blast
qed

text \<open>
  C7 (refinement). An update publishes one complete database: the server answered 200 for the
  current or the prior month, the body decompressed whole, the cache file is exactly those bytes,
  the active trie is the one the loader builds from them, and the validators remembered are the
  ones of that answer. Nothing else in the file system changed.
\<close>

theorem refresh_update_publishes:
  assumes "Refresh mmdb_open env s = Some ((OutcomeUpdated, err), s')"
    and "temp_fresh (disk_calls env) (cachePath (fetcher_of s)) (fsys s)"
  shows "\<exists>month resp body t.
    month \<in> {fst (env_months s env), snd (env_months s env)}
    \<and> network env (month_request (fetcher_of s) month) = Inr resp \<and> status resp = 200
    \<and> decompress (resp_body resp) = Inr body
    \<and> LoadCountryBlocklist mmdb_open (cachePath (fetcher_of s)) (Some body) (countries (fetcher_of s)) = Some (Inr t)
    \<and> Current (active s') = Some t
    \<and> fsys s' = (fsys s)(cachePath (fetcher_of s) \<mapsto> snapshot (disk_calls env) body)
    \<and> fetcher_of s' = (fetcher_of s)\<lparr>etag := header_get (resp_header resp) ''ETag'',
        lastModified := header_get (resp_header resp) ''Last-Modified''\<rparr>"
  using assms(1)
proof (cases rule: Refresh_cases)
  case (updated body v l sent F t l')
  from fetch_Inr[OF updated(1)] obtain month st where
    m: "month \<in> {fst (env_months s env), snd (env_months s env)}"
      "fst (get (fetcher_of s) env month) = Inr (body, False, v, st)" "st \<noteq> 404"
    by (auto simp: env_months_def Let_def)
  from m(2,3) obtain resp where resp: "network env (month_request (fetcher_of s) month) = Inr resp"
      "status resp = 200" "decompress (resp_body resp) = Inr body"
      "v = \<lparr>v_etag = header_get (resp_header resp) ''ETag'',
          v_lastModified = header_get (resp_header resp) ''Last-Modified''\<rparr>"
    by (auto simp: get_Inr_iff)
  have F: "F = (fsys s)(cachePath (fetcher_of s) \<mapsto> snapshot (disk_calls env) body)"
    using write_files_cases(1)[OF updated(2) assms(2)] by simp
  show ?thesis
    using m(1) resp updated(3,6) F
    by (intro exI[of _ month] exI[of _ resp] exI[of _ body] exI[of _ t]) (simp add: Swap_def Current_def)
qed simp_all

theorem refresh_update_publishes_witness:
  "\<exists>s' t body. Refresh sample_mmdb (answering 200) sample_refresher = Some ((OutcomeUpdated, None), s')
     \<and> Current (active s') = Some t \<and> fsys s' = old_files(sample_path \<mapsto> snapshot sample_env body)
     \<and> etag (fetcher_of s') = ''v1''"
proof -
  obtain t s' where r: "Refresh sample_mmdb (answering 200) sample_refresher = Some ((OutcomeUpdated, None), s')"
    using sample_refresh by blast
  have "header_get [''Etag'' \<mapsto> [''v1'']] ''ETag'' = ''v1''"
    by (simp add: header_get_def canonical_key_def ascii_upper_def ascii_lower_def char_of_def bit_0)
  moreover have "temp_fresh (disk_calls (answering 200)) (cachePath (fetcher_of sample_refresher)) (fsys sample_refresher)"
    using sample_env_fresh by (simp add: answering_def sample_refresher_def)
  note refresh_update_publishes[OF r this]
  ultimately show ?thesis using r by (force simp: answering_def sample_refresher_def)
qed

text \<open>
  A refresh sends at most two requests: the current month's, and the prior month's
  only after a 404 for the current one. Both carry the remembered validators and nothing else.
\<close>

lemma refresh_requests:
  assumes "Refresh mmdb_open env s = Some (res, s')" and "env_months s env = (current, prior)"
  shows "\<exists>sent. requests s' = requests s @ sent
    \<and> (sent = [] \<or> sent = [month_request (fetcher_of s) current]
       \<or> sent = [month_request (fetcher_of s) current, month_request (fetcher_of s) prior]
         \<and> (\<exists>resp. network env (month_request (fetcher_of s) current) = Inr resp \<and> status resp = 404))"
proof -
  define f where "f = fetcher_of s"
  have m: "current_month (f_now f (wall_clock env)) = current"
      "current_month (prior_instant (f_now f (wall_clock env))) = prior"
    using assms(2) by (simp_all add: env_months_def f_def Let_def)
  define g where "g = get f env current"
  define g' where "g' = get f env prior"
  obtain r l sent where fe: "fetch f env = (r, l, sent)" by (metis prod_cases3)
  have sent: "sent = snd g \<or> sent = snd g @ snd g' \<and> (\<exists>b n v. fst g = Inr (b, n, v, 404))"
    using fe by (auto simp: fetch_def m Let_def g_def[symmetric] g'_def[symmetric]
        split: sum.splits prod.splits if_splits)
  have two: "\<exists>resp. network env (month_request f current) = Inr resp \<and> status resp = 404"
      "bad_url env (month_url f current) = None" if "fst g = Inr (b, n, v, 404)" for b n v
    using that by (auto simp: g_def get_Inr_iff)
  obtain out err where res: "Refresh mmdb_open env s = Some ((out, err), s')"
    using assms(1) by (cases res) simp
  then have "requests s' = requests s @ sent"
    using fe by (cases rule: Refresh_cases) (simp_all add: f_def)
  moreover have "sent = [] \<or> sent = [month_request f current]
      \<or> sent = [month_request f current, month_request f prior]
        \<and> (\<exists>resp. network env (month_request f current) = Inr resp \<and> status resp = 404)"
    using sent two by (auto simp: g_def g'_def get_sent split: if_splits)
  ultimately show ?thesis by (auto simp: f_def)
qed

lemma refresh_requests_witness:
  "\<exists>res s' sent. Refresh sample_mmdb (answering 503) sample_refresher = Some (res, s')
     \<and> requests s' = sent \<and> length sent \<le> 2"
proof -
  obtain res s' where r: "Refresh sample_mmdb (answering 503) sample_refresher = Some (res, s')"
    by (simp add: Refresh_def fetch_def get_def answering_def Let_def)
  from refresh_requests[OF r prod.collapse[symmetric]] r show ?thesis
    by (force simp: sample_refresher_def)
qed

text \<open>A sequence of refreshes.\<close>

fun refreshes :: "mmdb_open \<Rightarrow> refresh_env list \<Rightarrow> refresher \<Rightarrow> ((outcome \<times> go_error option) list \<times> refresher) option" where
  "refreshes mmdb_open [] s = Some ([], s)"
| "refreshes mmdb_open (env # envs) s =
     (case Refresh mmdb_open env s of
        None \<Rightarrow> None
      | Some (r, s') \<Rightarrow>
          (case refreshes mmdb_open envs s' of
             None \<Rightarrow> None
           | Some (rs, s'') \<Rightarrow> Some (r # rs, s'')))"

lemma refresh_unchanged:
  assumes "Refresh mmdb_open env s = Some ((OutcomeUnchanged, None), s')"
  shows "active s' = active s \<and> fetcher_of s' = fetcher_of s \<and> fsys s' = fsys s"
  using assms by (cases rule: Refresh_cases) simp_all

lemma refreshes_unchanged:
  "refreshes mmdb_open envs s = Some (replicate (length envs) (OutcomeUnchanged, None), s') \<Longrightarrow>
     active s' = active s \<and> fetcher_of s' = fetcher_of s \<and> fsys s' = fsys s"
proof (induction envs arbitrary: s)
  case (Cons env envs)
  from Cons.prems obtain s1 where "Refresh mmdb_open env s = Some ((OutcomeUnchanged, None), s1)"
    and "refreshes mmdb_open envs s1 = Some (replicate (length envs) (OutcomeUnchanged, None), s')"
    by (auto split: option.splits)
  then show ?case using refresh_unchanged Cons.IH by metis
qed simp

text \<open>
  C37 (safety). Answers of 304 touch nothing, however many come in a row: the active blocklist, the
  validators and the files stay, the time of the cache file included. So the cache of a daemon
  that is current still ages, and a restart later than the age bound finds it stale.
\<close>

theorem unchanged_refreshes_age_the_cache:
  assumes "refreshes mmdb_open envs s = Some (replicate (length envs) (OutcomeUnchanged, None), s')"
    and "fsys s path = Some f" "maxAge \<noteq> max_duration" "sint maxAge < now - mtime f"
  shows "active s' = active s \<and> fetcher_of s' = fetcher_of s \<and> fsys s' = fsys s
    \<and> cache_Load mmdb_open None (fsys s') path maxAge now ccs = Some (Inl (Sentinel Diskcache_ErrStale))"
  using refreshes_unchanged[OF assms(1)] assms(2-4)
  by (simp add: cache_Load_def os_stat_def time_sub_less)

theorem unchanged_refreshes_age_the_cache_witness:
  "\<exists>s'. refreshes sample_mmdb [answering 304, answering 304] sample_refresher
       = Some ([(OutcomeUnchanged, None), (OutcomeUnchanged, None)], s')
     \<and> cache_Load sample_mmdb None (fsys s') sample_path (48 * hour) (50 + 172800000000001) [''CN'']
         = Some (Inl (Sentinel Diskcache_ErrStale))"
proof -
  have "\<exists>s'. refreshes sample_mmdb [answering 304, answering 304] sample_refresher
      = Some (replicate (length [answering 304, answering 304]) (OutcomeUnchanged, None), s')"
    by (simp add: Refresh_def fetch_def get_def answering_def Let_def sample_refresher_def)
  then obtain s' where s': "refreshes sample_mmdb [answering 304, answering 304] sample_refresher
      = Some (replicate (length [answering 304, answering 304]) (OutcomeUnchanged, None), s')" by blast
  have f: "fsys sample_refresher sample_path = Some \<lparr>data = [9, 9, 9], mtime = 50, synced = True\<rparr>"
    by (simp add: sample_refresher_def old_files_def)
  have "(48 * hour :: duration) \<noteq> max_duration" by (simp add: max_duration_def)
  moreover have "sint (48 * hour :: duration) < (50 + 172800000000001) - mtime \<lparr>data = [9, 9, 9], mtime = 50, synced = True\<rparr>"
    by simp
  ultimately have "cache_Load sample_mmdb None (fsys s') sample_path (48 * hour) (50 + 172800000000001) [''CN'']
      = Some (Inl (Sentinel Diskcache_ErrStale))"
    using unchanged_refreshes_age_the_cache[OF s' f] by blast
  with s' show ?thesis by (auto simp only: list.size replicate.simps One_nat_def add_0 plus_nat.simps)
qed

end
