(* ===== verification/Scheduler_Correct.thy ===== *)
theory Scheduler_Correct
  imports Scheduler Go_IO
begin

text \<open>
  The backoff is positive, capped, and doubles exactly for the shipped policy; the cold start
  makes a bounded number of attempts with the backoff sequence between them, and gives up only for
  the reasons the code names. The contract a refresh owes its caller is the locale
  \<open>refresh_contract\<close>: a failed refresh leaves the published value alone.
\<close>

section \<open>Backoff\<close>

lemma withDefaults_positive:
  "0 < MaxAttempts (withDefaults p)" "0 < sint (BaseDelay (withDefaults p))"
  "0 < sint (MaxDelay (withDefaults p))"
  by (simp_all add: withDefaults_def Let_def defaultColdStartMaxAttempts_def
      defaultColdStartBaseDelay_def defaultColdStartMaxDelay_def)

lemma sint_push_bit:
  fixes d :: duration
  assumes "0 \<le> sint d" "sint d * 2 ^ k < 2 ^ 63"
  shows "sint (push_bit k d) = sint d * 2 ^ k"
proof -
  have "push_bit k d = word_of_int (sint d * 2 ^ k)"
    by (simp add: push_bit_eq_mult)
  moreover have "0 \<le> sint d * 2 ^ k" using assms(1) by simp
  then have "- (2 ^ 63) \<le> sint d * 2 ^ k" by (rule order_trans[rotated]) simp
  ultimately show ?thesis using sint_of_int64[of "sint d * 2 ^ k"] assms(2) by (simp only:)
qed

text \<open>A shift by \<open>k\<close> leaves a multiple of \<open>2 ^ k\<close> behind, wrapped or not.\<close>

lemma dvd_sint_push_bit:
  fixes d :: duration
  assumes "2 ^ j dvd sint d" "j + k \<le> 63"
  shows "2 ^ (j + k) dvd sint (push_bit k d)"
proof -
  have "push_bit k d = word_of_int (sint d * 2 ^ k)"
    by (simp add: push_bit_eq_mult)
  then have "sint (push_bit k d) = (sint d * 2 ^ k + 2 ^ 63) mod 2 ^ 64 - 2 ^ 63"
    using int_word_sint[of "sint d * 2 ^ k", where 'a = 64] by simp
  moreover have "2 ^ (j + k) dvd sint d * 2 ^ k"
    using assms(1) by (simp add: power_add mult_dvd_mono)
  moreover have "(2 :: int) ^ (j + k) dvd 2 ^ 63" "(2 :: int) ^ (j + k) dvd 2 ^ 64"
    using assms(2) by (auto simp only: intro: le_imp_power_dvd)
  ultimately show ?thesis by (metis dvd_add dvd_diff dvd_mod)
qed

text \<open>
  Whatever policy is asked for, every backoff delay is positive and at most the
  policy's cap: a sleep never returns at once, and the shift never wraps to zero or below.
\<close>

lemma backoff_bounds:
  "0 < sint (backoff (withDefaults p) k) \<and> sint (backoff (withDefaults p) k) \<le> sint (MaxDelay (withDefaults p))"
  using withDefaults_positive(3)[of p] by (auto simp: backoff_def Let_def)

text \<open>
  While doubling the base delay does not leave 64 bits, the delay is the doubled
  base capped at the maximum.
\<close>

lemma backoff_exact:
  assumes "0 < sint (BaseDelay p)" "k < 62" "sint (BaseDelay p) * 2 ^ k < 2 ^ 63"
  shows "sint (backoff p k) = min (sint (BaseDelay p) * 2 ^ k) (sint (MaxDelay p))"
proof -
  have "sint (push_bit k (BaseDelay p)) = sint (BaseDelay p) * 2 ^ k"
    using assms(1,3) by (intro sint_push_bit) auto
  moreover have "0 < sint (BaseDelay p) * 2 ^ k" using assms(1) by simp
  ultimately show ?thesis using assms(2) by (simp add: backoff_def Let_def min_def)
qed

lemma backoff_exact_witness:
  "sint (backoff \<lparr>MaxAttempts = 8, BaseDelay = second, MaxDelay = minute\<rparr> 5) = 32000000000"
  using backoff_exact[of "\<lparr>MaxAttempts = 8, BaseDelay = second, MaxDelay = minute\<rparr>" 5] by simp

lemma shipped_delay:
  "sint (backoff (withDefaults zero_policy) k) = min (2000000000 * 2 ^ k) 300000000000"
proof -
  let ?p = "withDefaults zero_policy"
  have p: "BaseDelay ?p = 2000000000" "MaxDelay ?p = 300000000000"
    by (simp_all add: withDefaults_def zero_policy_def Let_def defaultColdStartBaseDelay_def
        defaultColdStartMaxDelay_def)
  have cap: "(300000000000 :: int) \<le> 2000000000 * 2 ^ k" if "8 \<le> k"
    using power_increasing[OF that, of "2 :: int"] by simp
  consider "k < 29" | "29 \<le> k" "k < 54" | "54 \<le> k" by linarith
  then show ?thesis
  proof cases
    case 1
    then have "(2 :: int) ^ k \<le> 2 ^ 28" by (intro power_increasing) auto
    then have "sint (push_bit k (2000000000 :: duration)) = 2000000000 * 2 ^ k"
      using sint_push_bit[of "2000000000" k] by simp
    with 1 show ?thesis using p by (simp add: backoff_def Let_def min_def)
  next
    case 2
    have "2 ^ (10 + k) dvd sint (push_bit k (2000000000 :: duration)) \<or> 53 < k"
      using 2 dvd_sint_push_bit[of 10 "2000000000" k] by auto
    then have "(2 :: int) ^ 39 dvd sint (push_bit k (2000000000 :: duration))"
      using 2 le_imp_power_dvd[of 39 "10 + k" "2 :: int"] dvd_trans by auto
    then have "sint (push_bit k (2000000000 :: duration)) \<le> 0
        \<or> 2 ^ 39 \<le> sint (push_bit k (2000000000 :: duration))"
      using zdvd_imp_le by fastforce
    with 2 cap show ?thesis using p by (auto simp: backoff_def Let_def min_def)
  next
    case 3
    have "(2000000000 :: duration) = 1953125 * 2 ^ 10" by simp
    then have "push_bit k (2000000000 :: duration) = 1953125 * 2 ^ (10 + k)"
      by (simp only: push_bit_eq_mult power_add mult.assoc)
    moreover have "(2 :: duration) ^ (10 + k) = 0"
      using 3 by (simp only: exp_eq_zero_iff) simp
    ultimately have "push_bit k (2000000000 :: duration) = 0" by simp
    with 3 cap show ?thesis using p by (simp add: backoff_def Let_def min_def)
  qed
qed

text \<open>
  C38 (equivalence). For the shipped policy the delay is exactly two seconds doubled and capped at
  five minutes, for every attempt number: wrapped shifts never show as a shorter delay.
\<close>

theorem shipped_backoff:
  "sint (backoff (withDefaults zero_policy) k) = min (2000000000 * 2 ^ k) 300000000000"
  by (rule shipped_delay)

section \<open>The cold start\<close>

fun slept :: "sched_event list \<Rightarrow> duration list" where
  "slept [] = []"
| "slept (Sleep d # es) = d # slept es"
| "slept (_ # es) = slept es"

lemma newScheduler_policy: "newScheduler opts = Inr sch \<Longrightarrow> coldStart sch = withDefaults (so_ColdStart opts)"
  by (auto simp: newScheduler_def split: if_splits option.splits)

lemma cold_loop_shape:
  assumes "int a < MaxAttempts (coldStart sch)"
  shows "int (a + attempts (fst (cold_loop sch env a s))) \<le> MaxAttempts (coldStart sch)
    \<and> (\<exists>n. slept (fst (cold_loop sch env a s)) = map (backoff (coldStart sch)) [a..<a + n] \<and> int (a + n) < MaxAttempts (coldStart sch)
        \<and> n \<le> attempts (fst (cold_loop sch env a s)) \<and> attempts (fst (cold_loop sch env a s)) \<le> n + 1)"
  using assms
proof (induction sch env a s rule: cold_loop.induct)
  case (1 sch env a s)
  obtain err s1 where r: "refreshOnce sch a s = (err, s1)" by (cases "refreshOnce sch a s")
  show ?case
  proof (cases "\<not> ctx_done env a \<and> err \<noteq> None \<and> \<not> ready sch s1
      \<and> int a + 1 < MaxAttempts (coldStart sch) \<and> sleep_err env a = None")
    case False
    have none: "map f [a..<a + 0] = []" and one: "map f [a..<a + 1] = [f a]" for f :: "nat \<Rightarrow> duration"
      by simp_all
    show ?thesis
      using False "1.prems" r none[of "backoff (coldStart sch)"] one[of "backoff (coldStart sch)"]
      by (subst (1 2 3 4) cold_loop.simps)
        (auto simp: Let_def split: option.splits intro: exI[of _ 0] exI[of _ 1])
  next
    case True
    then obtain e where e: "err = Some e" by blast
    obtain es s2 where rec: "cold_loop sch env (a + 1) s1 = (es, s2)" by (cases "cold_loop sch env (a + 1) s1")
    have loop: "fst (cold_loop sch env a s)
        = [Attempt err, Log (logged Warn ''scheduler: cold-start fetch failed; retrying''
            [(''attempt'', AInt (int a + 1)),
             (''retry_in'', AStr (duration_string (backoff (coldStart sch) a))), (''error'', AErr e)]),
           Sleep (backoff (coldStart sch) a)] @ es"
      using True r e rec by (subst cold_loop.simps) (simp add: Let_def)
    from "1.IH"[OF _ r[symmetric] refl e _ _ refl refl] True e rec obtain n where
      n: "int (a + 1 + attempts es) \<le> MaxAttempts (coldStart sch)"
        "slept es = map (backoff (coldStart sch)) [a + 1..<a + 1 + n]"
        "int (a + 1 + n) < MaxAttempts (coldStart sch)" "n \<le> attempts es" "attempts es \<le> n + 1"
      by auto
    have "map (backoff (coldStart sch)) [a..<a + (n + 1)]
        = backoff (coldStart sch) a # map (backoff (coldStart sch)) [a + 1..<a + 1 + n]"
      using upt_conv_Cons[of a "a + (n + 1)"] by (simp del: upt_Suc)
    then show ?thesis using n by (auto simp del: upt_Suc simp: loop intro!: exI[of _ "n + 1"])
  qed
qed

text \<open>
  C39 (termination). The cold start always ends: it makes at most as many attempts as the policy
  allows, and the delays between them are the first values of the backoff, in order: fewer than the
  budget, one less than the attempts or as many when the context ends the last sleep.
\<close>

theorem cold_start_within_budget:
  assumes "newScheduler opts = Inr sch" and "runColdStart sch env s = (es, s')"
  shows "int (attempts es) \<le> MaxAttempts (coldStart sch)
    \<and> (\<exists>n. slept es = map (backoff (coldStart sch)) [0..<n] \<and> int n < MaxAttempts (coldStart sch)
        \<and> n \<le> attempts es \<and> attempts es \<le> n + 1)"
  using cold_loop_shape[of 0 sch env s] newScheduler_policy[OF assms(1)] withDefaults_positive(1) assms(2)
  by (simp add: runColdStart_def)

text \<open>A scheduler over a state that counts its refreshes, all of which fail.\<close>

definition sample_options :: "nat scheduler_options" where
  "sample_options = \<lparr>so_Schedule = ''0 3 * * *'', so_Timeout = minute,
     so_Refresh = Some (\<lambda>d k s. (Some (Foreign ''down''), s + 1)), so_Ready = Some (\<lambda>s. False),
     so_has_Logger = True, so_ColdStart = zero_policy\<rparr>"

definition sample_scheduler :: "nat scheduler" where
  "sample_scheduler = \<lparr>schedule = ''0 3 * * *'', timeout = minute,
     refresh = (\<lambda>d k s. (Some (Foreign ''down''), s + 1)), ready = (\<lambda>s. False),
     coldStart = withDefaults zero_policy\<rparr>"

lemma sample_newScheduler: "newScheduler sample_options = Inr sample_scheduler"
  by (simp add: newScheduler_def sample_options_def sample_scheduler_def)

abbreviation running :: ctx_env where
  "running \<equiv> \<lparr>ctx_done = (\<lambda>_. False), sleep_err = (\<lambda>_. None)\<rparr>"

theorem cold_start_within_budget_witness:
  "attempts (fst (runColdStart sample_scheduler running 0)) \<le> 8"
  using cold_start_within_budget[OF sample_newScheduler prod.collapse[symmetric], of running 0]
  by (simp add: sample_scheduler_def withDefaults_def zero_policy_def Let_def
      defaultColdStartMaxAttempts_def)

lemma shipped_delays: "n \<le> 7 \<Longrightarrow> (\<Sum>k\<leftarrow>[0..<n]. sint (backoff (withDefaults zero_policy) k)) \<le> 254000000000"
proof -
  assume "n \<le> 7"
  then have "[0..<7] = [0..<n] @ [n..<7]" using upt_add_eq_append[of 0 n "7 - n"] by simp
  then have "(\<Sum>k\<leftarrow>[0..<7]. sint (backoff (withDefaults zero_policy) k))
      = (\<Sum>k\<leftarrow>[0..<n]. sint (backoff (withDefaults zero_policy) k))
        + (\<Sum>k\<leftarrow>[n..<7]. sint (backoff (withDefaults zero_policy) k))" by simp
  moreover have "0 \<le> (\<Sum>k\<leftarrow>[n..<7]. sint (backoff (withDefaults zero_policy) k))"
    by (intro sum_list_nonneg) (auto simp: shipped_delay)
  moreover have "(\<Sum>k\<leftarrow>[0..<7]. sint (backoff (withDefaults zero_policy) k)) = 254000000000"
  proof -
    have "[0..<7] = [0, 1, 2, 3, 4, 5, 6]" by (simp add: upt_conv_Cons)
    then show ?thesis by (simp add: shipped_delay)
  qed
  ultimately show ?thesis by linarith
qed

text \<open>
  The cold start of the shipped policy makes at most eight attempts and sleeps at most
  254 seconds in total, so a daemon that cannot fetch reaches its scheduled cadence within that
  time and the time of its refreshes.
\<close>

lemma shipped_cold_start_time:
  assumes "newScheduler opts = Inr sch" "so_ColdStart opts = zero_policy" "runColdStart sch env s = (es, s')"
  shows "attempts es \<le> 8 \<and> sum_list (map sint (slept es)) \<le> 254000000000"
proof -
  have p: "coldStart sch = withDefaults zero_policy" "MaxAttempts (withDefaults zero_policy) = 8"
    using newScheduler_policy[OF assms(1)] assms(2)
    by (simp_all add: withDefaults_def zero_policy_def Let_def defaultColdStartMaxAttempts_def)
  obtain n where n: "slept es = map (backoff (withDefaults zero_policy)) [0..<n]" "int n < 8" "attempts es \<le> 8"
    using cold_loop_shape[of 0 sch env s] p assms(3) by (auto simp: runColdStart_def)
  then show ?thesis using shipped_delays[of n] by (simp add: comp_def)
qed

lemma shipped_cold_start_time_witness:
  "sum_list (map sint (slept (fst (runColdStart sample_scheduler running 0)))) \<le> 254000000000"
  using shipped_cold_start_time[OF sample_newScheduler _ prod.collapse[symmetric], of running 0]
  by (simp add: sample_options_def)

text \<open>How an uncancelled cold start ends.\<close>

lemma cold_loop_ends:
  assumes "\<And>k. \<not> ctx_done env k" "\<And>k. sleep_err env k = None" "int a < MaxAttempts (coldStart sch)"
    and "cold_loop sch env a s = (es, s')"
  shows "es \<noteq> [] \<and> Attempt None \<notin> set (butlast es) \<and> (last es = Attempt None \<or> ready sch s'
    \<or> int (a + attempts es) = MaxAttempts (coldStart sch) \<and> Attempt None \<notin> set es
      \<and> (\<exists>as. last es = Log (logged Error ''scheduler: cold-start retry budget exhausted; daemon stays fail-closed until the next scheduled refresh'' as)))"
  using assms
proof (induction sch env a s arbitrary: es rule: cold_loop.induct)
  case (1 sch env a s)
  obtain err s1 where r: "refreshOnce sch a s = (err, s1)" by (cases "refreshOnce sch a s")
  have nd: "\<not> ctx_done env a" by (rule "1.prems"(1))
  show ?case
  proof (cases "err \<noteq> None \<and> \<not> ready sch s1 \<and> int a + 1 < MaxAttempts (coldStart sch)")
    case False
    show ?thesis
      using "1.prems"(4) False nd r "1.prems"(3)
      by (subst (asm) cold_loop.simps) (auto simp: Let_def split: option.splits if_splits)
  next
    case True
    then obtain e where e: "err = Some e" by blast
    obtain es1 s2 where rec: "cold_loop sch env (a + 1) s1 = (es1, s2)" by (cases "cold_loop sch env (a + 1) s1")
    obtain l where es: "es = [Attempt err, Log l, Sleep (backoff (coldStart sch) a)] @ es1" "s' = s2"
      using "1.prems"(4) True nd r e rec "1.prems"(2)[of a]
      by (subst (asm) cold_loop.simps) (auto simp: Let_def)
    have ih: "es1 \<noteq> [] \<and> Attempt None \<notin> set (butlast es1) \<and> (last es1 = Attempt None \<or> ready sch s'
      \<or> int (a + 1 + attempts es1) = MaxAttempts (coldStart sch) \<and> Attempt None \<notin> set es1
      \<and> (\<exists>as. last es1 = Log (logged Error ''scheduler: cold-start retry budget exhausted; daemon stays fail-closed until the next scheduled refresh'' as)))"
      by (rule "1.IH"[OF nd r[symmetric] refl e]) (use True "1.prems"(1,2) rec es in auto)
    then show ?thesis using e by (auto simp: es)
  qed
qed

text \<open>
  C40 (liveness). A cold start that is not cancelled gives up only when it must, and stops at the
  first success: every attempt but perhaps the last thing it did has failed, and either that last
  thing was an attempt that succeeded, or a usable blocklist is active, or it made every attempt of
  the budget, each failed, and the last thing it did was to say so at level ERROR.
\<close>

theorem cold_start_persists:
  assumes "newScheduler opts = Inr sch" and "runColdStart sch env s = (es, s')"
    and "\<forall>k. \<not> ctx_done env k \<and> sleep_err env k = None"
  shows "Attempt None \<notin> set (butlast es) \<and> (last es = Attempt None \<or> ready sch s'
    \<or> int (attempts es) = MaxAttempts (coldStart sch) \<and> Attempt None \<notin> set es
      \<and> (\<exists>as. last es = Log (logged Error ''scheduler: cold-start retry budget exhausted; daemon stays fail-closed until the next scheduled refresh'' as)))"
  using cold_loop_ends[of env 0 sch s es s'] newScheduler_policy[OF assms(1)] withDefaults_positive(1) assms(2,3)
  by (auto simp: runColdStart_def)

theorem cold_start_persists_witness:
  "\<exists>es s'. runColdStart sample_scheduler running 0 = (es, s') \<and> es \<noteq> []
     \<and> (last es = Attempt None
       \<or> int (attempts es) = MaxAttempts (coldStart sample_scheduler) \<and> Attempt None \<notin> set es)"
proof -
  obtain es s' where r: "runColdStart sample_scheduler running 0 = (es, s')"
    by (cases "runColdStart sample_scheduler running 0")
  have "es \<noteq> []"
    using r by (subst (asm) runColdStart_def, subst (asm) cold_loop.simps)
      (auto simp: Let_def sample_scheduler_def refreshOnce_def split: option.splits prod.splits if_splits)
  moreover have "\<not> ready sample_scheduler s'" by (simp add: sample_scheduler_def)
  ultimately show ?thesis using cold_start_persists[OF sample_newScheduler r] r by auto
qed

section \<open>The contract of a refresh\<close>

text \<open>
  What the scheduler relies on: a refresh that fails leaves the published value alone. What it
  gives in return holds for every such refresh: without a successful attempt a whole run publishes
  nothing, and an invariant of the refresh is one of the run.
\<close>

locale refresh_contract =
  fixes run :: "'s refresh_func"
    and view :: "'s \<Rightarrow> 'v"
    and inv :: "'s \<Rightarrow> bool"
  assumes failed_keeps: "inv s \<Longrightarrow> run d k s = (Some e, s') \<Longrightarrow> view s' = view s"
    and run_inv: "inv s \<Longrightarrow> inv (snd (run d k s))"
begin

lemma cold_loop_keeps:
  "refresh sch = run \<Longrightarrow> inv s \<Longrightarrow> inv (snd (cold_loop sch env a s))
    \<and> (Attempt None \<in> set (fst (cold_loop sch env a s)) \<or> view (snd (cold_loop sch env a s)) = view s)"
proof (induction sch env a s rule: cold_loop.induct)
  case (1 sch env a s)
  obtain err s1 where r: "refreshOnce sch a s = (err, s1)" by (cases "refreshOnce sch a s")
  then have rr: "run (timeout sch) a s = (err, s1)" using "1.prems"(1) by (simp add: refreshOnce_def)
  have i1: "inv s1" using run_inv[OF "1.prems"(2), of "timeout sch" a] rr by simp
  show ?case
  proof (cases "\<not> ctx_done env a \<and> err \<noteq> None \<and> \<not> ready sch s1
      \<and> int a + 1 < MaxAttempts (coldStart sch) \<and> sleep_err env a = None")
    case False
    then show ?thesis
      using r i1 failed_keeps[OF "1.prems"(2)] rr "1.prems"(2)
      by (subst (1 2 3) cold_loop.simps) (auto simp: Let_def split: option.splits)
  next
    case True
    then obtain e where e: "err = Some e" by blast
    from "1.IH"[OF _ r[symmetric] refl e _ _ refl refl _ "1.prems"(1) i1] True e
    have ih: "inv (snd (cold_loop sch env (a + 1) s1))
      \<and> (Attempt None \<in> set (fst (cold_loop sch env (a + 1) s1)) \<or> view (snd (cold_loop sch env (a + 1) s1)) = view s1)"
      by auto
    have "view s1 = view s" using failed_keeps[OF "1.prems"(2)] rr e by simp
    with ih True r e show ?thesis
      by (subst (1 2 3) cold_loop.simps) (auto simp: Let_def split: prod.splits)
  qed
qed

lemma cron_jobs_keeps:
  "refresh sch = run \<Longrightarrow> inv s \<Longrightarrow> inv (snd (cron_jobs sch k n s))
    \<and> (Attempt None \<in> set (fst (cron_jobs sch k n s)) \<or> view (snd (cron_jobs sch k n s)) = view s)"
proof (induction n arbitrary: k s)
  case (Suc n)
  obtain err s1 where r: "run (timeout sch) k s = (err, s1)" by (cases "run (timeout sch) k s")
  have "inv s1" using run_inv[OF Suc.prems(2), of "timeout sch" k] r by simp
  note ih = Suc.IH[OF Suc.prems(1) this, of "k + 1"]
  have "err = None \<or> view s1 = view s"
    using failed_keeps[OF Suc.prems(2)] r by (cases err) auto
  then show ?case
    using ih r Suc.prems(1) by (auto simp: refreshOnce_def Let_def split: prod.splits option.splits)
qed simp

lemma scheduler_Run_keeps:
  assumes "refresh sch = run" "inv s" "scheduler_Run add_cron sch env c n s = (err, es, s')"
  shows "inv s' \<and> (Attempt None \<in> set es \<or> view s' = view s)"
proof -
  obtain es1 s1 where r: "runColdStart sch env s = (es1, s1)" by (cases "runColdStart sch env s")
  have c: "inv s1 \<and> (Attempt None \<in> set es1 \<or> view s1 = view s)"
    using cold_loop_keeps[OF assms(1,2), of env 0] r by (simp add: runColdStart_def)
  then show ?thesis
    using assms(3) r cron_jobs_keeps[OF assms(1), of s1 "attempts es1" n]
    by (auto simp: scheduler_Run_def Let_def split: if_splits option.splits prod.splits)
qed

end

end
