(* ===== verification/Readiness_Correct.thy ===== *)
theory Readiness_Correct
  imports Readiness Logging
begin

text \<open>
  The signals of the tracker: in every interleaving of goroutines the entering and the recovery
  signals alternate, one goroutine alone does exactly what the method does, the heartbeat always
  reaches the log, and the counter in a recovery signal is the number of requests let through.
\<close>

section \<open>Transition signals\<close>

definition signal_of :: "log_record \<Rightarrow> bool list" where
  "signal_of r =
     (if msg r = recovered_msg then [True]
      else if msg r \<in> {unusable_msg (newReadiness StartupFailOpen), unusable_msg (newReadiness StartupFailClosed)}
      then [False] else [])"

definition signals :: "log_record list \<Rightarrow> bool list" where
  "signals ls = concat (map signal_of ls)"

fun alternates :: "bool \<Rightarrow> bool list \<Rightarrow> bool" where
  "alternates b [] \<longleftrightarrow> True"
| "alternates b (x # xs) \<longleftrightarrow> x \<noteq> b \<and> alternates x xs"

fun last_signal :: "bool \<Rightarrow> bool list \<Rightarrow> bool" where
  "last_signal b [] = b"
| "last_signal b (x # xs) = last_signal x xs"

lemma signals_append [simp]: "signals (ls @ ms) = signals ls @ signals ms"
  by (simp add: signals_def)

lemma alternates_append: "alternates b (xs @ ys) \<longleftrightarrow> alternates b xs \<and> alternates (last_signal b xs) ys"
  by (induction xs arbitrary: b) auto

lemma last_signal_append [simp]: "last_signal b (xs @ ys) = last_signal (last_signal b xs) ys"
  by (induction xs arbitrary: b) auto

lemma unusable_msg_signal [simp]: "signals [logged Error (unusable_msg t) as] = [False]"
  by (auto simp: signals_def signal_of_def unusable_msg_def failOpen_def newReadiness_def recovered_msg_def
      StartupFailOpen_def StartupFailClosed_def)

lemma still_msg_signal [simp]: "signals [logged Error still_unusable_msg as] = []"
  by (simp add: signals_def signal_of_def still_unusable_msg_def recovered_msg_def unusable_msg_def
      failOpen_def newReadiness_def StartupFailOpen_def StartupFailClosed_def)

lemma recovered_msg_signal [simp]: "signals [logged Info recovered_msg as] = [True]"
  by (simp add: signals_def signal_of_def)

lemma signals_Nil [simp]: "signals [] = []"
  by (simp add: signals_def)

section \<open>The invariant\<close>

text \<open>The places inside the mutex, and the lookup a goroutine carries past the latch.\<close>

fun inside :: "place \<Rightarrow> bool" where
  "inside (Locked l) = True"
| "inside (Opening l) = True"
| "inside (Clearing l) = True"
| "inside (Composing l) = True"
| "inside (Closing l r) = True"
| "inside (Announcing l r) = True"
| "inside (Signalled l) = True"
| "inside _ = False"

fun past_latch :: "place \<Rightarrow> bool" where
  "past_latch (Testing l) = usable l"
| "past_latch (Waiting l) = usable l"
| "past_latch (Locked l) = usable l"
| "past_latch (Closing l r) = usable l"
| "past_latch (Announcing l r) = usable l"
| "past_latch (Signalled l) = usable l"
| "past_latch _ = False"

text \<open>What the record that a goroutine is about to log says.\<close>

fun carries :: "place \<Rightarrow> bool" where
  "carries (Opening l) \<longleftrightarrow> \<not> usable l"
| "carries (Clearing l) \<longleftrightarrow> \<not> usable l"
| "carries (Composing l) \<longleftrightarrow> \<not> usable l"
| "carries (Closing l r) \<longleftrightarrow> usable l \<and> signals [r] = [True]"
| "carries (Announcing l r) \<longleftrightarrow> signals [r] = [usable l]"
| "carries (Beat_log r) \<longleftrightarrow> signals [r] = []"
| "carries _ \<longleftrightarrow> True"

text \<open>
  What the goroutine at a place knows of the flag and of the last signal; the flag of the tracker
  trails the last signal only between the signal and the store.
\<close>

fun agrees :: "bool \<Rightarrow> bool \<Rightarrow> place \<Rightarrow> bool" where
  "agrees flag lst (Opening l) \<longleftrightarrow> flag \<and> lst"
| "agrees flag lst (Clearing l) \<longleftrightarrow> flag \<and> lst"
| "agrees flag lst (Composing l) \<longleftrightarrow> flag \<and> lst"
| "agrees flag lst (Closing l r) \<longleftrightarrow> \<not> flag \<and> \<not> lst"
| "agrees flag lst (Announcing l r) \<longleftrightarrow> flag \<noteq> usable l \<and> lst \<noteq> usable l"
| "agrees flag lst (Signalled l) \<longleftrightarrow> lst = usable l \<and> flag \<noteq> usable l"
| "agrees flag lst _ \<longleftrightarrow> lst = flag"

text \<open>The place of the goroutine that holds the mutex; outside, the flag and the signal agree.\<close>

definition current_place :: "tracker \<Rightarrow> place" where
  "current_place s = (case holder s of None \<Rightarrow> Idle | Some i \<Rightarrow> places s i)"

definition mutex_inv :: "tracker \<Rightarrow> bool" where
  "mutex_inv s \<longleftrightarrow> (\<forall>i. inside (places s i) \<longleftrightarrow> holder s = Some i)"

definition record_inv :: "tracker \<Rightarrow> bool" where
  "record_inv s \<longleftrightarrow> (\<forall>i. carries (places s i))"

definition signal_inv :: "tracker \<Rightarrow> bool" where
  "signal_inv s \<longleftrightarrow> alternates True (signals (out s))
     \<and> agrees (r_usable (shared s)) (last_signal True (signals (out s))) (current_place s)"

definition latch_inv :: "tracker \<Rightarrow> bool" where
  "latch_inv s \<longleftrightarrow>
     everReady (shared s) \<or> (\<forall>i. \<not> past_latch (places s i)) \<and> True \<notin> set (signals (out s))"

lemma at_simps [simp]:
  "shared (at i p s) = shared s" "holder (at i p s) = holder s" "out (at i p s) = out s"
  "places (at i p s) = (places s)(i := p)"
  by (simp_all add: at_def)

lemma emitRecovered_fields:
  "emitRecovered now l t = (ls, t') \<Longrightarrow> t' = t\<lparr>unusableSince := 0\<rparr> \<and> signals ls = [True]"
  by (auto simp: emitRecovered_def Let_def)

lemma emitRecovered_signal: "fst (emitRecovered now l t) = [r] \<Longrightarrow> signals [r] = [True]"
  using emitRecovered_fields[of now l t "[r]" "snd (emitRecovered now l t)"] by (metis prod.collapse)

lemma beat_record_signal [simp]: "signals [beat_record t e w as] = []"
  by (simp add: beat_record_def)

lemma record_step: "observe_step i s s' \<Longrightarrow> record_inv s \<Longrightarrow> record_inv s'"
  by (induction rule: observe_step.induct)
    (auto simp: record_inv_def emitRecovered_signal dest: spec[of _ i])

lemma record_at: "record_inv s \<Longrightarrow> places s i = p \<Longrightarrow> carries p"
  by (auto simp: record_inv_def)

lemma mutex_outside: "mutex_inv s \<Longrightarrow> places s i = p \<Longrightarrow> \<not> inside p \<Longrightarrow> holder s \<noteq> Some i"
  by (auto simp: mutex_inv_def)

lemma mutex_inside: "mutex_inv s \<Longrightarrow> places s i = p \<Longrightarrow> inside p \<Longrightarrow> holder s = Some i"
  by (auto simp: mutex_inv_def)

lemma mutex_at:
  assumes "mutex_inv s" and "places s' = places s"
    and "if inside (places s i) then holder s' = (if inside p then Some i else None)
         else if inside p then holder s = None \<and> holder s' = Some i else holder s' = holder s"
  shows "mutex_inv (at i p s')"
  using assms by (auto simp: mutex_inv_def split: if_splits)

lemma mutex_step: "observe_step i s s' \<Longrightarrow> mutex_inv s \<Longrightarrow> mutex_inv s'"
  by (induction rule: observe_step.induct) (simp_all add: mutex_at mutex_inside)

text \<open>A goroutine outside the mutex does not move the current place.\<close>

lemma current_other: "holder s \<noteq> Some i \<Longrightarrow> current_place (at i p s) = current_place s"
  by (simp add: current_place_def split: option.split)

lemma current_own: "holder s = Some i \<Longrightarrow> current_place (at i p s) = p"
  by (simp add: current_place_def)

lemma signal_outside:
  assumes "signal_inv s" "holder s \<noteq> Some i" "r_usable t = r_usable (shared s)" "signals ls = signals (out s)"
  shows "signal_inv (at i p (s\<lparr>shared := t, out := ls\<rparr>))"
  using assms current_other[of s i p]
  by (simp add: signal_inv_def current_place_def split: option.splits)

lemmas signal_quiet =
  signal_outside[where ls = "out s" and s = s for s, simplified]
  signal_outside[where t = "shared s" and s = s for s, simplified]
  signal_outside[where t = "shared s" and ls = "out s" and s = s for s, simplified]

text \<open>The goroutine that holds the mutex knows the flag and the last signal.\<close>

lemma signal_known:
  assumes "signal_inv s" "mutex_inv s" "places s i = p" "inside p"
  shows "holder s = Some i" "alternates True (signals (out s))"
    "agrees (r_usable (shared s)) (last_signal True (signals (out s))) p"
  using assms mutex_inside[OF assms(2,3,4)] by (simp_all add: signal_inv_def current_place_def)

lemma signal_stays:
  assumes "holder s = Some i" "alternates True (signals ls)" "agrees (r_usable t) (last_signal True (signals ls)) p"
  shows "signal_inv (at i p (s\<lparr>shared := t, out := ls\<rparr>))"
  using assms by (simp add: signal_inv_def current_place_def)

lemma signal_leaves:
  assumes "alternates True (signals ls)" "last_signal True (signals ls) = r_usable t"
  shows "signal_inv (at i Idle (s\<lparr>shared := t, holder := None, out := ls\<rparr>))"
  using assms by (simp add: signal_inv_def current_place_def)

lemmas signal_kept =
  signal_stays[where ls = "out s" and s = s for s, simplified]
  signal_stays[where t = "shared s" and s = s for s, simplified]
  signal_stays[where t = "shared s" and ls = "out s" and s = s for s, simplified]
  signal_leaves[where ls = "out s" and s = s for s, simplified]
  signal_leaves[where t = "shared s" and ls = "out s" and s = s for s, simplified]

lemma signal_step:
  "observe_step i s s' \<Longrightarrow> mutex_inv s \<Longrightarrow> record_inv s \<Longrightarrow> signal_inv s \<Longrightarrow> signal_inv s'"
proof (induction rule: observe_step.induct)
  case (lock s l)
  then show ?case by (simp add: signal_inv_def current_place_def)
next
  case (beat_log s r)
  then show ?case using record_at[OF beat_log(3,1)] mutex_outside[OF beat_log(2,1)] by (simp add: signal_quiet)
next
  case (retest s l)
  then show ?case using signal_known[OF retest(5,3,1)] by (simp add: signal_kept)
next
  case (recover s l now r)
  then show ?case using signal_known[OF recover(7,5,1)] by (simp add: signal_kept)
next
  case (close_window s l r)
  then show ?case using signal_known[OF close_window(4,2,1)] record_at[OF close_window(3,1)] by (simp add: signal_kept)
next
  case (open_window s l now)
  then show ?case using signal_known[OF open_window(6,4,1)] by (simp add: signal_kept)
next
  case (snapshot_total s l)
  then show ?case using signal_known[OF snapshot_total(4,2,1)] by (simp add: signal_kept)
next
  case (clear_since s l)
  then show ?case using signal_known[OF clear_since(4,2,1)] by (simp add: signal_kept)
next
  case (compose s l)
  then show ?case using signal_known[OF compose(4,2,1)] record_at[OF compose(3,1)] by (simp add: signal_kept)
next
  case (announce s l r)
  then show ?case using signal_known[OF announce(4,2,1)] record_at[OF announce(3,1)]
    by (simp add: signal_kept alternates_append)
next
  case (store s l)
  then show ?case using signal_known[OF store(4,2,1)] by (simp add: signal_kept)
qed (auto simp: signal_quiet dest: mutex_outside)

lemma latch_ready: "latch_inv s \<Longrightarrow> places s i = p \<Longrightarrow> past_latch p \<Longrightarrow> everReady (shared s)"
  by (auto simp: latch_inv_def)

lemma latch_at:
  assumes "latch_inv s" and "past_latch p \<Longrightarrow> past_latch (places s i) \<or> everReady (shared s')"
    and "places s' = places s" "everReady (shared s) \<Longrightarrow> everReady (shared s')"
    and "set (signals (out s')) \<subseteq> insert False (set (signals (out s))) \<or> everReady (shared s')"
  shows "latch_inv (at i p s')"
  using assms by (auto simp: latch_inv_def)

lemma latch_step: "observe_step i s s' \<Longrightarrow> record_inv s \<Longrightarrow> latch_inv s \<Longrightarrow> latch_inv s'"
proof (induction rule: observe_step.induct)
  case (announce s l r)
  then have "usable l \<Longrightarrow> everReady (shared s)" using latch_ready[of s i] by simp
  then show ?case using announce(3) record_at[OF announce(2,1)] announce(1)
    by (intro latch_at[of s]) auto
next
  case (beat_log s r)
  then show ?case using record_at[OF beat_log(2,1)] by (intro latch_at[of s]) auto
next
  case (compose s l)
  then show ?case using record_at[OF compose(2,1)] by (intro latch_at[of s]) auto
qed (auto intro!: latch_at split: if_splits)

lemma reachable_inv: "reachable_tracker mode s \<Longrightarrow> mutex_inv s \<and> record_inv s \<and> signal_inv s \<and> latch_inv s"
proof (induction rule: reachable_tracker.induct)
  case start
  then show ?case
    by (simp add: mutex_inv_def record_inv_def signal_inv_def latch_inv_def current_place_def
        start_tracker_def newReadiness_def)
next
  case (go s i s')
  then show ?case using mutex_step record_step signal_step latch_step by blast
qed

lemma reachable_steps: "(observe_step i)\<^sup>*\<^sup>* s s' \<Longrightarrow> reachable_tracker mode s \<Longrightarrow> reachable_tracker mode s'"
  by (induction rule: rtranclp_induct) (auto intro: reachable_tracker.go)

section \<open>One goroutine alone\<close>

text \<open>A step inside a call.\<close>

definition busy_step :: "nat \<Rightarrow> tracker \<Rightarrow> tracker \<Rightarrow> bool" where
  "busy_step i s s' \<longleftrightarrow> observe_step i s s' \<and> places s i \<noteq> Idle"

lemma two_steps: "observe_step i s s' \<Longrightarrow> observe_step i s' s'' \<Longrightarrow> (observe_step i)\<^sup>*\<^sup>* s s''"
  by (rule converse_rtranclp_into_rtranclp[OF _ r_into_rtranclp])

lemma busy_two: "busy_step i s s' \<Longrightarrow> busy_step i s' s'' \<Longrightarrow> (busy_step i)\<^sup>*\<^sup>* s s''"
  by (rule converse_rtranclp_into_rtranclp[OF _ r_into_rtranclp])

lemmas one_more = rtranclp.rtrancl_into_rtrancl[of "observe_step i" for i]
lemmas busy_more = rtranclp.rtrancl_into_rtrancl[of "busy_step i" for i]

lemma busyI: "observe_step i s s' \<Longrightarrow> places s i \<noteq> Idle \<Longrightarrow> busy_step i s s'"
  by (simp add: busy_step_def)

lemma busy_steps: "(busy_step i)\<^sup>*\<^sup>* s s' \<Longrightarrow> (observe_step i)\<^sup>*\<^sup>* s s'"
  by (erule rtranclp_mono[THEN predicate2D, rotated]) (auto simp: busy_step_def)

text \<open>The latch: up to the test of the flag.\<close>

lemma latch_alone:
  assumes "places s i = Entered l"
  shows "(busy_step i)\<^sup>*\<^sup>* s (at i (Testing l)
    (s\<lparr>shared := (if usable l \<and> \<not> everReady (shared s) then (shared s)\<lparr>everReady := True\<rparr> else shared s)\<rparr>))"
proof (cases "usable l \<and> \<not> everReady (shared s)")
  case True
  let ?a = "at i (Latching l) s"
  have "busy_step i s ?a" using busyI[OF see_ever[OF assms]] True assms by simp
  moreover have "busy_step i ?a (at i (Testing l) (?a\<lparr>shared := (shared ?a)\<lparr>everReady := True\<rparr>\<rparr>))"
    by (rule busyI[OF latch]) simp_all
  ultimately have "(busy_step i)\<^sup>*\<^sup>* s (at i (Testing l) (?a\<lparr>shared := (shared ?a)\<lparr>everReady := True\<rparr>\<rparr>))"
    by (rule busy_two)
  then show ?thesis using True by (simp add: at_def)
next
  case False
  then show ?thesis using busyI[OF see_ever[OF assms]] assms by (auto simp: at_def)
qed

text \<open>The two reports, from the second test of the flag to the signal.\<close>

lemma recovered_alone:
  assumes "places s i = Locked l" "r_usable (shared s) \<noteq> usable l" "usable l"
    and "emitRecovered now l (shared s) = (ls, t)"
  shows "(busy_step i)\<^sup>*\<^sup>* s (at i (Signalled l) (s\<lparr>shared := t, out := out s @ ls\<rparr>))"
proof -
  obtain r where r: "ls = [r]" using assms(4) by (auto simp: emitRecovered_def Let_def)
  have t: "t = (shared s)\<lparr>unusableSince := 0\<rparr>" using emitRecovered_fields[OF assms(4)] by simp
  let ?a = "at i (Closing l r) s"
  let ?b = "at i (Announcing l r) (?a\<lparr>shared := (shared ?a)\<lparr>unusableSince := 0\<rparr>\<rparr>)"
  have 1: "busy_step i s ?a" by (rule busyI[OF recover[where now = now]]) (use assms r in auto)
  have 2: "busy_step i ?a ?b" by (rule busyI[OF close_window]) simp_all
  have 3: "busy_step i ?b (at i (Signalled l) (?b\<lparr>out := out ?b @ [r]\<rparr>))" by (rule busyI[OF announce]) simp_all
  have "(busy_step i)\<^sup>*\<^sup>* s (at i (Signalled l) (?b\<lparr>out := out ?b @ [r]\<rparr>))"
    by (rule busy_more[OF busy_two[OF 1 2] 3])
  then show ?thesis using r t by (simp add: at_def)
qed

lemma unusable_alone:
  assumes "places s i = Locked l" "r_usable (shared s) \<noteq> usable l" "\<not> usable l"
    and "emitUnusable now (shared s) = (ls, t)"
  shows "(busy_step i)\<^sup>*\<^sup>* s (at i (Signalled l) (s\<lparr>shared := t, out := out s @ ls\<rparr>))"
proof -
  let ?a = "at i (Opening l) (s\<lparr>shared := (shared s)\<lparr>unusableSince := unix_nano now\<rparr>\<rparr>)"
  let ?b = "at i (Clearing l) (?a\<lparr>shared := (shared ?a)\<lparr>failOpenAtWindowStart := failOpenTotal (shared ?a)\<rparr>\<rparr>)"
  let ?c = "at i (Composing l) (?b\<lparr>shared := (shared ?b)\<lparr>failOpenSinceHeartbeat := 0\<rparr>\<rparr>)"
  let ?r = "logged Error (unusable_msg (shared ?c))
      [(''startup_mode'', AStr (r_mode (shared ?c))), (''ever_ready'', ABool (everReady (shared ?c))),
       (''serving'', AStr (serving (shared ?c) False))]"
  let ?d = "at i (Announcing l ?r) ?c"
  let ?e = "at i (Signalled l) (?d\<lparr>out := out ?d @ [?r]\<rparr>)"
  have 1: "busy_step i s ?a" by (rule busyI[OF open_window]) (use assms in auto)
  have 2: "busy_step i ?a ?b" by (rule busyI[OF snapshot_total]) simp_all
  have 3: "busy_step i ?b ?c" by (rule busyI[OF clear_since]) simp_all
  have 4: "busy_step i ?c ?d" by (rule busyI[OF compose]) simp_all
  have 5: "busy_step i ?d ?e" by (rule busyI[OF announce]) simp_all
  have "(busy_step i)\<^sup>*\<^sup>* s ?e"
    by (rule busy_more[OF busy_more[OF busy_more[OF busy_two[OF 1 2] 3] 4] 5])
  moreover have "?e = at i (Signalled l) (s\<lparr>shared := t, out := out s @ ls\<rparr>)"
    using assms(4) by (auto simp: emitUnusable_def Let_def at_def unusable_msg_def failOpen_def serving_def)
  ultimately show ?thesis by simp
qed

lemma observe_steps:
  assumes "places s i = Entered l" "holder s = None" "observe now l (shared s) = (u, ls, t)"
  shows "(busy_step i)\<^sup>*\<^sup>* s (at i Idle (s\<lparr>shared := t, out := out s @ ls\<rparr>))"
proof -
  define t1 where "t1 = (if usable l \<and> \<not> everReady (shared s) then (shared s)\<lparr>everReady := True\<rparr> else shared s)"
  have obs: "observe now l (shared s) = (if r_usable t1 = usable l then (usable l, [], t1)
      else (let (ls, t2) = (if usable l then emitRecovered now l t1 else emitUnusable now t1)
            in (usable l, ls, t2\<lparr>r_usable := usable l\<rparr>)))"
    by (simp add: observe_def Let_def t1_def)
  let ?s1 = "at i (Testing l) (s\<lparr>shared := t1\<rparr>)"
  have "(busy_step i)\<^sup>*\<^sup>* s ?s1" unfolding t1_def by (rule latch_alone[OF assms(1)])
  moreover have "(busy_step i)\<^sup>*\<^sup>* ?s1 (at i Idle (s\<lparr>shared := t, out := out s @ ls\<rparr>))"
  proof (cases "r_usable t1 = usable l")
    case True
    then have "t = t1" "ls = []" using assms(3) by (simp_all add: obs)
    moreover have "busy_step i ?s1 (at i Idle ?s1)" using busyI[OF test[of ?s1 i l]] True by simp
    ultimately show ?thesis by (simp add: at_def r_into_rtranclp)
  next
    case False
    let ?s2 = "at i (Waiting l) ?s1"
    let ?s3 = "at i (Locked l) (?s2\<lparr>holder := Some i\<rparr>)"
    have 1: "busy_step i ?s1 ?s2" using busyI[OF test[of ?s1 i l]] False by simp
    have 2: "busy_step i ?s2 ?s3" by (rule busyI[OF lock]) (simp_all add: assms(2))
    obtain ls' t2 where e: "(if usable l then emitRecovered now l t1 else emitUnusable now t1) = (ls', t2)"
      by (metis prod.collapse)
    have t: "t = t2\<lparr>r_usable := usable l\<rparr>" "ls = ls'" using assms(3) False e by (auto simp: obs)
    let ?s5 = "at i (Signalled l) (?s3\<lparr>shared := t2, out := out ?s3 @ ls\<rparr>)"
    have 3: "(busy_step i)\<^sup>*\<^sup>* ?s3 ?s5"
      using recovered_alone[of ?s3 i l now ls t2] unusable_alone[of ?s3 i l now ls t2] e t False
      by (cases "usable l") simp_all
    have 4: "busy_step i ?s5 (at i Idle (?s5\<lparr>shared := (shared ?s5)\<lparr>r_usable := usable l\<rparr>, holder := None\<rparr>))"
      by (rule busyI[OF store]) simp_all
    have "at i Idle (?s5\<lparr>shared := (shared ?s5)\<lparr>r_usable := usable l\<rparr>, holder := None\<rparr>)
        = at i Idle (s\<lparr>shared := t, out := out s @ ls\<rparr>)"
      by (rule tracker.equality) (simp_all add: at_def assms(2) t)
    then show ?thesis
      using rtranclp_trans[OF busy_two[OF 1 2] busy_more[OF 3 4]] by simp
  qed
  ultimately show ?thesis by (rule rtranclp_trans)
qed

text \<open>
  A goroutine that is not interrupted does in its atomic steps exactly what the
  method \<open>observe\<close> is modelled to do in one: the same state, the same log lines, the mutex free.
\<close>

lemma observe_alone:
  assumes "places s i = Entered l" "holder s = None" "observe now l (shared s) = (u, ls, t)"
  shows "(observe_step i)\<^sup>*\<^sup>* s (at i Idle (s\<lparr>shared := t, out := out s @ ls\<rparr>))"
  by (rule busy_steps[OF observe_steps[OF assms]])

text \<open>The same for the recurring report of \<open>heartbeat\<close>, and for \<open>countFailOpenAllow\<close>.\<close>

lemma report_alone:
  assumes "places s i = Idle" "observe now l (shared s0) = (False, ls0, shared s)"
    and "heartbeat now now' l (shared s0) = (ls0 @ ls, t)"
  shows "(observe_step i)\<^sup>*\<^sup>* s (s\<lparr>shared := t, out := out s @ ls\<rparr>)"
proof -
  let ?e = "everReady (shared s)"
  let ?w = "windowDuration now' (shared s)"
  let ?a = "at i (Beat_since ?e) s"
  let ?b = "at i (Beat_total ?e ?w) ?a"
  have 1: "observe_step i s ?a" by (rule beat_ever[OF assms(1)])
  have 2: "observe_step i ?a ?b" using beat_since[of ?a i ?e now'] by simp
  have idle: "(places s)(i := Idle) = places s" using assms(1) by auto
  show ?thesis
  proof (cases "failOpen (shared s)")
    case False
    let ?r = "beat_record (shared s) ?e ?w []"
    let ?c = "at i (Beat_log ?r) ?b"
    have h: "ls = [?r]" "t = shared s"
      using assms(2,3) False by (auto simp: heartbeat_def Let_def beat_record_def)
    have 3: "observe_step i ?b ?c" using beat_closed[of ?b i ?e ?w] False by simp
    have 4: "observe_step i ?c (at i Idle (?c\<lparr>out := out ?c @ [?r]\<rparr>))" by (rule beat_log) simp
    show ?thesis
      using one_more[OF one_more[OF two_steps[OF 1 2] 3] 4] by (simp add: at_def h idle)
  next
    case True
    let ?n = "failOpenTotal (shared s)"
    let ?r = "beat_record (shared s) ?e ?w [(''failopen_allowed_total'', AUint ?n),
         (''failopen_allowed_since_last'', AUint (failOpenSinceHeartbeat (shared s)))]"
    let ?c = "at i (Beat_swap ?e ?w ?n) ?b"
    let ?d = "at i (Beat_log ?r) (?c\<lparr>shared := (shared ?c)\<lparr>failOpenSinceHeartbeat := 0\<rparr>\<rparr>)"
    have h: "ls = [?r]" "t = (shared s)\<lparr>failOpenSinceHeartbeat := 0\<rparr>"
      using assms(2,3) True by (auto simp: heartbeat_def Let_def beat_record_def)
    have 3: "observe_step i ?b ?c" using beat_total[of ?b i ?e ?w] True by simp
    have 4: "observe_step i ?c ?d" using beat_swap[of ?c i ?e ?w ?n] by simp
    have 5: "observe_step i ?d (at i Idle (?d\<lparr>out := out ?d @ [?r]\<rparr>))" by (rule beat_log) simp
    show ?thesis
      using one_more[OF one_more[OF one_more[OF two_steps[OF 1 2] 3] 4] 5] by (simp add: at_def h idle)
  qed
qed

lemma allow_alone:
  assumes "places s i = Idle"
  shows "(observe_step i)\<^sup>*\<^sup>* s (s\<lparr>shared := countFailOpenAllow (shared s)\<rparr>)"
proof -
  let ?a = "at i Counting (s\<lparr>shared := (shared s)\<lparr>failOpenTotal := failOpenTotal (shared s) + 1\<rparr>\<rparr>)"
  have "observe_step i s ?a" by (rule count[OF assms])
  moreover have "observe_step i ?a (at i Idle
      (?a\<lparr>shared := (shared ?a)\<lparr>failOpenSinceHeartbeat := failOpenSinceHeartbeat (shared ?a) + 1\<rparr>\<rparr>))"
    by (rule count_since) simp
  ultimately have "(observe_step i)\<^sup>*\<^sup>* s (at i Idle
      (?a\<lparr>shared := (shared ?a)\<lparr>failOpenSinceHeartbeat := failOpenSinceHeartbeat (shared ?a) + 1\<rparr>\<rparr>))"
    by (rule two_steps)
  moreover have "(places s)(i := Idle) = places s" using assms by auto
  ultimately show ?thesis by (simp add: at_def countFailOpenAllow_def)
qed

section \<open>The signals of many goroutines\<close>

text \<open>
  C10 (invariant). However many goroutines observe, count and report at the same time, the entering
  and the recovery signals of the log alternate, the first being an entering one: every transition
  is signalled once. A recovery is never signalled before the ever-ready latch is set, and the flag
  is what the last signal says unless a goroutine stands between its signal and its store.
\<close>

theorem signals_alternate:
  assumes "reachable_tracker mode s"
  shows "alternates True (signals (out s)) \<and> (True \<in> set (signals (out s)) \<longrightarrow> everReady (shared s))
    \<and> (holder s = None \<longrightarrow> r_usable (shared s) = last_signal True (signals (out s)))"
  using reachable_inv[OF assms]
  by (auto simp: signal_inv_def latch_inv_def current_place_def)

text \<open>A goroutine that waits with a missing blocklist, and another that overtakes and reports it.\<close>

lemma overtaken:
  "\<exists>s. reachable_tracker mode s \<and> places s 0 = Waiting None \<and> places s 1 = Idle
    \<and> holder s = None \<and> signals (out s) = [False]"
proof -
  let ?s0 = "start_tracker mode"
  have p: "\<And>i. places ?s0 i = Idle" "r_usable (shared ?s0)" "holder ?s0 = None" "out ?s0 = []"
    by (simp_all add: start_tracker_def newReadiness_def)
  note go = reachable_tracker.go
  let ?s1 = "at 0 (Entered None) ?s0"
  let ?s2 = "at 0 (Testing None) ?s1"
  let ?s3 = "at 0 (Waiting None) ?s2"
  let ?s4 = "at 1 (Entered None) ?s3"
  have "reachable_tracker mode ?s1" by (rule go[OF reachable_tracker.start]) (rule enter[OF p(1)])
  then have "reachable_tracker mode ?s2" by (rule go) (use see_ever[of ?s1 0 None] in \<open>simp add: usable_def\<close>)
  then have "reachable_tracker mode ?s3" by (rule go) (use test[of ?s2 0 None] p in \<open>simp add: usable_def\<close>)
  then have "reachable_tracker mode ?s4" by (rule go) (rule enter, simp add: p)
  moreover obtain u ls t where o: "observe 7 None (shared ?s4) = (u, ls, t)" by (metis prod_cases3)
  then have "signals ls = [False]" using p(2) by (auto simp: observe_def usable_def emitUnusable_def Let_def)
  moreover have "(observe_step 1)\<^sup>*\<^sup>* ?s4 (at 1 Idle (?s4\<lparr>shared := t, out := out ?s4 @ ls\<rparr>))"
    by (rule busy_steps[OF observe_steps[OF _ _ o]]) (simp_all add: p)
  ultimately show ?thesis
    using reachable_steps p by (intro exI[of _ "at 1 Idle (?s4\<lparr>shared := t, out := out ?s4 @ ls\<rparr>)"]) auto
qed

theorem signals_alternate_witness:
  "\<exists>s. reachable_tracker StartupFailClosed s \<and> signals (out s) = [False] \<and> \<not> r_usable (shared s)"
proof -
  obtain s where s: "reachable_tracker StartupFailClosed s" "holder s = None" "signals (out s) = [False]"
    using overtaken by blast
  from signals_alternate[OF s(1)] s show ?thesis by auto
qed

lemma observe_returns: "fst (observe now l t) = usable l"
  by (simp add: observe_def Let_def split: prod.split)

lemma observe_mode: "r_mode (snd (snd (observe now l t))) = r_mode t"
  by (simp add: observe_def Let_def emitRecovered_def emitUnusable_def)

section \<open>Counting what fail-open lets through\<close>

datatype track_op =
    Observe instant "lookup option"
  | Allow
  | Beat instant instant "lookup option"

fun track_step :: "track_op \<Rightarrow> readiness \<Rightarrow> log_record list \<times> readiness" where
  "track_step (Observe now l) t = (let (u, ls, t') = observe now l t in (ls, t'))"
| "track_step Allow t = ([], countFailOpenAllow t)"
| "track_step (Beat now now' l) t = heartbeat now now' l t"

fun track_run :: "track_op list \<Rightarrow> readiness \<Rightarrow> log_record list \<times> readiness" where
  "track_run [] t = ([], t)"
| "track_run (x # xs) t =
     (let (ls, t') = track_step x t; (ms, t'') = track_run xs t' in (ls @ ms, t''))"

text \<open>
  The reference count: the state last seen, and the requests let through since the blocklist was
  last seen to go away.
\<close>

fun window_count :: "bool \<times> nat \<Rightarrow> track_op list \<Rightarrow> bool \<times> nat" where
  "window_count c [] = c"
| "window_count (b, n) (Allow # xs) = window_count (b, n + 1) xs"
| "window_count (b, n) (Observe now l # xs) =
     window_count (usable l, if b \<and> \<not> usable l then 0 else n) xs"
| "window_count (b, n) (Beat now now' l # xs) =
     window_count (usable l, if b \<and> \<not> usable l then 0 else n) xs"

text \<open>How the tracker and the reference count correspond.\<close>

definition counts :: "StartupMode \<Rightarrow> readiness \<Rightarrow> bool \<times> nat \<Rightarrow> bool" where
  "counts mode t c \<longleftrightarrow> r_mode t = mode \<and> r_usable t = fst c
     \<and> (fst c \<or> failOpenTotal t - failOpenAtWindowStart t = of_nat (snd c))"

lemma counts_allow: "counts mode t (b, n) \<Longrightarrow> counts mode (countFailOpenAllow t) (b, n + 1)"
  by (auto simp: counts_def countFailOpenAllow_def algebra_simps)

lemma counts_observe:
  "counts mode t (b, n) \<Longrightarrow>
     counts mode (snd (snd (observe now l t))) (usable l, if b \<and> \<not> usable l then 0 else n)"
  by (auto simp: counts_def observe_def Let_def emitRecovered_def emitUnusable_def)

lemma heartbeat_tracker:
  "\<exists>v. snd (heartbeat now now' l t) = (snd (snd (observe now l t)))\<lparr>failOpenSinceHeartbeat := v\<rparr>"
  by (auto simp: heartbeat_def Let_def split: prod.splits intro: exI[of _ "failOpenSinceHeartbeat (snd (snd (observe now l t)))"])

lemma counts_step:
  assumes "counts mode t (b, n)"
  shows "counts mode (snd (track_step x t)) (window_count (b, n) [x])"
proof (cases x)
  case (Observe now l)
  then show ?thesis using counts_observe[OF assms, of now l] by (simp add: case_prod_beta)
next
  case Allow
  then show ?thesis using counts_allow[OF assms] by simp
next
  case (Beat now now' l)
  then show ?thesis
    using counts_observe[OF assms, of now l] heartbeat_tracker[of now now' l t] by (auto simp: counts_def)
qed

lemma window_count_Cons: "window_count c (x # xs) = window_count (window_count c [x]) xs"
  by (cases c; cases x) auto

lemma counts_run: "counts mode t c \<Longrightarrow> counts mode (snd (track_run xs t)) (window_count c xs)"
proof (induction xs arbitrary: t c)
  case (Cons x xs)
  obtain b n where c: "c = (b, n)" by (cases c)
  show ?case
    using Cons.IH[OF counts_step[OF Cons.prems[unfolded c], of x]]
    by (subst window_count_Cons) (simp add: c case_prod_beta Let_def)
qed simp

lemma counts_start: "counts mode (newReadiness mode) (True, 0)"
  by (simp add: counts_def newReadiness_def)

lemma usable_Some: "usable l \<Longrightarrow> \<exists>k. l = Some k \<and> 0 < lk_Len k"
  by (auto simp: usable_def split: option.splits)

text \<open>
  Under fail-open the recovery signal reports exactly the requests let through
  since the blocklist was last seen to go away (modulo 2^64), whatever sequence of requests,
  probes, heartbeats and earlier windows came before.
\<close>

lemma recovery_reports_window:
  assumes "track_run xs (newReadiness StartupFailOpen) = (ls, t)"
    and "window_count (True, 0) xs = (False, n)" and "usable l"
  shows "fst (snd (observe now l t)) =
    [logged Info recovered_msg [(''unusable_for'', AStr (windowDuration now t)),
       (''prefixes'', AInt (lookup_Len l)), (''failopen_allowed_total_window'', AUint (of_nat n))]]"
  using counts_run[OF counts_start, of StartupFailOpen xs] assms
  by (auto simp: counts_def observe_def Let_def emitRecovered_def failOpen_def windowDuration_def windowSince_def)

text \<open>A cold start under fail-open: three requests pass, then a trie arrives.\<close>

lemma recovery_reports_window_witness:
  "fst (snd (observe 9000000000 (Some \<lparr>lk_Contains = (\<lambda>_. Some False), lk_Len = 7\<rparr>)
      (snd (track_run [Observe 1000000000 None, Allow, Allow, Allow] (newReadiness StartupFailOpen)))))
     = [logged Info recovered_msg [(''unusable_for'',
         AStr (windowDuration 9000000000 (snd (track_run [Observe 1000000000 None, Allow, Allow, Allow] (newReadiness StartupFailOpen))))),
         (''prefixes'', AInt 7), (''failopen_allowed_total_window'', AUint 3)]]"
  using recovery_reports_window[OF prod.collapse[symmetric], of "[Observe 1000000000 None, Allow, Allow, Allow]" 3
      "Some \<lparr>lk_Contains = (\<lambda>_. Some False), lk_Len = 7\<rparr>"]
  by (simp add: usable_def lookup_Len_def numeral_3_eq_3)

text \<open>
  The heartbeat cannot be silenced: while the blocklist is unusable every heartbeat
  writes the report at level ERROR through any logger the configuration can build, in either
  startup mode.
\<close>

lemma heartbeat_always_logged:
  assumes "new_logger cfg = Inr lg" and "\<not> usable l"
  shows "\<exists>as. logged Error still_unusable_msg as \<in> set (emitted lg (fst (heartbeat now now' l t)))"
proof -
  obtain u ls t1 where o: "observe now l t = (u, ls, t1)" by (metis prod_cases3)
  have "\<not> u" using observe_returns[of now l t] o assms(2) by simp
  then obtain as where "logged Error still_unusable_msg as \<in> set (fst (heartbeat now now' l t))"
    by (cases "failOpen t1") (auto simp: heartbeat_def o Let_def)
  then show ?thesis using error_emitted[OF assms(1)] by (intro exI[of _ as]) simp
qed

lemma heartbeat_always_logged_witness:
  "\<exists>lg as. new_logger \<lparr>log_level_name = LogLevelError, log_format = LogFormatJSON\<rparr> = Inr lg
     \<and> logged Error still_unusable_msg as
       \<in> set (emitted lg (fst (heartbeat 5 6 None (newReadiness StartupFailOpen))))"
proof -
  obtain lg where lg: "new_logger \<lparr>log_level_name = LogLevelError, log_format = LogFormatJSON\<rparr> = Inr lg"
    using new_logger_valid[of "\<lparr>log_level_name = LogLevelError, log_format = LogFormatJSON\<rparr>"] by auto
  from heartbeat_always_logged[OF this, of None 5 6 "newReadiness StartupFailOpen"] lg show ?thesis
    by (simp add: usable_def)
qed

end
