(* ===== verification/Server_Correct.thy ===== *)
theory Server_Correct
  imports Server Readiness_Correct
begin

text \<open>
  What the HTTP surface promises. The contract a lookup owes the server is the locale
  \<open>lookup_contract\<close>; inside it the decision of \<open>/check\<close> is the abstract table
  \<open>allowed\<close> over the set of blocked addresses.
\<close>

section \<open>The decision table\<close>

text \<open>
  Whether a request passes: by the mode when there is no blocklist or an empty one, else only when
  its address is known and not blocked.
\<close>

definition allowed :: "bool \<Rightarrow> addr set option \<Rightarrow> addr option \<Rightarrow> bool" where
  "allowed fail_open blocked ip =
     (case blocked of
        None \<Rightarrow> fail_open
      | Some B \<Rightarrow>
          if B = {} then fail_open
          else (case ip of None \<Rightarrow> False | Some a \<Rightarrow> a \<notin> B))"

lemma handleCheck_mode:
  "handleCheck sv ctx now l r t = Some (resp, ls, t') \<Longrightarrow> r_mode t' = r_mode t"
  using observe_mode[of now l t]
  by (auto simp: handleCheck_def Let_def countFailOpenAllow_def split: if_splits prod.splits option.splits bool.splits)

lemma no_header: "trim_space [] = []"
  by (simp add: trim_space_def)

fun event_lookup :: "serve_event \<Rightarrow> lookup option" where
  "event_lookup (Request now now' l r) = l"
| "event_lookup (Tick now now' l) = l"

fun is_request :: "serve_event \<Rightarrow> bool" where
  "is_request (Request now now' l r) = True"
| "is_request (Tick now now' l) = False"

locale lookup_contract =
  fixes lookup_of :: "'t \<Rightarrow> lookup"
    and wf :: "'t \<Rightarrow> bool"
    and blocked_by :: "'t \<Rightarrow> addr set"
  assumes contains_blocked: "wf t \<Longrightarrow> lk_Contains (lookup_of t) ip = Some (ip \<in> blocked_by t)"
    and len_blocked: "wf t \<Longrightarrow> 0 < lk_Len (lookup_of t) \<longleftrightarrow> blocked_by t \<noteq> {}"
begin

lemma usable_iff:
  "pred_option wf src \<Longrightarrow> usable (map_option lookup_of src) \<longleftrightarrow> (\<exists>t. src = Some t \<and> blocked_by t \<noteq> {})"
  by (cases src) (auto simp: usable_def len_blocked)

lemma check_decision:
  assumes "pred_option wf src" "http_method r = ''GET''"
  shows "\<exists>ls t'. handleCheck sv ctx now (map_option lookup_of src) r t
    = Some (write_header (if allowed (failOpen t) (map_option blocked_by src) (extractClientIP (headers r))
                          then 200 else blockStatus sv), ls, t')"
proof -
  obtain u ls t1 where o: "observe now (map_option lookup_of src) t = (u, ls, t1)" by (metis prod_cases3)
  have u: "u \<longleftrightarrow> (\<exists>t. src = Some t \<and> blocked_by t \<noteq> {})"
    using observe_returns[of now "map_option lookup_of src" t] o usable_iff[OF assms(1)] by simp
  have m: "failOpen t1 = failOpen t"
    using observe_mode[of now "map_option lookup_of src" t] o by (simp add: failOpen_def)
  show ?thesis
  proof (cases u)
    case False
    then have "allowed (failOpen t) (map_option blocked_by src) ip = failOpen t" for ip
      using u by (cases src) (auto simp: allowed_def)
    then show ?thesis using False assms(2) o m by (simp add: handleCheck_def)
  next
    case True
    then obtain k where k: "src = Some k" "blocked_by k \<noteq> {}" using u by blast
    with assms(1) have "lk_Contains (lookup_of k) ip = Some (ip \<in> blocked_by k)" for ip
      by (simp add: contains_blocked)
    then show ?thesis using True assms(2) o k
      by (cases "extractClientIP (headers r)") (auto simp: handleCheck_def allowed_def)
  qed
qed

text \<open>A handler on a well-formed lookup returns, and keeps the startup mode.\<close>

lemma Handler_returns:
  assumes "pred_option wf src"
  shows "\<exists>resp ls t'. Handler sv ctx now now' (map_option lookup_of src) r t = Some (resp, ls, t') \<and> r_mode t' = r_mode t"
proof (cases "mux_route r")
  case Check
  show ?thesis
  proof (cases "http_method r = ''GET''")
    case True
    from check_decision[OF assms True] obtain resp ls t' where
      h: "handleCheck sv (withRequestLogger sv ctx) now (map_option lookup_of src) r t = Some (resp, ls, t')" by blast
    with handleCheck_mode[OF h] show ?thesis by (simp add: Handler_def Check)
  qed (simp add: Handler_def Check handleCheck_def)
next
  case Healthz
  then show ?thesis
    using observe_mode[of now "map_option lookup_of src" t]
    by (auto simp: Handler_def handleHealthz_def Let_def split: prod.splits)
qed (simp_all add: Handler_def)

lemma serve_returns:
  assumes "\<And>e. e \<in> set es \<Longrightarrow> \<exists>src. event_lookup e = map_option lookup_of src \<and> pred_option wf src"
  shows "\<exists>rs ls t'. serve sv ctx es t = Some (rs, ls, t') \<and> length rs = length (filter is_request es)"
  using assms
proof (induction sv ctx es t rule: serve.induct)
  case (2 sv ctx now now' l es t)
  obtain ls t1 where h: "heartbeat_tick sv now now' l t = (ls, t1)" by (cases "heartbeat_tick sv now now' l t")
  from "2.IH"[OF h[symmetric] refl] "2.prems" obtain rs ms t2 where
    "serve sv ctx es t1 = Some (rs, ms, t2)" "length rs = length (filter is_request es)" by auto
  then show ?case by (simp add: h)
next
  case (3 sv ctx now now' l r es t)
  from "3.prems"[of "Request now now' l r"] obtain src where
    src: "l = map_option lookup_of src" "pred_option wf src" by auto
  from Handler_returns[OF src(2)] obtain resp ls t1 where
    h: "Handler sv ctx now now' l r t = Some (resp, ls, t1)" unfolding src(1) by metis
  from "3.IH"[OF h refl refl] "3.prems" obtain rs ms t2 where
    "serve sv ctx es t1 = Some (rs, ms, t2)" "length rs = length (filter is_request es)" by auto
  then show ?case by (simp add: h)
qed simp

end

section \<open>The two endpoints\<close>

text \<open>A server for the witnesses.\<close>

definition sample_server :: server where
  "sample_server = \<lparr>addr_of = ''127.0.0.1:8080'', logger_of = discard, blockStatus = 403,
     logBlocked = True, logAllowed = False\<rparr>"


text \<open>
  Both endpoints answer every method but GET with 405 and the \<open>Allow\<close> header, and such
  a request changes nothing: it is not counted, not observed and not logged.
\<close>

lemma other_methods_rejected:
  assumes "url_path r \<in> {''/check'', ''/healthz''}" "http_method r \<noteq> ''GET''"
  shows "Handler sv ctx now now' l r t = Some (method_not_allowed, [], t)"
  using assms by (auto simp: Handler_def mux_route_check mux_route_healthz handleCheck_def handleHealthz_def)

lemma other_methods_rejected_witness:
  "Handler sample_server Background 1 2 None \<lparr>http_method = ''POST'', url_path = ''/check'', raw_query = [], url_host = [], proto_1_1 = True, headers = Map.empty\<rparr> (newReadiness StartupFailOpen)
     = Some (method_not_allowed, [], newReadiness StartupFailOpen)"
  by (rule other_methods_rejected) simp_all

text \<open>
  C23 (functional). The probe is ready exactly when the lookup is usable, in both startup modes: 200
  with the prefix count while the daemon enforces, else 503, with the posture that \<open>/check\<close> has and
  the whole seconds since the blocklist went away.
\<close>

theorem healthz_reports_usable:
  assumes "url_path r = ''/healthz''" "http_method r = ''GET''"
  shows "\<exists>ls t'. Handler sv ctx now now' l r t = Some
    (if usable l
     then \<lparr>code = 200, resp_headers = [''Content-Type'' \<mapsto> [''application/json'']],
            body = healthz_json \<lparr>hz_Status = ''ok'', hz_Serving = ''enforcing'', hz_EverReady = True,
              hz_Prefixes = Some (lookup_Len l), hz_EmptyForSeconds = None\<rparr>\<rparr>
     else \<lparr>code = 503, resp_headers = [''Content-Type'' \<mapsto> [''application/json'']],
            body = healthz_json \<lparr>hz_Status = ''empty'',
              hz_Serving = (if failOpen t then ''allow-all'' else ''deny-all''), hz_EverReady = everReady t,
              hz_Prefixes = None,
              hz_EmptyForSeconds = Some (go_quot (sint (windowSince now' t')) (sint second))\<rparr>\<rparr>, ls, t')"
proof -
  obtain u ls t1 where o: "observe now l t = (u, ls, t1)" by (metis prod_cases3)
  have u: "u = usable l" using observe_returns[of now l t] o by simp
  have m: "failOpen t1 = failOpen t" using observe_mode[of now l t] o by (simp add: failOpen_def)
  have e: "everReady t1 = everReady t" if "\<not> usable l"
    using o that by (auto simp: observe_def Let_def emitUnusable_def split: if_splits)
  show ?thesis
    using assms o u m e
    by (intro exI[of _ "emitted (logger_of sv) ls"] exI[of _ t1])
      (simp add: Handler_def mux_route_healthz handleHealthz_def serving_def servingEnforcing_def
        servingAllowAll_def servingDenyAll_def)
qed

text \<open>A cold daemon under fail-open that has just started is asked for its health.\<close>

theorem healthz_reports_usable_witness:
  "\<exists>resp ls t'. Handler sample_server Background 1000 1000 None \<lparr>http_method = ''GET'', url_path = ''/healthz'', raw_query = [], url_host = [], proto_1_1 = True, headers = Map.empty\<rparr>
       (newReadiness StartupFailOpen) = Some (resp, ls, t') \<and> code resp = 503"
  using healthz_reports_usable[of "\<lparr>http_method = ''GET'', url_path = ''/healthz'', raw_query = [], url_host = [], proto_1_1 = True, headers = Map.empty\<rparr>" sample_server Background 1000 1000
      None "newReadiness StartupFailOpen"]
  by (auto simp: usable_def)

text \<open>
  While a blocklist is active, a request without a parseable client address is denied
  in both startup modes, and the denial is reported at level WARN: fail-open never turns a
  malformed header into a pass.
\<close>

lemma unparseable_ip_denied:
  assumes "usable l" "http_method r = ''GET''" "extractClientIP (headers r) = None"
  shows "\<exists>ls t' as. handleCheck sv ctx now l r t
    = Some (write_header (blockStatus sv),
        ls @ emitted (FromContext ctx) [logged Warn ''check: fail-closed (unparseable client IP)'' as], t')"
proof -
  obtain u ls t1 where o: "observe now l t = (u, ls, t1)" by (metis prod_cases3)
  then have u using observe_returns[of now l t] assms(1) by simp
  then show ?thesis using assms(2,3) o
    by (intro exI[of _ "emitted (logger_of sv) ls"] exI[of _ t1]
        exI[of _ "[(''x_real_ip_present'', ABool (header_get (headers r) headerXRealIP \<noteq> [])),
          (''x_forwarded_for_present'', ABool (header_get (headers r) headerXForwardedFor \<noteq> []))]"])
      (simp add: handleCheck_def)
qed

lemma unparseable_ip_denied_witness:
  "\<exists>ls t' as. handleCheck sample_server Background 1 (Some \<lparr>lk_Contains = (\<lambda>_. Some False), lk_Len = 1\<rparr>)
      \<lparr>http_method = ''GET'', url_path = ''/check'', raw_query = [], url_host = [], proto_1_1 = True, headers = Map.empty\<rparr> (newReadiness StartupFailOpen)
    = Some (write_header (blockStatus sample_server),
        ls @ emitted (FromContext Background) [logged Warn ''check: fail-closed (unparseable client IP)'' as], t')"
  by (rule unparseable_ip_denied) (simp_all add: usable_def extractClientIP_def header_get_def Let_def no_header)

text \<open>
  Once the loss of the blocklist has been signalled, the denials of a fail-closed
  daemon write no line of their own: what an operator reads of them is the signal and the heartbeat.
\<close>

lemma unusable_denials_are_silent:
  assumes "\<not> usable l" "\<not> r_usable t" "\<not> failOpen t" "http_method r = ''GET''"
  shows "handleCheck sv ctx now l r t = Some (write_header (blockStatus sv), [], t)"
  using assms by (simp add: handleCheck_def observe_def emitted_def)

lemma unusable_denials_are_silent_witness:
  "handleCheck sample_server Background 1 None \<lparr>http_method = ''GET'', url_path = ''/check'', raw_query = [], url_host = [], proto_1_1 = True, headers = Map.empty\<rparr>
      (snd (snd (observe 1 None (newReadiness StartupFailClosed))))
    = Some (write_header (blockStatus sample_server), [], snd (snd (observe 1 None (newReadiness StartupFailClosed))))"
  by (rule unusable_denials_are_silent)
    (simp_all add: usable_def observe_def emitUnusable_def newReadiness_def failOpen_def
      StartupFailOpen_def StartupFailClosed_def Let_def)

section \<open>Responses\<close>

text \<open>The shapes of the server's responses.\<close>

definition response_wf :: "int \<Rightarrow> response \<Rightarrow> bool" where
  "response_wf block_status resp \<longleftrightarrow>
     resp \<in> {write_header 200, write_header block_status, method_not_allowed, not_found}
   \<or> (\<exists>r. resp = bad_request r) \<or> (\<exists>r p. resp = moved r p)
   \<or> (\<exists>h. resp = \<lparr>code = if hz_Status h = ''ok'' then 200 else 503,
          resp_headers = [''Content-Type'' \<mapsto> [''application/json'']], body = healthz_json h\<rparr>
        \<and> hz_Status h \<in> {''ok'', ''empty''} \<and> (hz_Prefixes h = None \<longleftrightarrow> hz_Status h = ''empty'')
        \<and> (hz_EmptyForSeconds h = None \<longleftrightarrow> hz_Status h = ''ok''))"

lemma response_wf_simps [simp]:
  "response_wf b (write_header 200)" "response_wf b (write_header b)" "response_wf b method_not_allowed"
  "response_wf b not_found" "response_wf b (moved r p)" "response_wf b (bad_request r)"
  by (auto simp: response_wf_def)

lemma handleHealthz_wf:
  assumes "handleHealthz sv now now' l r t = (resp, ls, t')"
  shows "response_wf b resp"
proof (cases "http_method r = ''GET''")
  case False
  then show ?thesis using assms by (auto simp: handleHealthz_def)
next
  case True
  obtain u os t1 where o: "observe now l t = (u, os, t1)" by (metis prod_cases3)
  show ?thesis
  proof (cases u)
    case u: True
    show ?thesis unfolding response_wf_def
      by (intro disjI2, rule exI[of _ "\<lparr>hz_Status = ''ok'', hz_Serving = servingEnforcing, hz_EverReady = True,
            hz_Prefixes = Some (lookup_Len l), hz_EmptyForSeconds = None\<rparr>"])
        (use assms True o u in \<open>auto simp: handleHealthz_def\<close>)
  next
    case u: False
    show ?thesis unfolding response_wf_def
      by (intro disjI2, rule exI[of _ "\<lparr>hz_Status = ''empty'', hz_Serving = serving t1 False, hz_EverReady = everReady t1,
            hz_Prefixes = None, hz_EmptyForSeconds = Some (go_quot (sint (windowSince now' t1)) (sint second))\<rparr>"])
        (use assms True o u in \<open>auto simp: handleHealthz_def Let_def\<close>)
  qed
qed

lemma Handler_response_wf:
  assumes "Handler sv ctx now now' l r t = Some (resp, ls, t')"
  shows "response_wf (blockStatus sv) resp"
proof (cases "mux_route r")
  case Check
  then show ?thesis using assms
    by (auto simp: Handler_def handleCheck_def Let_def
        split: option.splits if_splits prod.splits bool.splits)
next
  case Healthz
  then show ?thesis using assms handleHealthz_wf by (auto simp: Handler_def)
qed (use assms in \<open>auto simp: Handler_def\<close>)

end
