(* ===== verification/Daemon_Correct.thy ===== *)
theory Daemon_Correct
  imports Daemon Trie_Correct Fetcher_Correct Scheduler_Correct Server_Correct Config_Correct
begin

text \<open>
  The daemon as a whole: the trie is the lookup the server was promised, the fetcher's refresh is
  the one the scheduler was promised, and in every order of requests, heartbeats and refreshes the
  answers are those of the last published database.
\<close>

section \<open>The contracts, discharged\<close>

interpretation active_trie: lookup_contract trie_lookup trie_wf blocked
  by unfold_locales
    (use blocklist.mem_returns blocklist.size_nonneg blocklist.size_zero
      in \<open>force simp: trie_lookup_def order_less_le\<close>)+

lemma newLookupSource_eq: "newLookupSource src = map_option trie_lookup (Current src)"
  by (cases "Current src") (simp_all add: newLookupSource_def)

definition source_wf :: "source \<Rightarrow> bool" where
  "source_wf src = pred_option trie_wf (Current src)"

lemma source_wf_simps [simp]: "source_wf NewSource" "source_wf (Swap (Some t) src) \<longleftrightarrow> trie_wf t"
  by (simp_all add: source_wf_def NewSource_def Swap_def Current_def)

lemma Refresh_returns: "\<exists>outc err st'. Refresh mmdb_open env st = Some ((outc, err), st')"
proof -
  have load: "LoadCountryBlocklist m p f ccs \<noteq> None" for m p f ccs
    using LoadCountryBlocklist_returns[of m p f ccs] by auto
  show ?thesis
    by (auto simp: Refresh_def Let_def load split: prod.splits sum.splits option.splits)
qed

lemma Refresh_failed_keeps:
  "Refresh mmdb_open env st = Some ((outc, Some e), st') \<Longrightarrow> active st' = active st"
  by (erule Refresh_cases) simp_all

lemma Refresh_wf:
  assumes "Refresh mmdb_open env st = Some ((outc, err), st')" "source_wf (active st)"
  shows "source_wf (active st')"
  using assms(1)
proof (cases rule: Refresh_cases)
  case (updated body v l sent F t l')
  then show ?thesis
    using LoadCountryBlocklist_returns[of mmdb_open "cachePath (fetcher_of st)"
        "map_option data (F (cachePath (fetcher_of st)))" "fetcher.countries (fetcher_of st)"]
    by auto
qed (use assms(2) in simp_all)

lemma refresh_call_Some:
  "\<exists>err st'. refresh_call mmdb_open envs d k (Some st) = (err, Some st')
     \<and> (\<exists>outc. Refresh mmdb_open (envs k) st = Some ((outc, err), st'))"
  using Refresh_returns[of mmdb_open "envs k" st] by (auto simp: refresh_call_def)

text \<open>The shared state of a daemon that has not panicked and holds a well-formed trie or none.\<close>

definition state_wf :: "refresher option \<Rightarrow> bool" where
  "state_wf s \<longleftrightarrow> (\<exists>st. s = Some st \<and> source_wf (active st))"

interpretation daily: refresh_contract "refresh_call mmdb_open envs" "map_option active" state_wf
  for mmdb_open envs
proof
  fix s d k e s'
  assume "state_wf s" "refresh_call mmdb_open envs d k s = (Some e, s')"
  then show "map_option active s' = map_option active s"
    by (auto simp: state_wf_def refresh_call_def dest: Refresh_failed_keeps split: option.splits prod.splits)
next
  fix s d k
  assume "state_wf s"
  then obtain st where st: "s = Some st" "source_wf (active st)" by (auto simp: state_wf_def)
  obtain err st' outc where c: "refresh_call mmdb_open envs d k s = (err, Some st')"
      "Refresh mmdb_open (envs k) st = Some ((outc, err), st')"
    using refresh_call_Some[of mmdb_open envs d k st] st(1) by auto
  then show "state_wf (snd (refresh_call mmdb_open envs d k s))"
    using Refresh_wf[OF c(2) st(2)] by (simp add: state_wf_def)
qed

section \<open>Reaching states\<close>

definition daemon_wf :: "daemon \<Rightarrow> bool" where
  "daemon_wf d \<longleftrightarrow> source_wf (active (d_state d))
     \<and> 400 \<le> blockStatus (d_server d) \<and> blockStatus (d_server d) \<le> 599"

lemma loadDiskCache_wf:
  "loadDiskCache mmdb_open env cfg src F = Some (ls, src', F') \<Longrightarrow> source_wf src \<Longrightarrow> source_wf src'"
  using LoadCountryBlocklist_returns
  by (auto simp: loadDiskCache_def cache_Load_def Let_def split: option.splits sum.splits if_splits prod.splits)
    (metis option.inject)+

lemma start_wf:
  assumes "start_daemon mmdb_open envs env args F = Some (Inr d)"
  shows "daemon_wf d"
  using assms loadDiskCache_wf[OF _ source_wf_simps(1)]
  by (auto simp: start_daemon_def server_New_def daemon_wf_def Let_def
      split: sum.splits option.splits prod.splits if_splits)


lemma daemon_step_wf:
  assumes "daemon_wf d"
  shows "\<exists>rs d'. daemon_step mmdb_open ctx e d = Some (rs, d') \<and> daemon_wf d'
    \<and> d_server d' = d_server d \<and> r_mode (d_tracker d') = r_mode (d_tracker d)
    \<and> length rs = (case e of On_request now now' r \<Rightarrow> 1 | _ \<Rightarrow> 0)"
proof (cases e)
  case (On_request now now' r)
  have "pred_option trie_wf (Current (active (d_state d)))"
    using assms by (simp add: daemon_wf_def source_wf_def)
  from active_trie.Handler_returns[OF this, of "d_server d" ctx now now' r "d_tracker d"]
  show ?thesis using assms by (auto simp: On_request newLookupSource_eq daemon_wf_def)
next
  case (On_tick now now')
  obtain ls tr where h: "heartbeat_tick (d_server d) now now' (newLookupSource (active (d_state d))) (d_tracker d) = (ls, tr)"
    by (cases "heartbeat_tick (d_server d) now now' (newLookupSource (active (d_state d))) (d_tracker d)")
  then have "r_mode tr = r_mode (d_tracker d)"
    using heartbeat_tracker[of now now' "newLookupSource (active (d_state d))" "d_tracker d"]
      observe_mode[of now "newLookupSource (active (d_state d))" "d_tracker d"]
    by (auto simp: heartbeat_tick_def split: prod.splits)
  then show ?thesis using assms h by (simp add: On_tick daemon_wf_def)
next
  case (On_refresh env)
  from Refresh_returns[of mmdb_open env "d_state d"] show ?thesis
    using assms Refresh_wf[of mmdb_open env "d_state d"] by (auto simp: On_refresh daemon_wf_def)
qed

fun is_On_request :: "daemon_event \<Rightarrow> bool" where
  "is_On_request (On_request now now' r) = True"
| "is_On_request _ = False"

lemma daemon_run_wf:
  "daemon_wf d \<Longrightarrow> \<exists>rs d'. daemon_run mmdb_open ctx es d = Some (rs, d') \<and> daemon_wf d'
    \<and> d_server d' = d_server d \<and> r_mode (d_tracker d') = r_mode (d_tracker d)
    \<and> length rs = length (filter is_On_request es)"
proof (induction es arbitrary: d)
  case (Cons e es)
  from daemon_step_wf[OF Cons.prems, of mmdb_open ctx e] obtain rs d1 where
    1: "daemon_step mmdb_open ctx e d = Some (rs, d1)" "daemon_wf d1" "d_server d1 = d_server d"
      "r_mode (d_tracker d1) = r_mode (d_tracker d)"
      "length rs = (case e of On_request now now' r \<Rightarrow> 1 | _ \<Rightarrow> 0)" by blast
  from Cons.IH[OF 1(2)] obtain rs' d2 where
    "daemon_run mmdb_open ctx es d1 = Some (rs', d2)" "daemon_wf d2" "d_server d2 = d_server d1"
      "r_mode (d_tracker d2) = r_mode (d_tracker d1)" "length rs' = length (filter is_On_request es)" by blast
  with 1 show ?case by (auto split: daemon_event.split)
qed simp

lemma daemon_run_responses:
  assumes "daemon_run mmdb_open ctx es d = Some (rs, d')" "resp \<in> set rs"
  shows "response_wf (blockStatus (d_server d)) resp"
  using assms
proof (induction es arbitrary: d rs)
  case (Cons e es)
  from Cons.prems(1) obtain rs1 d1 rs2 where s: "daemon_step mmdb_open ctx e d = Some (rs1, d1)"
      "daemon_run mmdb_open ctx es d1 = Some (rs2, d')" "rs = rs1 @ rs2"
    by (auto split: option.splits prod.splits)
  have sv: "d_server d1 = d_server d"
    using s(1) by (cases e) (auto split: option.splits prod.splits)
  have "resp \<in> set rs1 \<Longrightarrow> response_wf (blockStatus (d_server d)) resp"
    using s(1) Handler_response_wf by (cases e) (auto split: option.splits prod.splits)
  then show ?case using Cons.IH[OF s(2)] Cons.prems(2) s(3) sv by auto
qed simp

section \<open>The start\<close>

lemma Load_ok: "Load rf dec pc path = Inr cfg \<Longrightarrow> config_ok pc cfg"
  by (auto simp: Load_def Validate_ok_iff[symmetric] split: sum.splits option.splits)

lemma AddrFromConfig_nonempty: "AddrFromConfig c \<noteq> []"
  by (simp add: AddrFromConfig_def join_host_port_def)

lemma loadDiskCache_returns: "\<exists>ls src' F'. loadDiskCache mmdb_open env cfg src F = Some (ls, src', F')"
proof -
  have "LoadCountryBlocklist m p f ccs \<noteq> None" for m p f ccs
    using LoadCountryBlocklist_returns[of m p f ccs] by auto
  then have load: "(LoadCountryBlocklist m p f ccs = None) = False" for m p f ccs by simp
  show ?thesis
    by (auto simp: loadDiskCache_def cache_Load_def Let_def load split: option.splits sum.splits prod.splits)
qed

lemma server_New_config:
  "config_ok pc cfg \<Longrightarrow> \<exists>sv. server_New \<lparr>sv_Addr = AddrFromConfig (listen cfg), sv_has_Lookup = True,
     sv_Logger = Some lg, sv_BlockStatus = response_code (behavior cfg), sv_LogBlocked = log_blocked (behavior cfg),
     sv_LogAllowed = log_allowed (behavior cfg), sv_StartupMode = startup_mode (behavior cfg)\<rparr>
   = Inr (sv, newReadiness (startup_mode (behavior cfg))) \<and> blockStatus sv = response_code (behavior cfg)"
  by (auto simp: server_New_def config_ok_def AddrFromConfig_nonempty)

lemma buildScheduler_config: "config_ok pc cfg \<Longrightarrow> \<exists>sch. buildScheduler mmdb_open envs cfg = Inr sch"
  by (auto simp: buildScheduler_def newScheduler_def config_ok_def)

lemma newFetcher_iff:
  "config_ok pc cfg \<Longrightarrow> newFetcher cfg src lg =
     (if BlockConfig.countries (block cfg) = [] then Inl (New_error ''fetcher: Countries is required'')
      else Inr \<lparr>httpClient = \<lparr>client_timeout = RefreshConfig.timeout (Config.refresh cfg), tls_min_version = 0x0303\<rparr>,
        baseURL = defaultBaseURL, f_now = id, cachePath = cache_path (cache cfg),
        countries = BlockConfig.countries (block cfg), etag = [], lastModified = []\<rparr>)"
  by (auto simp: newFetcher_def new_fetcher_def config_ok_def)

text \<open>What a start on an accepted configuration comes to.\<close>

lemma start_daemon_config:
  assumes "flag_parse default_config_path args = Inr path"
    and "Load (read_file env) (decode_yaml env) (parse_cron env) path = Inr cfg"
  shows "(if BlockConfig.countries (block cfg) = []
      then start_daemon mmdb_open envs env args F
        = Some (Inl (Wrapf ''fetcher: %w'' [] (New_error ''fetcher: Countries is required'')))
      else \<exists>d ls. start_daemon mmdb_open envs env args F = Some (Inr d)
        \<and> loadDiskCache mmdb_open env cfg NewSource F = Some (ls, active (d_state d), fsys (d_state d))
        \<and> r_mode (d_tracker d) = startup_mode (behavior cfg)
        \<and> blockStatus (d_server d) = response_code (behavior cfg)
        \<and> cachePath (fetcher_of (d_state d)) = cache_path (cache cfg)
        \<and> fetcher.countries (fetcher_of (d_state d)) = BlockConfig.countries (block cfg))"
proof -
  have ok: "config_ok (parse_cron env) cfg" by (rule Load_ok[OF assms(2)])
  obtain lg where lg: "new_logger (logging cfg) = Inr lg"
    using new_logger_valid ok unfolding config_ok_def by blast
  obtain ls src F' where c: "loadDiskCache mmdb_open env cfg NewSource F = Some (ls, src, F')"
    using loadDiskCache_returns by blast
  obtain sv where sv: "server_New \<lparr>sv_Addr = AddrFromConfig (listen cfg), sv_has_Lookup = True,
       sv_Logger = Some lg, sv_BlockStatus = response_code (behavior cfg), sv_LogBlocked = log_blocked (behavior cfg),
       sv_LogAllowed = log_allowed (behavior cfg), sv_StartupMode = startup_mode (behavior cfg)\<rparr>
     = Inr (sv, newReadiness (startup_mode (behavior cfg)))" "blockStatus sv = response_code (behavior cfg)"
    using server_New_config[OF ok] by blast
  obtain sch where sch: "buildScheduler mmdb_open envs cfg = Inr sch"
    using buildScheduler_config[OF ok] by blast
  show ?thesis
    using assms lg c sv sch newFetcher_iff[OF ok, of src lg]
    by (simp add: start_daemon_def Let_def newReadiness_def)
qed

section \<open>Answers\<close>

text \<open>The answer of a running daemon to a check, from the trie of the moment.\<close>

definition check_answer :: "daemon \<Rightarrow> request \<Rightarrow> response" where
  "check_answer d r =
     write_header (if allowed (failOpen (d_tracker d)) (map_option blocked (Current (active (d_state d))))
                        (extractClientIP (headers r))
                   then 200 else blockStatus (d_server d))"

lemma daemon_check:
  assumes "daemon_wf d" "url_path r = ''/check''" "http_method r = ''GET''"
  shows "\<exists>d'. daemon_step mmdb_open ctx (On_request now now' r) d = Some ([check_answer d r], d')"
proof -
  have "pred_option trie_wf (Current (active (d_state d)))"
    using assms(1) by (simp add: daemon_wf_def source_wf_def)
  from active_trie.check_decision[OF this assms(3), of "d_server d" "withRequestLogger (d_server d) ctx" now "d_tracker d"]
  show ?thesis
    using assms(2,3)
    by (auto simp: Handler_def mux_route_check newLookupSource_eq check_answer_def)
qed

text \<open>What a loaded trie blocks: the networks of the selected countries.\<close>

lemma load_blocked:
  assumes "LoadCountryBlocklist mmdb_open p f ccs = Some (Inr t)"
  shows "\<exists>reader. mmdb_open f = Inr reader
    \<and> blocked t = {ip. \<exists>q \<in> set (selected ccs (networks reader)). covers q ip}"
proof -
  from assms obtain reader where r: "mmdb_open f = Inr reader"
      "insert_all New (selected ccs (networks reader)) = Some t"
    by (auto simp: LoadCountryBlocklist_Inr_iff)
  from blocklist.ins_list_returns[OF blocklist.wf_empty selected_wf, of ccs "networks reader"] r
  show ?thesis by (auto simp: blocklist.members_empty)
qed

text \<open>A database that loads was walked to its end.\<close>

lemma load_complete:
  assumes "LoadCountryBlocklist mmdb_open p f ccs = Some (Inr t)"
  shows "\<exists>reader. mmdb_open f = Inr reader \<and> networks_err reader = None \<and> (\<forall>err. Inl err \<notin> set (networks reader))
    \<and> (\<forall>subnet code. Inr (subnet, code) \<in> set (networks reader) \<longrightarrow> code \<in> set ccs \<longrightarrow> snd (prefixFromIPNet subnet))
    \<and> blocked t = {ip. \<exists>subnet code. Inr (subnet, code) \<in> set (networks reader)
         \<and> code \<in> set ccs \<and> covers (fst (prefixFromIPNet subnet)) ip}"
proof -
  from assms obtain reader where r: "mmdb_open f = Inr reader" "networks_err reader = None"
      "\<not> (\<exists>n \<in> set (networks reader). stops ccs n)"
    by (auto simp: LoadCountryBlocklist_Inr_iff)
  have "\<forall>err. Inl err \<notin> set (networks reader)" using r(3) stops_simps(1) by blast
  moreover have "\<forall>subnet code. Inr (subnet, code) \<in> set (networks reader) \<longrightarrow> code \<in> set ccs \<longrightarrow> snd (prefixFromIPNet subnet)"
    using r(3) stops_simps(2) by blast
  moreover have "blocked t = {ip. \<exists>q \<in> set (selected ccs (networks reader)). covers q ip}"
    using load_blocked[OF assms] r(1) by auto
  ultimately show ?thesis using r(1,2) by (simp add: covers_selected)
qed

text \<open>A refresh whose cache directory cannot be made never updates.\<close>

lemma unwritable_no_update:
  assumes "mkdir_err (disk_calls env) = Some e" "Refresh mmdb_open env st = Some (res, st')"
  shows "active st' = active st"
proof -
  obtain outc err where res: "Refresh mmdb_open env st = Some ((outc, err), st')"
    using assms(2) by (cases res) simp
  then show ?thesis
    using assms(1) by (cases rule: Refresh_cases) (simp_all add: write_files_def cache_Write_def Let_def)
qed

lemma unwritable_run:
  assumes "\<And>env. On_refresh env \<in> set es \<Longrightarrow> mkdir_err (disk_calls env) \<noteq> None"
    and "daemon_run mmdb_open ctx es d = Some (rs, d')"
  shows "active (d_state d') = active (d_state d)"
  using assms
proof (induction es arbitrary: d rs)
  case (Cons e es)
  from Cons.prems(2) obtain rs1 d1 rs2 where s: "daemon_step mmdb_open ctx e d = Some (rs1, d1)"
      "daemon_run mmdb_open ctx es d1 = Some (rs2, d')"
    by (auto split: option.splits prod.splits)
  have "active (d_state d1) = active (d_state d)"
  proof (cases e)
    case (On_refresh env)
    then obtain err where "mkdir_err (disk_calls env) = Some err" using Cons.prems(1)[of env] by auto
    then show ?thesis using s(1) On_refresh unwritable_no_update by (auto split: option.splits prod.splits)
  qed (use s(1) in \<open>auto split: option.splits prod.splits\<close>)
  then show ?case using Cons.IH[OF _ s(2)] Cons.prems(1) by simp
qed simp

text \<open>
  A start that the fetcher then refuses for want of a country has already removed the cache: the
  loader's refusal of an empty code list counts as an unreadable file.
\<close>

lemma asn_only_start_removes_cache:
  assumes "BlockConfig.countries (block cfg) = []" "stat_fault env = None" "remove_fault env = None"
    and "F (cache_path (cache cfg)) = Some f" "start_time env - mtime f \<le> sint (max_age (cache cfg))"
  shows "\<exists>ls. loadDiskCache mmdb_open env cfg src F = Some (ls, src, F(cache_path (cache cfg) := None))"
  using assms
  by (simp add: loadDiskCache_def cache_Load_def os_stat_def time_sub_less LoadCountryBlocklist_def
      removeUnusableCache_def os_remove_call_def Let_def)

text \<open>A cache file that the loader refuses, fresh or stale, is gone after the start.\<close>

lemma loadDiskCache_unloadable:
  assumes "F (cache_path (cache cfg)) = Some f"
    and "LoadCountryBlocklist mmdb_open (cache_path (cache cfg)) (Some (data f)) (BlockConfig.countries (block cfg)) = Some (Inl e)"
    and "\<not> errors_is e Diskcache_ErrAbsent" "stat_fault env = None" "cache_fault env = None" "remove_fault env = None"
  shows "\<exists>ls. loadDiskCache mmdb_open env cfg src F = Some (ls, src, F(cache_path (cache cfg) := None))"
  using assms
  by (auto simp: loadDiskCache_def cache_Load_def os_stat_def Let_def removeUnusableCache_def os_remove_call_def)

section \<open>A sample daemon\<close>

text \<open>A start on \<open>sample_config\<close> with no flags and an operating system without faults.\<close>

definition sample_start :: start_env where
  "sample_start = \<lparr>read_file = (\<lambda>_. Inr ''''), decode_yaml = (\<lambda>_ _. Inr sample_config),
     parse_cron = (\<lambda>_. None), stat_fault = None, cache_fault = None, remove_fault = None, start_time = 1000\<rparr>"

lemma sample_Load: "Load (read_file sample_start) (decode_yaml sample_start) (parse_cron sample_start) p = Inr sample_config"
  using sample_config_ok by (simp add: sample_start_def Load_def Validate_ok_iff[symmetric])

lemma sample_flags: "flag_parse default_config_path [] = Inr default_config_path"
  by simp

lemma sample_started:
  obtains d where "start_daemon mmdb_open envs sample_start [] Map.empty = Some (Inr d)"
    "Current (active (d_state d)) = None" "r_mode (d_tracker d) = StartupFailClosed"
    "blockStatus (d_server d) = 403" "fsys (d_state d) = Map.empty"
    "cachePath (fetcher_of (d_state d)) = cache_path (cache sample_config)"
    "fetcher.countries (fetcher_of (d_state d)) = [''CN'']"
proof -
  have c: "BlockConfig.countries (block sample_config) = [''CN'']" by (simp add: sample_config_def)
  have cold: "loadDiskCache mmdb_open sample_start sample_config NewSource Map.empty
      = Some ([logged Info ''disk cache: none present; cold start'' [(''path'', AStr (cache_path (cache sample_config)))]],
          NewSource, Map.empty)"
    by (simp add: loadDiskCache_def cache_Load_def os_stat_def sample_start_def)
  from start_daemon_config[OF sample_flags sample_Load, of mmdb_open envs Map.empty] c
  obtain d ls where d: "start_daemon mmdb_open envs sample_start [] Map.empty = Some (Inr d)"
      "loadDiskCache mmdb_open sample_start sample_config NewSource Map.empty
        = Some (ls, active (d_state d), fsys (d_state d))"
      "r_mode (d_tracker d) = startup_mode (behavior sample_config)"
      "blockStatus (d_server d) = response_code (behavior sample_config)"
      "cachePath (fetcher_of (d_state d)) = cache_path (cache sample_config)"
      "fetcher.countries (fetcher_of (d_state d)) = [''CN'']"
    by (simp only: c list.distinct if_False) blast
  have "active (d_state d) = NewSource" "fsys (d_state d) = Map.empty"
    using d(2) unfolding cold by simp_all
  moreover have "startup_mode (behavior sample_config) = StartupFailClosed" "response_code (behavior sample_config) = 403"
    by (simp_all add: sample_config_def defaults_def)
  ultimately show thesis
    using d by (intro that[of d]) (simp_all add: NewSource_def Current_def)
qed

text \<open>The first refresh of the sample daemon, and a client outside the blocked network.\<close>

abbreviation sample_cache_path :: string where
  "sample_cache_path \<equiv> ''/var/cache/bitblocker/dbip-country-lite.mmdb''"

lemma sample_cache_path_eq: "cache_path (cache sample_config) = sample_cache_path"
  by (simp add: sample_config_def defaults_def)

lemma sample_cache_dir: "filepath_dir sample_cache_path = ''/var/cache/bitblocker''"
  by (simp add: filepath_dir_def filepath_clean_def)

lemma sample_cache_fresh: "temp_fresh sample_env sample_cache_path Map.empty"
  by (simp add: temp_fresh_def sample_env_def sample_cache_dir temp_path_def)

lemma sample_cache_write: "fst (write_files sample_cache_path sample_env (bytes_reader [1, 2]) F) = None"
  by (simp add: write_files_def cache_Write_def write_temp_def sample_env_def bytes_reader_def Let_def split: prod.splits)

lemma sample_first_refresh:
  assumes "cachePath (fetcher_of st) = sample_cache_path" "fetcher.countries (fetcher_of st) = [''CN'']"
    and "fsys st = Map.empty"
  obtains t st' where "Refresh sample_mmdb (answering 200) st = Some ((OutcomeUpdated, None), st')"
    "Current (active st') = Some t" "blocked t = {ip. covers (prefix_from (Addr4 0x0A000000) 8) ip}"
proof -
  obtain t where t: "LoadCountryBlocklist sample_mmdb sample_cache_path (Some [1, 2]) [''CN''] = Some (Inr t)"
    using sample_load by blast
  note d = sample_body
  have "\<exists>s'. Refresh sample_mmdb (answering 200) st = Some ((OutcomeUpdated, None), s') \<and> Current (active s') = Some t"
    by (rule Refresh_updates[of _ _ "\<lparr>status = 200, resp_header = [''Etag'' \<mapsto> [''v1'']], resp_body = bytes_reader (gzip_stored [1, 2])\<rparr>" "[1, 2]"])
      (use t d assms sample_cache_write sample_cache_fresh in \<open>simp_all add: answering_def\<close>)
  moreover have "blocked t = {ip. covers (prefix_from (Addr4 0x0A000000) 8) ip}"
    using load_blocked[OF t] by (simp add: sample_prefix)
  ultimately show thesis using that by blast
qed

definition sample_request :: request where
  "sample_request = \<lparr>http_method = ''GET'', url_path = ''/check'', raw_query = [], url_host = [], proto_1_1 = True, headers = [''X-Real-Ip'' \<mapsto> [addr_string (Addr4 0xCB007107)]]\<rparr>"

lemma sample_client: "extractClientIP (headers sample_request) = Some (Addr4 0xCB007107)"
proof -
  have "canonical_key headerXRealIP = ''X-Real-Ip''"
    by (simp add: canonical_key_def headerXRealIP_def ascii_upper_def ascii_lower_def char_of_def bit_0)
  then show ?thesis
    using entry_addr_ipv4[of 0 "0xCB007107" 0]
    by (simp add: sample_request_def extractClientIP_eq header_get_def)
qed

lemma sample_client_outside: "\<not> covers (prefix_from (Addr4 0x0A000000) 8) (Addr4 0xCB007107)"
  by (simp add: covers_def prefix_from_def)

end
