(* ===== verification/Concurrent_Correct.thy ===== *)
theory Concurrent_Correct
  imports Concurrent Daemon_Correct
begin

text \<open>
  Every interleaving of the server's goroutines with the refresher: each answer is the decision on
  a blocklist that was active while the request was served, the tracker behaves as it does under
  any goroutines, and one request alone can do what the handler is modelled to do in one step.
\<close>

section \<open>The verdict\<close>

lemma usable_seen: "pred_option trie_wf c \<Longrightarrow> usable (seen c) \<longleftrightarrow> (\<exists>t. c = Some t \<and> blocked t \<noteq> {})"
  unfolding seen_def by (rule active_trie.usable_iff)

lemma newLookupSource_seen: "newLookupSource src = seen (Current src)"
  by (simp add: newLookupSource_eq seen_def)

text \<open>The answer to a check on a blocklist.\<close>

definition check_response :: "server \<Rightarrow> bool \<Rightarrow> trie option \<Rightarrow> request \<Rightarrow> response" where
  "check_response sv fail_open c r =
     write_header (if allowed fail_open (map_option blocked c) (extractClientIP (headers r))
                   then 200 else blockStatus sv)"

lemma check_response_unusable:
  "pred_option trie_wf c \<Longrightarrow> \<not> usable (seen c) \<Longrightarrow>
     check_response sv fo c r = write_header (if fo then 200 else blockStatus sv)"
  by (cases c) (auto simp: usable_seen check_response_def allowed_def)

lemma check_verdict_usable:
  assumes "pred_option trie_wf c" "usable (seen c)"
  shows "\<exists>ls. check_verdict sv (seen c) r = Some (check_response sv fo c r, ls)"
proof -
  obtain t where t: "c = Some t" "blocked t \<noteq> {}" using assms usable_seen by blast
  with assms(1) have "lk_Contains (trie_lookup t) ip = Some (ip \<in> blocked t)" for ip
    by (simp add: active_trie.contains_blocked)
  then show ?thesis using t
    by (cases "extractClientIP (headers r)") (auto simp: check_verdict_def check_response_def allowed_def seen_def)
qed

text \<open>\<open>handleCheck\<close> is the observation, then the posture or the verdict.\<close>

lemma handleCheck_verdict:
  assumes "http_method r = ''GET''" "observe now l t = (u, ls, t1)"
  shows "handleCheck sv ctx now l r t =
    (if \<not> u then
       Some (if failOpen t1 then (write_header 200, emitted (logger_of sv) ls, countFailOpenAllow t1)
             else (write_header (blockStatus sv), emitted (logger_of sv) ls, t1))
     else map_option (\<lambda>(resp, ms). (resp, emitted (logger_of sv) ls @ emitted (FromContext ctx) ms, t1))
            (check_verdict sv l r))"
  using assms
  by (auto simp: handleCheck_def check_verdict_def emitted_def split: option.split bool.split)

section \<open>The invariants\<close>

text \<open>A value that the pointer held between two counts of the values it has had.\<close>

definition read_in :: "trie option list \<Rightarrow> nat \<Rightarrow> nat \<Rightarrow> trie option \<Rightarrow> bool" where
  "read_in H k k' c \<longleftrightarrow> k' \<le> length H \<and> (\<exists>j. k \<le> Suc j \<and> j < k' \<and> H ! j = c)"

lemma read_in_append: "read_in H k k' c \<Longrightarrow> read_in (H @ [x]) k k' c"
  by (force simp: read_in_def nth_append)

lemma read_in_later: "read_in H k (length H) c \<Longrightarrow> read_in (H @ [x]) k (Suc (length H)) c"
  by (auto simp: read_in_def nth_append)

lemma read_in_last: "H \<noteq> [] \<Longrightarrow> k \<le> length H \<Longrightarrow> read_in H k (length H) (last H)"
  by (auto simp: read_in_def last_conv_nth intro!: exI[of _ "length H - 1"])

definition is_check :: "request \<Rightarrow> bool" where
  "is_check r \<longleftrightarrow> mux_route r = Check \<and> http_method r = ''GET''"

definition is_probe :: "request \<Rightarrow> bool" where
  "is_probe r \<longleftrightarrow> mux_route r = Healthz \<and> http_method r = ''GET''"

fun phase_ok :: "bool \<Rightarrow> trie option list \<Rightarrow> phase \<Rightarrow> bool" where
  "phase_ok fo H (Arrived r k) \<longleftrightarrow> k \<le> length H"
| "phase_ok fo H (Checking r k c) \<longleftrightarrow> is_check r \<and> read_in H k (length H) c"
| "phase_ok fo H (Allowing r k c) \<longleftrightarrow> is_check r \<and> read_in H k (length H) c \<and> \<not> usable (seen c) \<and> fo"
| "phase_ok fo H (Probing r k c) \<longleftrightarrow> is_probe r \<and> read_in H k (length H) c"
| "phase_ok fo H (Probed r k c n) \<longleftrightarrow> is_probe r \<and> read_in H k (length H) c \<and> \<not> usable (seen c)"
| "phase_ok fo H _ \<longleftrightarrow> True"

definition answer_ok :: "server \<Rightarrow> bool \<Rightarrow> trie option list \<Rightarrow> request \<times> nat \<times> nat \<times> response \<Rightarrow> bool" where
  "answer_ok sv fo H x = (case x of (r, k, k', resp) \<Rightarrow>
     (is_check r \<longrightarrow> (\<exists>c. read_in H k k' c \<and> resp = check_response sv fo c r))
   \<and> (is_probe r \<longrightarrow> (\<exists>c. read_in H k k' c \<and> code resp = (if usable (seen c) then 200 else 503))))"

lemma phase_ok_append: "phase_ok fo H p \<Longrightarrow> phase_ok fo (H @ [x]) p"
  by (cases p) (auto simp: read_in_later)

lemma answer_ok_append: "answer_ok sv fo H x \<Longrightarrow> answer_ok sv fo (H @ [y]) x"
  by (auto simp: answer_ok_def intro: read_in_append split: prod.splits)

text \<open>What a pending refresh will do to the pointer.\<close>

definition pending_ok :: "system \<Rightarrow> bool" where
  "pending_ok s \<longleftrightarrow> (\<forall>res st. pending s = Some (res, st) \<longrightarrow>
     source_wf (active st) \<and> (fst res = OutcomeUnchanged \<longrightarrow> active st = active (state_of s)))"

text \<open>Phases in which a goroutine is in no call of the tracker.\<close>

fun quiet :: "phase \<Rightarrow> bool" where
  "quiet Free \<longleftrightarrow> True"
| "quiet (Arrived r k) \<longleftrightarrow> True"
| "quiet (Probed r k c n) \<longleftrightarrow> True"
| "quiet _ \<longleftrightarrow> False"

text \<open>Everything that holds of a reachable system started from the daemon \<open>d\<close>.\<close>

definition sys_inv :: "daemon \<Rightarrow> system \<Rightarrow> bool" where
  "sys_inv d s \<longleftrightarrow> sys_server s = d_server d
     \<and> reachable_tracker (r_mode (d_tracker d)) (tracker_of s)
     \<and> history s \<noteq> [] \<and> last (history s) = Current (active (state_of s))
     \<and> (\<forall>c \<in> set (history s). pred_option trie_wf c)
     \<and> pending_ok s
     \<and> (\<forall>i. quiet (phases s i) \<longrightarrow> returned s i)
     \<and> (\<forall>i. phase_ok (r_mode (d_tracker d) = StartupFailOpen) (history s) (phases s i))
     \<and> (\<forall>x \<in> set (answers s). answer_ok (d_server d) (r_mode (d_tracker d) = StartupFailOpen) (history s) x)"

lemma observe_step_mode: "observe_step i t t' \<Longrightarrow> r_mode (shared t') = r_mode (shared t)"
  by (induction rule: observe_step.induct) simp_all

lemma reachable_mode: "reachable_tracker mode t \<Longrightarrow> r_mode (shared t) = mode"
  by (induction rule: reachable_tracker.induct)
    (simp_all add: start_tracker_def newReadiness_def observe_step_mode)

lemma sys_inv_mode: "sys_inv d s \<Longrightarrow> failOpen (shared (tracker_of s)) \<longleftrightarrow> r_mode (d_tracker d) = StartupFailOpen"
  using reachable_mode by (auto simp: sys_inv_def failOpen_def)

lemma sys_inv_read_wf: "sys_inv d s \<Longrightarrow> read_in (history s) k k' c \<Longrightarrow> pred_option trie_wf c"
  by (auto simp: sys_inv_def read_in_def)

lemma moves_simps [simp]:
  "sys_server (moves i p s) = sys_server s" "tracker_of (moves i p s) = tracker_of s"
  "state_of (moves i p s) = state_of s" "pending (moves i p s) = pending s"
  "history (moves i p s) = history s" "answers (moves i p s) = answers s"
  "phases (moves i p s) = (phases s)(i := p)"
  by (simp_all add: moves_def)

lemma pending_ok_moves [simp]: "pending_ok (moves i p s) = pending_ok s"
  by (simp add: pending_ok_def)

lemma returned_simps [simp]:
  "returned (moves i p s) j = returned s j" "returned (s\<lparr>lines := ls\<rparr>) j = returned s j"
  "returned (s\<lparr>pending := pd\<rparr>) j = returned s j"
  "returned (s\<lparr>state_of := st, pending := pd\<rparr>) j = returned s j"
  "returned (s\<lparr>state_of := st, pending := pd, history := H\<rparr>) j = returned s j"
  "returned (s\<lparr>answers := as\<rparr>) j = returned s j" "returned (s\<lparr>state_of := st\<rparr>) j = returned s j"
  by (simp_all add: returned_def)

lemma observe_step_others: "observe_step i t t' \<Longrightarrow> j \<noteq> i \<Longrightarrow> places t' j = places t j"
  by (induction rule: observe_step.induct) simp_all

text \<open>The kinds of steps that keep the invariant.\<close>

lemma inv_moves:
  assumes "sys_inv d s" "phase_ok (r_mode (d_tracker d) = StartupFailOpen) (history s) p"
    and "quiet p \<Longrightarrow> returned s i"
  shows "sys_inv d (moves i p s)"
  using assms by (simp add: sys_inv_def)

lemma inv_tracker:
  assumes "sys_inv d s" "observe_step i (tracker_of s) t" "\<not> quiet (phases s i)"
  shows "sys_inv d (s\<lparr>tracker_of := t\<rparr>)"
proof -
  have "quiet (phases s j) \<Longrightarrow> places t j = Idle" for j
    using assms observe_step_others[OF assms(2), of j] by (cases "j = i") (auto simp: sys_inv_def returned_def)
  then show ?thesis
    using assms reachable_tracker.go[of "r_mode (d_tracker d)" "tracker_of s" i t]
    by (simp add: sys_inv_def pending_ok_def returned_def)
qed

lemma inv_lines: "sys_inv d s \<Longrightarrow> sys_inv d (s\<lparr>lines := ls\<rparr>)"
  by (simp add: sys_inv_def pending_ok_def)

lemma inv_responds:
  assumes "sys_inv d s" "returned s i"
    and "answer_ok (d_server d) (r_mode (d_tracker d) = StartupFailOpen) (history s) (r, k, length (history s), resp)"
  shows "sys_inv d (responds i r k resp s)"
  using assms by (simp add: sys_inv_def responds_def pending_ok_def)

lemma inv_loads:
  assumes "sys_inv d s" "quiet (phases s i)"
    and "phase_ok (r_mode (d_tracker d) = StartupFailOpen) (history s) (p (last (history s)))"
    and "\<And>c. \<not> quiet (p c)"
  shows "sys_inv d (loads i p s)"
proof -
  let ?s = "moves i (p (Current (active (state_of s)))) s"
  have l: "last (history s) = Current (active (state_of s))" "places (tracker_of s) i = Idle"
    using assms(1,2) by (simp_all add: sys_inv_def returned_def)
  then have "sys_inv d ?s" using inv_moves[OF assms(1), of "p (last (history s))" i] assms(3,4) by simp
  moreover have "observe_step i (tracker_of ?s)
      (at i (Entered (newLookupSource (active (state_of s)))) (tracker_of s))"
    using enter[OF l(2)] by simp
  ultimately show ?thesis unfolding loads_def by (rule inv_tracker) (simp add: assms(4))
qed

lemma inv_published:
  assumes "sys_inv d s" "pending s = Some ((OutcomeUpdated, e), st)"
  shows "sys_inv d (s\<lparr>state_of := st, pending := None, history := history s @ [Current (active st)]\<rparr>)"
  using assms
  by (auto simp: sys_inv_def pending_ok_def source_wf_def intro: phase_ok_append answer_ok_append)

lemma inv_unchanged:
  assumes "sys_inv d s" "pending s = Some ((OutcomeUnchanged, e), st)"
  shows "sys_inv d (s\<lparr>state_of := st, pending := None\<rparr>)"
  using assms by (auto simp: sys_inv_def pending_ok_def)

lemma Refresh_unchanged_keeps:
  "Refresh mmdb_open env st = Some ((OutcomeUnchanged, err), st') \<Longrightarrow> active st' = active st"
  by (erule Refresh_cases) simp_all

lemma inv_refresh:
  assumes "sys_inv d s" "pending s = None" "Refresh mmdb_open env (state_of s) = Some (res, st)"
  shows "sys_inv d (s\<lparr>pending := Some (res, st)\<rparr>)"
proof -
  obtain outc err where res: "res = (outc, err)" by (cases res)
  have "last (history s) \<in> set (history s)"
    using assms(1) unfolding sys_inv_def by (intro last_in_set) simp
  then have "source_wf (active (state_of s))" using assms(1) by (auto simp: sys_inv_def source_wf_def)
  then have "source_wf (active st)" using Refresh_wf[of mmdb_open env "state_of s" outc err st] assms(3) res by simp
  moreover have "outc = OutcomeUnchanged \<Longrightarrow> active st = active (state_of s)"
    using Refresh_unchanged_keeps assms(3) res by blast
  ultimately show ?thesis using assms(1) res by (simp add: sys_inv_def pending_ok_def)
qed

section \<open>Preservation\<close>

lemma answer_elsewhere: "mux_route r \<notin> {Check, Healthz} \<or> http_method r \<noteq> ''GET'' \<Longrightarrow> answer_ok sv fo H (r, k, k', resp)"
  by (auto simp: answer_ok_def is_check_def is_probe_def)

lemma answer_check:
  "is_check r \<Longrightarrow> read_in H k k' c \<Longrightarrow> resp = check_response sv fo c r \<Longrightarrow> answer_ok sv fo H (r, k, k', resp)"
  by (auto simp: answer_ok_def is_check_def is_probe_def)

lemma answer_probe:
  "is_probe r \<Longrightarrow> read_in H k k' c \<Longrightarrow> code resp = (if usable (seen c) then 200 else 503) \<Longrightarrow>
     answer_ok sv fo H (r, k, k', resp)"
  by (auto simp: answer_ok_def is_check_def is_probe_def)

lemma sys_inv_phase:
  "sys_inv d s \<Longrightarrow> phases s i = p \<Longrightarrow> phase_ok (r_mode (d_tracker d) = StartupFailOpen) (history s) p"
  by (auto simp: sys_inv_def)

lemma sys_inv_quiet: "sys_inv d s \<Longrightarrow> quiet (phases s i) \<Longrightarrow> returned s i"
  by (simp add: sys_inv_def)

lemma sys_inv_history: "sys_inv d s \<Longrightarrow> k \<le> length (history s) \<Longrightarrow> read_in (history s) k (length (history s)) (last (history s))"
  unfolding sys_inv_def by (intro read_in_last) simp_all

lemma sys_inv_server: "sys_inv d s \<Longrightarrow> sys_server s = d_server d"
  by (simp add: sys_inv_def)

lemma sys_step_inv: "sys_step mmdb_open ctx s s' \<Longrightarrow> sys_inv d s \<Longrightarrow> sys_inv d s'"
proof (induction rule: sys_step.induct)
  case (arrive s i r)
  then show ?case by (intro inv_moves) (simp_all add: sys_inv_quiet)
next
  case (elsewhere s i r k)
  then show ?case by (intro inv_responds) (simp_all add: sys_inv_quiet answer_elsewhere)
next
  case (redirect s i r k p)
  then show ?case by (intro inv_responds) (simp_all add: sys_inv_quiet answer_elsewhere)
next
  case (asterisk s i r k)
  then show ?case by (intro inv_responds) (simp_all add: sys_inv_quiet answer_elsewhere)
next
  case (refuse s i r k)
  then show ?case by (intro inv_responds) (simp_all add: sys_inv_quiet answer_elsewhere)
next
  case (check_load s i r k)
  then show ?case using sys_inv_phase[OF check_load(4,1)]
    by (intro inv_loads) (simp_all add: is_check_def sys_inv_history)
next
  case (probe_load s i r k)
  then show ?case using sys_inv_phase[OF probe_load(4,1)]
    by (intro inv_loads) (simp_all add: is_probe_def sys_inv_history)
next
  case (tick s i)
  then show ?case by (intro inv_loads) simp_all
next
  case (track s i t)
  then show ?case using inv_tracker sys_inv_quiet by blast
next
  case (deny s i r k c)
  note p = sys_inv_phase[OF deny(5,1)]
  have "pred_option trie_wf c" using sys_inv_read_wf[OF deny(5)] p by auto
  then show ?case using deny p sys_inv_mode[OF deny(5)]
    by (intro inv_responds answer_check[of _ _ _ _ c])
      (simp_all add: check_response_unusable sys_inv_server)
next
  case (allow s i r k c t)
  note p = sys_inv_phase[OF allow(7,1)]
  have "sys_inv d (moves i (Allowing r k c) s)"
    using allow p sys_inv_mode[OF allow(7)] by (intro inv_moves) simp_all
  from inv_tracker[OF this, of i t] allow(5) show ?case by simp
next
  case (allowed s i r k c)
  note p = sys_inv_phase[OF allowed(3,1)]
  have "pred_option trie_wf c" using sys_inv_read_wf[OF allowed(3)] p by auto
  then show ?case using allowed p
    by (intro inv_responds answer_check[of _ _ _ _ c]) (simp_all add: check_response_unusable)
next
  case (decide s i r k c resp ls)
  note p = sys_inv_phase[OF decide(5,1)]
  have "pred_option trie_wf c" using sys_inv_read_wf[OF decide(5)] p by auto
  from check_verdict_usable[OF this decide(3), of "sys_server s" r "r_mode (d_tracker d) = StartupFailOpen"] decide(4,5)
  have "resp = check_response (d_server d) (r_mode (d_tracker d) = StartupFailOpen) c r"
    by (auto simp: sys_inv_server)
  then have "sys_inv d (responds i r k resp s)" using decide p
    by (intro inv_responds answer_check[of _ _ _ _ c]) simp_all
  then show ?case by (rule inv_lines)
next
  case (probe_usable s i r k c)
  note p = sys_inv_phase[OF probe_usable(4,1)]
  then show ?case using probe_usable
    by (intro inv_responds answer_probe[of _ _ _ _ c]) (simp_all add: probe_ok_def)
next
  case (probe_since s i r k c now)
  note p = sys_inv_phase[OF probe_since(4,1)]
  then show ?case using probe_since by (intro inv_moves) simp_all
next
  case (probe_unusable s i r k c n)
  note p = sys_inv_phase[OF probe_unusable(2,1)]
  then show ?case using probe_unusable
    by (intro inv_responds answer_probe[of _ _ _ _ c]) (simp_all add: probe_empty_def sys_inv_quiet)
next
  case (beat_quiet s i c)
  then show ?case by (intro inv_moves) simp_all
next
  case (beat_report s i c t e)
  then have "sys_inv d (moves i Reporting s)" by (intro inv_moves) simp_all
  from inv_tracker[OF this, of i t] beat_report(4) show ?case by simp
next
  case (beat_done s i)
  then show ?case by (intro inv_moves) simp_all
next
  case (refresh s env res st)
  then show ?case by (intro inv_refresh)
next
  case (swap s e st)
  then show ?case by (intro inv_published)
next
  case (give_up s e st)
  then show ?case by (intro inv_unchanged)
qed

section \<open>The start\<close>

lemma start_daemon_tracker:
  assumes "start_daemon mmdb_open envs env args F = Some (Inr d)"
  shows "d_tracker d = newReadiness (r_mode (d_tracker d))"
  using assms
  by (auto simp: start_daemon_def server_New_def newReadiness_def Let_def
      split: sum.splits option.splits prod.splits if_splits)

lemma start_reachable_tracker:
  assumes "observe now l (newReadiness mode) = (u, ls, t)"
  shows "reachable_tracker mode \<lparr>shared = t, holder = None, places = (\<lambda>_. Idle), out = ls\<rparr>"
proof -
  let ?s = "at 0 (Entered l) (start_tracker mode)"
  have "reachable_tracker mode ?s"
    by (rule reachable_tracker.go[OF reachable_tracker.start enter]) (simp add: start_tracker_def)
  moreover have "(busy_step 0)\<^sup>*\<^sup>* ?s (at 0 Idle (?s\<lparr>shared := t, out := out ?s @ ls\<rparr>))"
    by (rule observe_steps) (use assms in \<open>simp_all add: start_tracker_def\<close>)
  ultimately have "reachable_tracker mode (at 0 Idle (?s\<lparr>shared := t, out := out ?s @ ls\<rparr>))"
    using reachable_steps busy_steps by blast
  moreover have "at 0 Idle (?s\<lparr>shared := t, out := out ?s @ ls\<rparr>)
      = \<lparr>shared = t, holder = None, places = (\<lambda>_. Idle), out = ls\<rparr>"
    by (simp add: at_def start_tracker_def fun_upd_idem)
  ultimately show ?thesis by simp
qed

lemma start_inv:
  assumes "daemon_wf d" "d_tracker d = newReadiness (r_mode (d_tracker d))"
  shows "sys_inv d (start_system now d)"
proof -
  obtain u ls t where o: "observe now (newLookupSource (active (d_state d))) (d_tracker d) = (u, ls, t)"
    by (metis prod_cases3)
  have "reachable_tracker (r_mode (d_tracker d)) \<lparr>shared = t, holder = None, places = (\<lambda>_. Idle), out = ls\<rparr>"
    using start_reachable_tracker[of now _ "r_mode (d_tracker d)" u ls t] o assms(2) by simp
  then show ?thesis
    using assms(1) by (simp add: start_system_def o sys_inv_def pending_ok_def returned_def daemon_wf_def source_wf_def)
qed

lemma refreshes_wf: "(one_refresh mmdb_open)\<^sup>*\<^sup>* st st' \<Longrightarrow> source_wf (active st) \<Longrightarrow> source_wf (active st')"
  by (induction rule: rtranclp_induct) (auto simp: one_refresh_def dest: Refresh_wf)

lemma sys_inv_state [simp]: "sys_inv (d\<lparr>d_state := st\<rparr>) = sys_inv d"
  by (simp add: sys_inv_def fun_eq_iff)

lemma reachable_start: "reachable_system mmdb_open ctx d (start_system now d)"
  using reachable_system.start[of mmdb_open d "d_state d"] by simp

lemma reachable_sys_inv:
  assumes "start_daemon mmdb_open envs env args F = Some (Inr d)" "reachable_system mmdb_open ctx d s"
  shows "sys_inv d s"
  using assms(2)
proof (induction rule: reachable_system.induct)
  case (start st now)
  let ?d = "d\<lparr>d_state := st\<rparr>"
  have "daemon_wf ?d" using start_wf[OF assms(1)] refreshes_wf[OF start] by (simp add: daemon_wf_def)
  then have "sys_inv ?d (start_system now ?d)"
    by (rule start_inv) (simp add: start_daemon_tracker[OF assms(1), symmetric])
  then show ?case by simp
next
  case (go s s')
  then show ?case using sys_step_inv by blast
qed

lemma reachable_sys_steps:
  "(sys_step mmdb_open ctx)\<^sup>*\<^sup>* s s' \<Longrightarrow> reachable_system mmdb_open ctx d s \<Longrightarrow> reachable_system mmdb_open ctx d s'"
  by (induction rule: rtranclp_induct) (auto intro: reachable_system.go)

section \<open>One request alone\<close>

lemma track_steps:
  assumes "(busy_step i)\<^sup>*\<^sup>* (tracker_of s) t" "phases s i \<noteq> Free"
  shows "(sys_step mmdb_open ctx)\<^sup>*\<^sup>* s (s\<lparr>tracker_of := t\<rparr>)"
  using assms(1)
proof (induction rule: rtranclp_induct)
  case (step t t')
  have "sys_step mmdb_open ctx (s\<lparr>tracker_of := t\<rparr>) ((s\<lparr>tracker_of := t\<rparr>)\<lparr>tracker_of := t'\<rparr>)"
    by (rule track[of _ i]) (use step(2) assms(2) in \<open>simp_all add: busy_step_def returned_def\<close>)
  with step(3) show ?case by (auto intro: rtranclp.rtrancl_into_rtrancl)
qed simp

text \<open>From the load of the pointer to the answer, when nobody else takes a step.\<close>

lemma check_finishes:
  assumes inv: "sys_inv d s" and ph: "phases s i = Checking r k c"
    and pl: "places (tracker_of s) i = Entered (seen c)" "holder (tracker_of s) = None"
    and o: "observe now (seen c) (shared (tracker_of s)) = (u, ls, t1)"
    and v: "u \<Longrightarrow> check_verdict (sys_server s) (seen c) r = Some (resp, ms)"
    and nv: "\<not> u \<Longrightarrow> resp = write_header (if failOpen t1 then 200 else blockStatus (sys_server s)) \<and> ms = []"
  shows "(sys_step mmdb_open ctx)\<^sup>*\<^sup>* s
    ((responds i r k resp s)
      \<lparr>tracker_of := at i Idle ((tracker_of s)\<lparr>shared := if \<not> u \<and> failOpen t1 then countFailOpenAllow t1 else t1,
         out := out (tracker_of s) @ ls\<rparr>),
       lines := lines s @ emitted (FromContext (withRequestLogger (sys_server s) ctx)) ms\<rparr>)"
proof -
  let ?t = "at i Idle ((tracker_of s)\<lparr>shared := t1, out := out (tracker_of s) @ ls\<rparr>)"
  let ?s = "s\<lparr>tracker_of := ?t\<rparr>"
  have run: "(sys_step mmdb_open ctx)\<^sup>*\<^sup>* s ?s"
    by (rule track_steps[OF observe_steps[OF pl o]]) (simp add: ph)
  have u: "u = usable (seen c)" using observe_returns[of now "seen c" "shared (tracker_of s)"] o by simp
  have ph': "phases ?s i = Checking r k c" and rt: "returned ?s i" by (simp_all add: ph returned_def)
  note then_step = rtranclp.rtrancl_into_rtrancl[of "sys_step mmdb_open ctx"]
  have id: "emitted l [] = []" for l by (simp add: emitted_def)
  let ?goal = "(responds i r k resp s)
      \<lparr>tracker_of := at i Idle ((tracker_of s)\<lparr>shared := if \<not> u \<and> failOpen t1 then countFailOpenAllow t1 else t1,
         out := out (tracker_of s) @ ls\<rparr>),
       lines := lines s @ emitted (FromContext (withRequestLogger (sys_server s) ctx)) ms\<rparr>"
  have same: "x = ?goal \<Longrightarrow> (sys_step mmdb_open ctx)\<^sup>*\<^sup>* s x \<Longrightarrow> (sys_step mmdb_open ctx)\<^sup>*\<^sup>* s ?goal" for x
    by simp
  show ?thesis
  proof (cases u)
    case True
    have "sys_step mmdb_open ctx ?s ((responds i r k resp ?s)
        \<lparr>lines := lines ?s @ emitted (FromContext (withRequestLogger (sys_server ?s) ctx)) ms\<rparr>)"
      by (rule decide[OF ph' rt]) (use True u v in simp_all)
    from then_step[OF run this] show ?thesis
      by (rule same[rotated]) (rule system.equality, simp_all add: True responds_def moves_def)
  next
    case False
    show ?thesis
    proof (cases "failOpen t1")
      case fo: False
      have "sys_step mmdb_open ctx ?s (responds i r k (write_header (blockStatus (sys_server ?s))) ?s)"
        by (rule deny[OF ph' rt]) (use False fo u in simp_all)
      from then_step[OF run this] show ?thesis
        by (rule same[rotated]) (rule system.equality, use nv[OF False] False fo in \<open>simp_all add: responds_def moves_def id\<close>)
    next
      case fo: True
      let ?t1 = "at i Counting (?t\<lparr>shared := (shared ?t)\<lparr>failOpenTotal := failOpenTotal (shared ?t) + 1\<rparr>\<rparr>)"
      let ?t2 = "at i Idle (?t1\<lparr>shared := (shared ?t1)\<lparr>failOpenSinceHeartbeat := failOpenSinceHeartbeat (shared ?t1) + 1\<rparr>\<rparr>)"
      let ?s1 = "(moves i (Allowing r k c) ?s)\<lparr>tracker_of := ?t1\<rparr>"
      let ?s2 = "?s1\<lparr>tracker_of := ?t2\<rparr>"
      have c: "observe_step i (tracker_of ?s) ?t1" using count[of ?t i] by simp
      have 1: "sys_step mmdb_open ctx ?s ?s1"
        by (rule allow[OF ph' rt _ _ c]) (use False fo u in simp_all)
      have cs: "observe_step i (tracker_of ?s1) ?t2" using count_since[of ?t1 i] by simp
      have 2: "sys_step mmdb_open ctx ?s1 ?s2"
        by (rule track[OF _ _ cs]) (simp_all add: returned_def)
      have 3: "sys_step mmdb_open ctx ?s2 (responds i r k (write_header 200) ?s2)"
        by (rule allowed[of _ _ _ _ c]) (simp_all add: returned_def)
      from then_step[OF then_step[OF then_step[OF run 1] 2] 3] show ?thesis
        by (rule same[rotated])
          (rule system.equality, use nv[OF False] False fo in \<open>simp_all add: responds_def moves_def id at_def countFailOpenAllow_def\<close>)
    qed
  qed
qed

text \<open>The same from the arrival on: one run that has the handler's result.\<close>

lemma check_steps:
  assumes "start_daemon mmdb_open envs env args F = Some (Inr d)" "reachable_system mmdb_open ctx d s"
    and "phases s i = Arrived r k" "mux_route r = Check" "http_method r = ''GET''"
    and "holder (tracker_of s) = None"
    and "handleCheck (sys_server s) (withRequestLogger (sys_server s) ctx) now
           (newLookupSource (active (state_of s))) r (shared (tracker_of s)) = Some (resp, ls, t)"
  shows "\<exists>s' sig ms. (sys_step mmdb_open ctx)\<^sup>*\<^sup>* s s'
    \<and> answers s' = answers s @ [(r, k, length (history s), resp)] \<and> shared (tracker_of s') = t
    \<and> out (tracker_of s') = out (tracker_of s) @ sig \<and> lines s' = lines s @ ms
    \<and> emitted (logger_of (sys_server s)) sig @ ms = ls"
proof -
  have inv: "sys_inv d s" by (rule reachable_sys_inv[OF assms(1,2)])
  define c where "c = Current (active (state_of s))"
  have l: "newLookupSource (active (state_of s)) = seen c" by (simp add: newLookupSource_seen c_def)
  let ?s = "loads i (Checking r k) s"
  have step: "sys_step mmdb_open ctx s ?s" by (rule check_load[OF assms(3-5)])
  have inv': "sys_inv d ?s" by (rule sys_step_inv[OF step inv])
  have f: "phases ?s i = Checking r k c" "places (tracker_of ?s) i = Entered (seen c)"
      "holder (tracker_of ?s) = None" "shared (tracker_of ?s) = shared (tracker_of s)"
      "out (tracker_of ?s) = out (tracker_of s)" "sys_server ?s = sys_server s" "lines ?s = lines s"
      "history ?s = history s" "answers ?s = answers s"
    using assms(6) by (simp_all add: loads_def moves_def c_def[symmetric] l)
  obtain u sig t1 where o: "observe now (seen c) (shared (tracker_of s)) = (u, sig, t1)" by (metis prod_cases3)
  let ?ctx = "withRequestLogger (sys_server s) ctx"
  let ?new = "if \<not> u \<and> failOpen t1 then countFailOpenAllow t1 else t1"
  have h: "(if \<not> u then Some (if failOpen t1 then (write_header 200, emitted (logger_of (sys_server s)) sig, countFailOpenAllow t1)
             else (write_header (blockStatus (sys_server s)), emitted (logger_of (sys_server s)) sig, t1))
     else map_option (\<lambda>(resp, ms). (resp, emitted (logger_of (sys_server s)) sig @ emitted (FromContext ?ctx) ms, t1))
            (check_verdict (sys_server s) (seen c) r)) = Some (resp, ls, t)"
    using handleCheck_verdict[OF assms(5) o, of "sys_server s" ?ctx] assms(7) by (simp add: l)
  obtain ms where ms: "u \<Longrightarrow> check_verdict (sys_server s) (seen c) r = Some (resp, ms)"
      "\<not> u \<Longrightarrow> resp = write_header (if failOpen t1 then 200 else blockStatus (sys_server s)) \<and> ms = []"
      "t = ?new" "ls = emitted (logger_of (sys_server s)) sig @ emitted (FromContext ?ctx) ms"
  proof (cases u)
    case True
    then obtain m where "check_verdict (sys_server s) (seen c) r = Some (resp, m)"
        "ls = emitted (logger_of (sys_server s)) sig @ emitted (FromContext ?ctx) m" "t = t1"
      using h by auto
    then show thesis using True that by simp
  next
    case False
    then show thesis using h that[of "[]"] by (simp add: emitted_def split: if_splits)
  qed
  from check_finishes[OF inv' f(1-3), of now u sig t1 resp ms mmdb_open ctx] o ms(1,2) f
  have "(sys_step mmdb_open ctx)\<^sup>*\<^sup>* ?s
    ((responds i r k resp ?s)\<lparr>tracker_of := at i Idle ((tracker_of ?s)\<lparr>shared := ?new, out := out (tracker_of s) @ sig\<rparr>),
       lines := lines s @ emitted (FromContext ?ctx) ms\<rparr>)" (is "_\<^sup>*\<^sup>* _ ?f")
    by simp
  with step have "(sys_step mmdb_open ctx)\<^sup>*\<^sup>* s ?f" by (rule converse_rtranclp_into_rtranclp)
  then show ?thesis
    using ms(3,4) f by (intro exI[of _ ?f] exI[of _ sig] exI[of _ "emitted (FromContext ?ctx) ms"]) (simp add: responds_def)
qed

section \<open>What is served\<close>

lemma answers_decided:
  assumes "start_daemon mmdb_open envs env args F = Some (Inr d)" "reachable_system mmdb_open ctx d s"
    and "(r, k, k', resp) \<in> set (answers s)" "http_method r = ''GET''" "url_path r \<in> {''/check'', ''/healthz''}"
  shows "\<exists>j. k \<le> Suc j \<and> j < k' \<and> k' \<le> length (history s) \<and>
    (if url_path r = ''/check''
     then resp = write_header (if allowed (r_mode (d_tracker d) = StartupFailOpen)
            (map_option blocked (history s ! j)) (extractClientIP (headers r)) then 200 else blockStatus (d_server d))
     else code resp = (if \<exists>t. history s ! j = Some t \<and> blocked t \<noteq> {} then 200 else 503))"
proof -
  have inv: "sys_inv d s" by (rule reachable_sys_inv[OF assms(1,2)])
  then have ok: "answer_ok (d_server d) (r_mode (d_tracker d) = StartupFailOpen) (history s) (r, k, k', resp)"
    using assms(3) by (auto simp: sys_inv_def)
  have "is_check r \<or> is_probe r" "url_path r = ''/check'' \<longleftrightarrow> is_check r"
    using assms(4,5) by (auto simp: is_check_def is_probe_def mux_route_check mux_route_healthz)
  then show ?thesis
  proof (cases "is_check r")
    case True
    with ok show ?thesis using \<open>url_path r = ''/check'' \<longleftrightarrow> is_check r\<close>
      by (auto simp: answer_ok_def read_in_def check_response_def)
  next
    case False
    then have "is_probe r" using \<open>is_check r \<or> is_probe r\<close> by blast
    with ok obtain c where c: "read_in (history s) k k' c" "code resp = (if usable (seen c) then 200 else 503)"
      by (auto simp: answer_ok_def)
    then obtain j where j: "k \<le> Suc j" "j < k'" "k' \<le> length (history s)" "history s ! j = c"
      by (auto simp: read_in_def)
    moreover have "pred_option trie_wf c" by (rule sys_inv_read_wf[OF inv c(1)])
    ultimately show ?thesis using c(2) False \<open>url_path r = ''/check'' \<longleftrightarrow> is_check r\<close>
      by (auto simp: usable_seen)
  qed
qed

text \<open>
  C2 (safety). However requests, probes, heartbeats and refreshes interleave, every answer to a check
  is the decision table on one blocklist that was active between the arrival and the answer, never
  a mixture of two, and every 200 or 503 of the probe tells the readiness of one such blocklist.
\<close>

theorem answers_from_one_blocklist:
  assumes "start_daemon mmdb_open envs env args F = Some (Inr d)" "reachable_system mmdb_open ctx d s"
    and "(r, k, k', resp) \<in> set (answers s)" "http_method r = ''GET''" "url_path r \<in> {''/check'', ''/healthz''}"
  shows "\<exists>j. k \<le> Suc j \<and> j < k' \<and> k' \<le> length (history s) \<and>
    (if url_path r = ''/check''
     then resp = write_header (if allowed (r_mode (d_tracker d) = StartupFailOpen)
            (map_option blocked (history s ! j)) (extractClientIP (headers r)) then 200 else blockStatus (d_server d))
     else code resp = (if \<exists>t. history s ! j = Some t \<and> blocked t \<noteq> {} then 200 else 503))"
  using assms by (rule answers_decided)

section \<open>What was ever active\<close>

text \<open>A value of the pointer that is nil, or the loader's complete result on one file.\<close>

definition loaded :: "mmdb_open \<Rightarrow> fetcher \<Rightarrow> trie option \<Rightarrow> bool" where
  "loaded mmdb_open f c \<longleftrightarrow>
     (\<forall>t. c = Some t \<longrightarrow> (\<exists>file. LoadCountryBlocklist mmdb_open (cachePath f) file (fetcher.countries f) = Some (Inr t)))"

definition same_config :: "fetcher \<Rightarrow> fetcher \<Rightarrow> bool" where
  "same_config f g \<longleftrightarrow> cachePath g = cachePath f \<and> fetcher.countries g = fetcher.countries f"

lemma loaded_same: "same_config f g \<Longrightarrow> loaded mmdb_open g c \<Longrightarrow> loaded mmdb_open f c"
  by (simp add: loaded_def same_config_def)

lemma Refresh_loaded:
  assumes "Refresh mmdb_open env st = Some (res, st')"
  shows "same_config (fetcher_of st) (fetcher_of st')
    \<and> (fst res = OutcomeUpdated \<longrightarrow> loaded mmdb_open (fetcher_of st) (Current (active st')))"
proof -
  obtain out err where "res = (out, err)" by (cases res)
  with assms have "Refresh mmdb_open env st = Some ((out, err), st')" by simp
  then show ?thesis
    by (cases rule: Refresh_cases) (auto simp: \<open>res = (out, err)\<close> same_config_def loaded_def Swap_def Current_def)
qed

lemma Refresh_keeps_loaded:
  assumes "one_refresh mmdb_open st st'" "same_config f (fetcher_of st)" "loaded mmdb_open f (Current (active st))"
  shows "same_config f (fetcher_of st') \<and> loaded mmdb_open f (Current (active st'))"
proof -
  obtain env out err where r: "Refresh mmdb_open env st = Some ((out, err), st')"
    using assms(1) by (auto simp: one_refresh_def)
  show ?thesis
    using Refresh_loaded[OF r] Refresh_unchanged_keeps[of mmdb_open env st err st'] r assms(2,3)
    by (cases out) (auto simp: same_config_def loaded_def)
qed

lemma refreshes_loaded:
  "(one_refresh mmdb_open)\<^sup>*\<^sup>* st st' \<Longrightarrow> loaded mmdb_open (fetcher_of st) (Current (active st)) \<Longrightarrow>
     same_config (fetcher_of st) (fetcher_of st') \<and> loaded mmdb_open (fetcher_of st) (Current (active st'))"
proof (induction rule: rtranclp_induct)
  case (step y z)
  then show ?case using Refresh_keeps_loaded by blast
qed (simp add: same_config_def)

definition history_inv :: "mmdb_open \<Rightarrow> fetcher \<Rightarrow> system \<Rightarrow> bool" where
  "history_inv mmdb_open f s \<longleftrightarrow> same_config f (fetcher_of (state_of s))
     \<and> (\<forall>c \<in> set (history s). loaded mmdb_open f c)
     \<and> (\<forall>out err st. pending s = Some ((out, err), st) \<longrightarrow> same_config f (fetcher_of st)
          \<and> (out = OutcomeUpdated \<longrightarrow> loaded mmdb_open f (Current (active st))))"

lemma history_inv_simps [simp]:
  "history_inv mmdb_open f (moves i p s) = history_inv mmdb_open f s"
  "history_inv mmdb_open f (responds i r k resp s) = history_inv mmdb_open f s"
  "history_inv mmdb_open f (loads i q s) = history_inv mmdb_open f s"
  "history_inv mmdb_open f (s\<lparr>tracker_of := tr\<rparr>) = history_inv mmdb_open f s"
  "history_inv mmdb_open f (s\<lparr>lines := ls\<rparr>) = history_inv mmdb_open f s"
  by (simp_all add: history_inv_def responds_def loads_def)

lemma history_inv_step: "sys_step mmdb_open ctx s s' \<Longrightarrow> history_inv mmdb_open f s \<Longrightarrow> history_inv mmdb_open f s'"
proof (induction rule: sys_step.induct)
  case (refresh s env res st)
  from Refresh_loaded[OF refresh(2)] refresh(3) show ?case
    by (cases res) (auto simp: history_inv_def same_config_def loaded_def)
next
  case (swap s e st)
  then show ?case by (simp add: history_inv_def)
next
  case (give_up s e st)
  then show ?case by (simp add: history_inv_def)
qed simp_all

lemma loadDiskCache_loaded:
  assumes "loadDiskCache mmdb_open env cfg NewSource F = Some (ls, src, F')" "Current src = Some t"
  shows "\<exists>file. LoadCountryBlocklist mmdb_open (cache_path (cache cfg)) file (BlockConfig.countries (block cfg)) = Some (Inr t)"
  using assms
  by (auto simp: loadDiskCache_def cache_Load_def NewSource_def Swap_def Current_def Let_def
      split: option.splits sum.splits if_splits prod.splits)

lemma start_loaded:
  assumes "start_daemon mmdb_open envs env args F = Some (Inr d)"
  shows "loaded mmdb_open (fetcher_of (d_state d)) (Current (active (d_state d)))"
proof -
  obtain path where path: "flag_parse default_config_path args = Inr path"
    using assms by (auto simp: start_daemon_def split: sum.splits)
  then obtain cfg where cfg: "Load (read_file env) (decode_yaml env) (parse_cron env) path = Inr cfg"
    using assms by (auto simp: start_daemon_def split: sum.splits)
  from start_daemon_config[OF path cfg, of mmdb_open envs F] assms obtain ls where
    "loadDiskCache mmdb_open env cfg NewSource F = Some (ls, active (d_state d), fsys (d_state d))"
    "cachePath (fetcher_of (d_state d)) = cache_path (cache cfg)"
    "fetcher.countries (fetcher_of (d_state d)) = BlockConfig.countries (block cfg)"
    by (auto split: if_splits)
  then show ?thesis using loadDiskCache_loaded by (auto simp: loaded_def)
qed

lemma reachable_history_inv:
  assumes "start_daemon mmdb_open envs env args F = Some (Inr d)" "reachable_system mmdb_open ctx d s"
  shows "history_inv mmdb_open (fetcher_of (d_state d)) s"
  using assms(2)
proof (induction rule: reachable_system.induct)
  case (start st now)
  have "same_config (fetcher_of (d_state d)) (fetcher_of st)
      \<and> loaded mmdb_open (fetcher_of (d_state d)) (Current (active st))"
    using refreshes_loaded[OF start start_loaded[OF assms(1)]] .
  then show ?case by (simp add: start_system_def history_inv_def split: prod.split)
next
  case (go s s')
  then show ?case using history_inv_step by blast
qed

text \<open>
  C9 (invariant). Whatever was active at any moment while it served, from the disk cache or from a
  refresh, is nothing or one complete database: the walk over it came to its end without an error,
  every record decoded, every selected network could be represented, and it blocks exactly the networks which that database lists for the
  countries of the configuration. A partial or mixed blocklist is never active.
\<close>

theorem active_is_one_database:
  assumes "start_daemon mmdb_open envs env args F = Some (Inr d)" "reachable_system mmdb_open ctx d s"
    and "Some t \<in> set (history s)"
  shows "\<exists>file reader. mmdb_open file = Inr reader
    \<and> networks_err reader = None \<and> (\<forall>err. Inl err \<notin> set (networks reader))
    \<and> (\<forall>subnet code. Inr (subnet, code) \<in> set (networks reader)
         \<longrightarrow> code \<in> set (fetcher.countries (fetcher_of (d_state d))) \<longrightarrow> snd (prefixFromIPNet subnet))
    \<and> blocked t = {ip. \<exists>subnet code. Inr (subnet, code) \<in> set (networks reader)
         \<and> code \<in> set (fetcher.countries (fetcher_of (d_state d))) \<and> covers (fst (prefixFromIPNet subnet)) ip}"
proof -
  obtain bs where "LoadCountryBlocklist mmdb_open (cachePath (fetcher_of (d_state d))) bs
      (fetcher.countries (fetcher_of (d_state d))) = Some (Inr t)"
    using reachable_history_inv[OF assms(1,2)] assms(3) by (fastforce simp: history_inv_def loaded_def)
  from load_complete[OF this] show ?thesis by blast
qed

section \<open>Samples\<close>

lemma observe_lost:
  assumes "\<not> usable l" "r_usable t"
  obtains r t' where "observe now l t = (False, [r], t')" "signals [r] = [False]" "\<not> r_usable t'" "r_mode t' = r_mode t"
  using assms by (simp add: observe_def emitUnusable_def Let_def)

lemma observe_found:
  assumes "usable l" "\<not> r_usable t"
  obtains r t' where "observe now l t = (True, [r], t')" "signals [r] = [True]" "r_usable t'" "r_mode t' = r_mode t"
  using assms by (cases "everReady t") (simp_all add: observe_def emitRecovered_def Let_def)

lemma sample_routes: "mux_route sample_request = Check" "http_method sample_request = ''GET''"
  by (simp_all add: mux_route_check sample_request_def)

text \<open>The sample daemon right after its start: cold, and its state signalled.\<close>

lemma sample_system:
  obtains d r t where "start_daemon sample_mmdb (\<lambda>_. answering 200) sample_start [] Map.empty = Some (Inr d)"
    "r_mode (d_tracker d) = StartupFailClosed" "fsys (d_state d) = Map.empty" "blockStatus (d_server d) = 403"
    "cachePath (fetcher_of (d_state d)) = sample_cache_path" "fetcher.countries (fetcher_of (d_state d)) = [''CN'']"
    "start_system 1 d = \<lparr>sys_server = d_server d,
       tracker_of = \<lparr>shared = t, holder = None, places = (\<lambda>_. Idle), out = [r]\<rparr>,
       state_of = d_state d, pending = None, history = [None], phases = (\<lambda>_. Free), answers = [], lines = []\<rparr>"
    "Current (active (d_state d)) = None" "signals [r] = [False]" "\<not> r_usable t" "r_mode t = StartupFailClosed"
proof -
  obtain d where d: "start_daemon sample_mmdb (\<lambda>_. answering 200) sample_start [] Map.empty = Some (Inr d)"
      "Current (active (d_state d)) = None" "r_mode (d_tracker d) = StartupFailClosed" "fsys (d_state d) = Map.empty"
      "cachePath (fetcher_of (d_state d)) = sample_cache_path" "fetcher.countries (fetcher_of (d_state d)) = [''CN'']"
      "blockStatus (d_server d) = 403"
    using sample_started unfolding sample_cache_path_eq by metis
  have "r_usable (d_tracker d)" using start_daemon_tracker[OF d(1)] by (metis newReadiness_def readiness.select_convs(1))
  then obtain r t where o: "observe 1 None (d_tracker d) = (False, [r], t)" "signals [r] = [False]" "\<not> r_usable t"
      "r_mode t = r_mode (d_tracker d)"
    using observe_lost[of None "d_tracker d" 1] by (auto simp: usable_def)
  have "newLookupSource (active (d_state d)) = None" by (simp add: newLookupSource_def d(2))
  then show thesis using that[OF d(1,3,4,7,5,6) _ d(2) o(2,3)] o d by (simp add: start_system_def)
qed

lemma sample_arrives:
  assumes "reachable_system mmdb_open ctx d s" "phases s i = Free"
  shows "reachable_system mmdb_open ctx d (moves i (Arrived r (length (history s))) s)"
  using reachable_system.go[OF assms(1) arrive[OF assms(2)]] .

theorem answers_from_one_blocklist_witness:
  "\<exists>d s resp. start_daemon sample_mmdb (\<lambda>_. answering 200) sample_start [] Map.empty = Some (Inr d)
     \<and> reachable_system sample_mmdb Background d s \<and> answers s = [(sample_request, 1, 1, resp)] \<and> resp = write_header 403"
proof -
  obtain d r t where d: "start_daemon sample_mmdb (\<lambda>_. answering 200) sample_start [] Map.empty = Some (Inr d)"
      "r_mode (d_tracker d) = StartupFailClosed" "fsys (d_state d) = Map.empty" "blockStatus (d_server d) = 403"
      "start_system 1 d = \<lparr>sys_server = d_server d,
         tracker_of = \<lparr>shared = t, holder = None, places = (\<lambda>_. Idle), out = [r]\<rparr>,
         state_of = d_state d, pending = None, history = [None], phases = (\<lambda>_. Free), answers = [], lines = []\<rparr>"
      "Current (active (d_state d)) = None"
    by (rule sample_system)
  let ?s = "moves 0 (Arrived sample_request (length (history (start_system 1 d)))) (start_system 1 d)"
  have s: "reachable_system sample_mmdb Background d ?s"
    by (rule sample_arrives[OF reachable_start]) (simp add: d(5))
  obtain resp ls t' where h: "handleCheck (sys_server ?s) (withRequestLogger (sys_server ?s) Background) 2
      (newLookupSource (active (state_of ?s))) sample_request (shared (tracker_of ?s)) = Some (resp, ls, t')"
    using active_trie.check_decision[of None sample_request "d_server d"
        "withRequestLogger (d_server d) Background" 2 t] sample_routes(2)
    by (force simp: d(5,6) newLookupSource_def)
  obtain s' where s': "(sys_step sample_mmdb Background)\<^sup>*\<^sup>* ?s s'" "answers s' = answers ?s @ [(sample_request, 1, length (history ?s), resp)]"
    using check_steps[OF d(1) s _ sample_routes _ h, of 0 1] by (auto simp: d(5))
  have r: "reachable_system sample_mmdb Background d s'" by (rule reachable_sys_steps[OF s'(1) s])
  have a: "answers s' = [(sample_request, 1, 1, resp)]" using s'(2) by (simp add: d(5))
  then have "(sample_request, 1, 1, resp) \<in> set (answers s')" by simp
  from answers_from_one_blocklist[OF d(1) r this sample_routes(2)] obtain j where
    j: "j < 1" "resp = write_header (if allowed (r_mode (d_tracker d) = StartupFailOpen)
            (map_option blocked (history s' ! j)) (extractClientIP (headers sample_request)) then 200 else blockStatus (d_server d))"
    by (auto simp: sample_request_def)
  have "history s' ! 0 = None"
  proof -
    have "history s'' ! 0 = history s ! 0 \<and> history s'' \<noteq> []"
      if "(sys_step sample_mmdb Background)\<^sup>*\<^sup>* s s''" "history s \<noteq> []" for s s''
      using that
    proof (induction rule: rtranclp_induct)
      case (step y z)
      from step(2) have "history z = history y \<or> (\<exists>x. history z = history y @ [x])"
        by (cases rule: sys_step.cases) (auto simp: responds_def loads_def)
      then show ?case using step by (auto simp: nth_append)
    qed simp
    from this[OF s'(1)] show ?thesis by (simp add: d(5))
  qed
  then have "resp = write_header 403"
    using j by (simp add: allowed_def d(2,4) StartupFailClosed_def StartupFailOpen_def)
  with d(1) r a show ?thesis by blast
qed

text \<open>The sample daemon after its first refresh.\<close>

lemma sample_published:
  obtains d t s where "start_daemon sample_mmdb (\<lambda>_. answering 200) sample_start [] Map.empty = Some (Inr d)"
    "reachable_system sample_mmdb Background d s" "history s = [None, Some t]"
    "fetcher.countries (fetcher_of (d_state d)) = [''CN'']"
proof -
  obtain d r t0 where d: "start_daemon sample_mmdb (\<lambda>_. answering 200) sample_start [] Map.empty = Some (Inr d)"
      "fsys (d_state d) = Map.empty"
      "cachePath (fetcher_of (d_state d)) = sample_cache_path" "fetcher.countries (fetcher_of (d_state d)) = [''CN'']"
      "start_system 1 d = \<lparr>sys_server = d_server d,
         tracker_of = \<lparr>shared = t0, holder = None, places = (\<lambda>_. Idle), out = [r]\<rparr>,
         state_of = d_state d, pending = None, history = [None], phases = (\<lambda>_. Free), answers = [], lines = []\<rparr>"
    by (rule sample_system)
  obtain t st where st: "Refresh sample_mmdb (answering 200) (d_state d) = Some ((OutcomeUpdated, None), st)"
      "Current (active st) = Some t"
    using sample_first_refresh[OF d(3,4,2)] by blast
  let ?s1 = "(start_system 1 d)\<lparr>pending := Some ((OutcomeUpdated, None), st)\<rparr>"
  have 1: "reachable_system sample_mmdb Background d ?s1"
    by (rule reachable_system.go[OF reachable_start refresh[of _ _ "answering 200"]]) (simp_all add: d(5) st(1))
  have "reachable_system sample_mmdb Background d
      (?s1\<lparr>state_of := st, pending := None, history := history ?s1 @ [Current (active st)]\<rparr>)"
    by (rule reachable_system.go[OF 1 swap]) simp
  from that[OF d(1) this _ d(4), of t] show thesis by (simp add: d(5) st(2))
qed

theorem active_is_one_database_witness:
  "\<exists>d t s. reachable_system sample_mmdb Background d s \<and> history s = [None, Some t]
     \<and> blocked t = {ip. covers (prefix_from (Addr4 0x0A000000) 8) ip}"
proof -
  obtain d t s where d: "start_daemon sample_mmdb (\<lambda>_. answering 200) sample_start [] Map.empty = Some (Inr d)"
    "reachable_system sample_mmdb Background d s" "history s = [None, Some t]"
    "fetcher.countries (fetcher_of (d_state d)) = [''CN'']"
    by (rule sample_published)
  from active_is_one_database[OF d(1,2), of t] d(2-4) show ?thesis
    by (intro exI[of _ d] exI[of _ t] exI[of _ s]) (auto simp: sample_prefix)
qed

section \<open>A stale observer\<close>

text \<open>
  C21 (error). A goroutine that read the pointer before a blocklist was published can report its loss
  after another one has reported the recovery: the test under the mutex compares the flag with the
  old lookup. The log then ends in the signal that the blocklist is unusable, and the flag says the
  same, while a usable blocklist is active and no goroutine is at work.
\<close>

theorem stale_observer_false_alarm:
  "\<exists>d s t. start_daemon sample_mmdb (\<lambda>_. answering 200) sample_start [] Map.empty = Some (Inr d)
    \<and> reachable_system sample_mmdb Background d s
    \<and> Current (active (state_of s)) = Some t \<and> blocked t \<noteq> {} \<and> (\<forall>i. phases s i = Free)
    \<and> signals (out (tracker_of s)) = [False, True, False] \<and> \<not> r_usable (shared (tracker_of s))"
proof -
  obtain d r0 t0 where d: "start_daemon sample_mmdb (\<lambda>_. answering 200) sample_start [] Map.empty = Some (Inr d)"
      "fsys (d_state d) = Map.empty"
      "cachePath (fetcher_of (d_state d)) = sample_cache_path" "fetcher.countries (fetcher_of (d_state d)) = [''CN'']"
      "start_system 1 d = \<lparr>sys_server = d_server d,
         tracker_of = \<lparr>shared = t0, holder = None, places = (\<lambda>_. Idle), out = [r0]\<rparr>,
         state_of = d_state d, pending = None, history = [None], phases = (\<lambda>_. Free), answers = [], lines = []\<rparr>"
      "Current (active (d_state d)) = None" "signals [r0] = [False]" "\<not> r_usable t0" "r_mode t0 = StartupFailClosed"
    by (rule sample_system)
  obtain t st where st: "Refresh sample_mmdb (answering 200) (d_state d) = Some ((OutcomeUpdated, None), st)"
      "Current (active st) = Some t" "blocked t = {ip. covers (prefix_from (Addr4 0x0A000000) 8) ip}"
    using sample_first_refresh[OF d(3,4,2)] by blast
  have "Addr4 0x0A000000 \<in> blocked t" by (simp add: st(3) covers_def prefix_from_def addr_is_valid_def)
  then have b: "blocked t \<noteq> {}" by blast
  have wf: "trie_wf t"
    using Refresh_wf[OF st(1)] st(2) d(6) by (simp add: source_wf_def)
  have us: "usable (seen (Some t))" "\<not> usable (seen None)" using usable_seen[of "Some t"] wf b usable_seen[of None] by auto
  let ?step = "sys_step sample_mmdb Background"
  let ?ok = "reachable_system sample_mmdb Background d"
  let ?s1 = "moves 0 (Arrived sample_request 1) (start_system 1 d)"
  let ?s2 = "loads 0 (Checking sample_request 1) ?s1"
  let ?s3 = "?s2\<lparr>pending := Some ((OutcomeUpdated, None), st)\<rparr>"
  let ?s4 = "?s3\<lparr>state_of := st, pending := None, history := history ?s3 @ [Current (active st)]\<rparr>"
  let ?s5 = "moves 1 (Arrived sample_request 2) ?s4"
  let ?s6 = "loads 1 (Checking sample_request 2) ?s5"
  have 1: "?ok ?s1" using sample_arrives[OF reachable_start[where d = d and now = 1], where i = 0 and r = sample_request] by (simp add: d(5))
  have 2: "?ok ?s2" by (rule reachable_system.go[OF 1 check_load[OF _ sample_routes]]) simp
  have 3: "?ok ?s3"
    by (rule reachable_system.go[OF 2 refresh[of _ _ "answering 200"]]) (simp_all add: d(5) st(1) loads_def moves_def)
  have 4: "?ok ?s4" by (rule reachable_system.go[OF 3 swap]) simp
  have 5: "?ok ?s5" using sample_arrives[OF 4, where i = 1 and r = sample_request] by (simp add: d(5) loads_def moves_def numeral_2_eq_2)
  have 6: "?ok ?s6" by (rule reachable_system.go[OF 5 check_load[OF _ sample_routes]]) simp
  obtain s6 where 6: "?ok s6"
      "phases s6 = (\<lambda>_. Free)(0 := Checking sample_request 1 None, 1 := Checking sample_request 2 (Some t))"
      "places (tracker_of s6) = (\<lambda>_. Idle)(0 := Entered (seen None), 1 := Entered (seen (Some t)))"
      "holder (tracker_of s6) = None" "shared (tracker_of s6) = t0" "out (tracker_of s6) = [r0]"
      "state_of s6 = st" "sys_server s6 = d_server d"
    by (rule that[OF 6]) (simp_all add: d(5,6) loads_def moves_def newLookupSource_seen st(2))
  have inv6: "sys_inv d s6" by (rule reachable_sys_inv[OF d(1) 6(1)])
  obtain r1 t1 where o1: "observe 2 (seen (Some t)) t0 = (True, [r1], t1)" "signals [r1] = [True]" "r_usable t1"
      "r_mode t1 = r_mode t0"
    using observe_found[OF us(1) d(8)] by blast
  obtain resp1 ms1 where v1: "check_verdict (d_server d) (seen (Some t)) sample_request = Some (resp1, ms1)"
    using check_verdict_usable[of "Some t" "d_server d" sample_request False] us(1) wf by auto
  obtain s7 where s7: "?step\<^sup>*\<^sup>* s6 s7" "phases s7 = (phases s6)(1 := Free)"
      "tracker_of s7 = at 1 Idle ((tracker_of s6)\<lparr>shared := t1, out := [r0, r1]\<rparr>)" "state_of s7 = st" "sys_server s7 = d_server d"
    using check_finishes[OF inv6, of 1 sample_request 2 "Some t" 2 True "[r1]" t1 resp1 ms1 sample_mmdb Background] 6 o1(1) v1
    by (auto simp: responds_def moves_def)
  have 7: "?ok s7" by (rule reachable_sys_steps[OF s7(1) 6(1)])
  have inv7: "sys_inv d s7" by (rule reachable_sys_inv[OF d(1) 7])
  obtain r2 t2 where o2: "observe 3 (seen None) t1 = (False, [r2], t2)" "signals [r2] = [False]" "\<not> r_usable t2"
      "r_mode t2 = r_mode t1"
    using observe_lost[OF us(2) o1(3)] by blast
  have fo: "\<not> failOpen t2" using o1(4) o2(4) d(9) by (simp add: failOpen_def StartupFailClosed_def StartupFailOpen_def)
  have p7: "phases s7 0 = Checking sample_request 1 None" "places (tracker_of s7) 0 = Entered (seen None)"
      "holder (tracker_of s7) = None" "observe 3 (seen None) (shared (tracker_of s7)) = (False, [r2], t2)"
      "out (tracker_of s7) = [r0, r1]"
    unfolding s7(2,3) by (simp_all add: 6 o2(1))
  let ?deny = "write_header (blockStatus (sys_server s7))"
  have run: "?step\<^sup>*\<^sup>* s7 ((responds 0 sample_request 1 ?deny s7)
      \<lparr>tracker_of := at 0 Idle ((tracker_of s7)\<lparr>shared := if \<not> False \<and> failOpen t2 then countFailOpenAllow t2 else t2,
         out := out (tracker_of s7) @ [r2]\<rparr>),
       lines := lines s7 @ emitted (FromContext (withRequestLogger (sys_server s7) Background)) []\<rparr>)" (is "_\<^sup>*\<^sup>* _ ?f")
    by (rule check_finishes[OF inv7 p7(1-4)]) (simp_all add: fo)
  obtain s8 where s8: "?step\<^sup>*\<^sup>* s7 s8" "phases s8 = (phases s7)(0 := Free)"
      "shared (tracker_of s8) = t2" "out (tracker_of s8) = [r0, r1, r2]" "state_of s8 = st"
    by (rule that[OF run]) (simp_all add: responds_def p7(5) s7(4) fo)
  have 8: "?ok s8" by (rule reachable_sys_steps[OF s8(1) 7])
  have "signals [r0, r1, r2] = signals [r0] @ signals [r1] @ signals [r2]" by (simp add: signals_def)
  then have sig: "signals (out (tracker_of s8)) = [False, True, False]"
    unfolding s8(4) d(7) o1(2) o2(2) by simp
  have free: "\<forall>i. phases s8 i = Free" unfolding s8(2) s7(2) 6(2) by simp
  have "\<not> r_usable (shared (tracker_of s8))" unfolding s8(3) by (rule o2(3))
  moreover have "Current (active (state_of s8)) = Some t" unfolding s8(5) by (rule st(2))
  ultimately show ?thesis using d(1) 8 b sig free by blast
qed

end
