(* ===== verification/Steps.thy ===== *)
theory Steps
  imports Main
begin

text \<open>
  Step relations that come to an end: the contract under which every run is bounded and none gets
  stuck, and what follows from it.
\<close>

text \<open>
  \<open>left\<close> bounds the steps that are left, \<open>over\<close> says that nothing is left to do.
\<close>

locale finishing =
  fixes step :: "'s \<Rightarrow> 's \<Rightarrow> bool"
    and inv :: "'s \<Rightarrow> bool"
    and left :: "'s \<Rightarrow> nat"
    and over :: "'s \<Rightarrow> bool"
  assumes keeps: "inv s \<Longrightarrow> step s s' \<Longrightarrow> inv s'"
    and lessens: "inv s \<Longrightarrow> step s s' \<Longrightarrow> left s' < left s"
    and goes_on: "inv s \<Longrightarrow> \<not> over s \<Longrightarrow> \<exists>s'. step s s'"
begin

lemma run_bounded:
  assumes "(step ^^ n) s s'" "inv s"
  shows "inv s' \<and> n + left s' \<le> left s"
  using assms
proof (induction n arbitrary: s')
  case (Suc n)
  from Suc.prems(1) obtain s1 where s1: "(step ^^ n) s s1" "step s1 s'" by auto
  then show ?case using Suc.IH[OF s1(1) Suc.prems(2)] keeps[of s1 s'] lessens[of s1 s'] by auto
qed simp

lemma finishes: "inv s \<Longrightarrow> \<exists>n s'. (step ^^ n) s s' \<and> over s'"
proof (induction "left s" arbitrary: s rule: less_induct)
  case less
  show ?case
  proof (cases "over s")
    case True
    then show ?thesis by (metis relpowp_0_I)
  next
    case False
    then obtain s1 where s1: "step s s1" using goes_on less.prems by blast
    from less.hyps[OF lessens[OF less.prems s1] keeps[OF less.prems s1]] show ?thesis
      using s1 by (meson relpowp_Suc_I2)
  qed
qed

lemma must_finish:
  assumes "inv s" "left s \<le> b"
  shows "(\<exists>n s'. (step ^^ n) s s' \<and> over s')
    \<and> (\<forall>n s'. (step ^^ n) s s' \<longrightarrow> n \<le> b \<and> (over s' \<or> (\<exists>s''. step s' s'')))"
proof -
  have "n \<le> b \<and> (over s' \<or> (\<exists>s''. step s' s''))" if "(step ^^ n) s s'" for n s'
    using run_bounded[OF that assms(1)] assms(2) goes_on[of s'] by fastforce
  then show ?thesis using finishes[OF assms(1)] by blast
qed

end

end
