(* ===== verification/Progress.thy ===== *)
theory Progress
  imports Concurrent_Correct Steps
begin

text \<open>
  The handlers and the heartbeat get on with their work: the mutex of the tracker never blocks them
  for good, and each of them takes a bounded number of steps, in every interleaving.
\<close>

section \<open>Work\<close>

text \<open>What a goroutine may still have to do, by its place in the tracker and by its phase.\<close>

fun place_rank :: "place \<Rightarrow> nat" where
  "place_rank Idle = 0"
| "place_rank (Entered l) = 10"
| "place_rank (Latching l) = 9"
| "place_rank (Testing l) = 8"
| "place_rank (Waiting l) = 7"
| "place_rank (Locked l) = 6"
| "place_rank (Opening l) = 5"
| "place_rank (Clearing l) = 4"
| "place_rank (Composing l) = 3"
| "place_rank (Closing l r) = 3"
| "place_rank (Announcing l r) = 2"
| "place_rank (Signalled l) = 1"
| "place_rank Counting = 1"
| "place_rank (Beat_since e) = 4"
| "place_rank (Beat_total e w) = 3"
| "place_rank (Beat_swap e w n) = 2"
| "place_rank (Beat_log r) = 1"

fun phase_rank :: "phase \<Rightarrow> nat" where
  "phase_rank Free = 0"
| "phase_rank (Arrived r k) = 14"
| "phase_rank (Checking r k c) = 3"
| "phase_rank (Allowing r k c) = 1"
| "phase_rank (Probing r k c) = 2"
| "phase_rank (Probed r k c n) = 1"
| "phase_rank (Beating c) = 6"
| "phase_rank Reporting = 1"

definition work :: "system \<Rightarrow> nat \<Rightarrow> nat" where
  "work s i = phase_rank (phases s i) + place_rank (places (tracker_of s) i)"

definition total_work :: "system \<Rightarrow> nat" where
  "total_work s = sum (work s) (busy s)"

lemma observe_step_rank: "observe_step i t t' \<Longrightarrow> places t i \<noteq> Idle \<Longrightarrow> place_rank (places t' i) < place_rank (places t i)"
  by (induction rule: observe_step.induct) simp_all

lemma work_bound:
  assumes "sys_inv d s"
  shows "work s i \<le> 16"
proof -
  have "place_rank (places (tracker_of s) i) \<le> 10" by (cases "places (tracker_of s) i") simp_all
  moreover have "quiet (phases s i) \<Longrightarrow> places (tracker_of s) i = Idle"
    using sys_inv_quiet[OF assms] by (simp add: returned_def)
  ultimately show ?thesis by (cases "phases s i") (simp_all add: work_def)
qed

text \<open>A step is one goroutine's, and leaves it less to do.\<close>

definition lessens :: "nat \<Rightarrow> system \<Rightarrow> system \<Rightarrow> bool" where
  "lessens i s s' \<longleftrightarrow> phases s i \<noteq> Free \<and> work s' i < work s i
     \<and> (\<forall>j. j \<noteq> i \<longrightarrow> work s' j = work s j \<and> phases s' j = phases s j)"

lemma lessens_moves:
  assumes "phases s i \<noteq> Free" "phase_rank p < phase_rank (phases s i)"
  shows "lessens i s (moves i p s)"
  using assms by (simp add: lessens_def work_def)

lemma lessens_responds: "phases s i \<noteq> Free \<Longrightarrow> lessens i s (responds i r k resp s)"
  by (cases "phases s i") (simp_all add: lessens_def work_def responds_def)

lemma work_lines [simp]: "work (s\<lparr>lines := ls\<rparr>) = work s"
  by (simp add: work_def fun_eq_iff)

lemma lessens_lines: "lessens i s s' \<Longrightarrow> lessens i s (s'\<lparr>lines := ls\<rparr>)"
  by (simp add: lessens_def)

lemma lessens_loads:
  assumes "phases s i = Arrived r k" "phase_rank (p (Current (active (state_of s)))) \<le> 3" "returned s i"
  shows "lessens i s (loads i p s)"
  using assms by (simp add: lessens_def work_def loads_def returned_def)

lemma lessens_tracker:
  assumes "phases s i \<noteq> Free" "observe_step i (tracker_of s) t"
    and "phase_rank p + place_rank (places t i) < work s i"
  shows "lessens i s ((moves i p s)\<lparr>tracker_of := t\<rparr>)"
  using assms observe_step_others[OF assms(2)] by (simp add: lessens_def work_def)

lemma serving_lessens:
  assumes "serving_step mmdb_open ctx s s'" "sys_inv d s"
  shows "\<exists>i. lessens i s s'"
proof -
  have step: "sys_step mmdb_open ctx s s'" and keep: "state_of s' = state_of s" "pending s' = pending s"
      "\<And>i. phases s i = Free \<Longrightarrow> phases s' i = Free"
    using assms(1) by (simp_all add: serving_step_def)
  note quiet = sys_inv_quiet[OF assms(2)]
  from step show ?thesis
  proof (cases rule: sys_step.cases)
    case (arrive i r)
    then show ?thesis using keep(3)[of i] by simp
  next
    case (check_load i r k)
    then have "returned s i" using quiet[of i] by simp
    then show ?thesis unfolding check_load(1) using check_load(2)
      by (intro exI[of _ i] lessens_loads[of _ _ r k]) simp_all
  next
    case (probe_load i r k)
    then have "returned s i" using quiet[of i] by simp
    then show ?thesis unfolding probe_load(1) using probe_load(2)
      by (intro exI[of _ i] lessens_loads[of _ _ r k]) simp_all
  next
    case (tick i)
    then show ?thesis using keep(3)[of i] by (simp add: loads_def)
  next
    case (track i t)
    then have "lessens i s ((moves i (phases s i) s)\<lparr>tracker_of := t\<rparr>)"
      using observe_step_rank[OF track(4)] by (intro lessens_tracker) (simp_all add: work_def returned_def)
    then show ?thesis using track(1) by (auto simp: moves_def)
  next
    case (allow i r k c t)
    then show ?thesis by (intro exI[of _ i]) (simp add: lessens_tracker work_def)
  next
    case (beat_report i c t e)
    then show ?thesis by (intro exI[of _ i]) (simp add: lessens_tracker work_def)
  next
    case (decide i r k c resp ls)
    then show ?thesis by (intro exI[of _ i]) (simp add: lessens_lines lessens_responds)
  next
    case (refresh env res st)
    then show ?thesis using keep(2) by simp
  next
    case (swap e st)
    then show ?thesis using keep(2) by simp
  next
    case (give_up e st)
    then show ?thesis using keep(2) by simp
  qed (auto intro!: lessens_responds lessens_moves exI)
qed

lemma lessens_total:
  assumes "lessens i s s'" "finite (busy s)"
  shows "total_work s' < total_work s" and "busy s' \<subseteq> busy s"
proof -
  have i: "i \<in> busy s" and less: "work s' i < work s i"
    and others: "\<And>j. j \<noteq> i \<Longrightarrow> work s' j = work s j \<and> phases s' j = phases s j"
    using assms(1) by (auto simp: lessens_def busy_def)
  have le: "work s' j \<le> work s j" for j using less others[of j] by (cases "j = i") simp_all
  show sub: "busy s' \<subseteq> busy s"
  proof
    fix j assume "j \<in> busy s'"
    then show "j \<in> busy s" using i others[of j] by (cases "j = i") (simp_all add: busy_def)
  qed
  have "total_work s' \<le> sum (work s') (busy s)"
    unfolding total_work_def by (rule sum_mono2[OF assms(2) sub]) simp
  also have "\<dots> < total_work s"
    unfolding total_work_def
    by (rule sum_strict_mono_ex1[OF assms(2)]) (use i less le in auto)
  finally show "total_work s' < total_work s" .
qed

lemma total_work_bound: "sys_inv d s \<Longrightarrow> total_work s \<le> 16 * card (busy s)"
  unfolding total_work_def using sum_bounded_above[of "busy s" "work s" 16] work_bound by simp

section \<open>Only finitely many\<close>

lemma busy_step: "sys_step mmdb_open ctx s s' \<Longrightarrow> \<exists>i. busy s' \<subseteq> insert i (busy s)"
proof (induction rule: sys_step.induct)
  case (arrive s i r)
  then show ?case by (intro exI[of _ i]) (auto simp: busy_def)
qed (force simp: busy_def responds_def loads_def)+

lemma finite_busy:
  "reachable_system mmdb_open ctx d s \<Longrightarrow> finite (busy s)"
proof (induction rule: reachable_system.induct)
  case (start st now)
  then show ?case by (simp add: start_system_def busy_def split: prod.split)
next
  case (go s s')
  from busy_step[OF go(2)] obtain i where "busy s' \<subseteq> insert i (busy s)" by blast
  then show ?case using go(3) by (auto intro: finite_subset)
qed

section \<open>No deadlock\<close>

text \<open>A goroutine in a call of the tracker can go on unless it waits for the mutex.\<close>

lemma tracker_goes_on:
  assumes "places t i \<noteq> Idle" "\<forall>l. places t i = Waiting l \<longrightarrow> holder t = None"
  shows "\<exists>t'. observe_step i t t'"
proof (cases "places t i")
  case (Locked l)
  show ?thesis
  proof (cases "r_usable (shared t) = usable l")
    case True
    then show ?thesis using Locked retest by blast
  next
    case False
    obtain r where "fst (emitRecovered 0 l (shared t)) = [r]" by (simp add: emitRecovered_def Let_def)
    then show ?thesis using Locked False recover[of t i l 0 r] open_window[of t i l] by (cases "usable l") blast+
  qed
next
  case (Beat_total e w)
  then show ?thesis using beat_closed beat_total by blast
qed (use assms in \<open>blast intro: observe_step.intros\<close>)+

lemma some_tracker_step:
  assumes "sys_inv d s" "\<not> returned s i"
  shows "\<exists>j t. phases s j \<noteq> Free \<and> \<not> returned s j \<and> observe_step j (tracker_of s) t"
proof -
  have mutex: "mutex_inv (tracker_of s)" using assms(1) reachable_inv by (auto simp: sys_inv_def)
  have busy: "\<not> returned s j \<Longrightarrow> phases s j \<noteq> Free" for j
    using sys_inv_quiet[OF assms(1), of j] by auto
  show ?thesis
  proof (cases "\<exists>l j. places (tracker_of s) i = Waiting l \<and> holder (tracker_of s) = Some j")
    case True
    then obtain j where "holder (tracker_of s) = Some j" by blast
    then have "inside (places (tracker_of s) j)" using mutex by (simp add: mutex_inv_def)
    then have "places (tracker_of s) j \<noteq> Idle" "\<forall>l. places (tracker_of s) j \<noteq> Waiting l" by auto
    then show ?thesis using tracker_goes_on[of "tracker_of s" j] busy[of j] by (auto simp: returned_def)
  next
    case False
    then show ?thesis using tracker_goes_on[of "tracker_of s" i] assms(2) busy[OF assms(2)]
      by (auto simp: returned_def)
  qed
qed

lemma serving_stepI:
  "sys_step mmdb_open ctx s s' \<Longrightarrow> state_of s' = state_of s \<Longrightarrow> pending s' = pending s \<Longrightarrow>
     (\<And>j. phases s j = Free \<Longrightarrow> phases s' j = Free) \<Longrightarrow> serving_step mmdb_open ctx s s'"
  by (simp add: serving_step_def)

text \<open>The steps that goroutine \<open>i\<close> takes itself: every other one stays where it is.\<close>

definition alone_step :: "mmdb_open \<Rightarrow> ctx \<Rightarrow> nat \<Rightarrow> system \<Rightarrow> system \<Rightarrow> bool" where
  "alone_step mmdb_open ctx i s s' \<longleftrightarrow> serving_step mmdb_open ctx s s' \<and> phases s i \<noteq> Free
     \<and> (\<forall>j. j \<noteq> i \<longrightarrow> phases s' j = phases s j \<and> places (tracker_of s') j = places (tracker_of s) j)"

lemma alone_stepI:
  "sys_step mmdb_open ctx s s' \<Longrightarrow> phases s i \<noteq> Free \<Longrightarrow> state_of s' = state_of s \<Longrightarrow> pending s' = pending s \<Longrightarrow>
     (\<And>j. j \<noteq> i \<Longrightarrow> phases s' j = phases s j) \<Longrightarrow>
     (\<And>j. j \<noteq> i \<Longrightarrow> places (tracker_of s') j = places (tracker_of s) j) \<Longrightarrow> alone_step mmdb_open ctx i s s'"
  unfolding alone_step_def serving_step_def by metis

lemma responds_keeps:
  "state_of (responds i r k resp s) = state_of s" "pending (responds i r k resp s) = pending s"
  "phases (responds i r k resp s) = (phases s)(i := Free)" "tracker_of (responds i r k resp s) = tracker_of s"
  by (simp_all add: responds_def)

lemma loads_keeps:
  "state_of (loads i p s) = state_of s" "pending (loads i p s) = pending s"
  "phases (loads i p s) = (phases s)(i := p (Current (active (state_of s))))"
  "j \<noteq> i \<Longrightarrow> places (tracker_of (loads i p s)) j = places (tracker_of s) j"
  by (simp_all add: loads_def at_def)

text \<open>A goroutine that is in no call of the tracker takes its next step at once.\<close>

lemma phase_goes_on:
  assumes "sys_inv d s" "phases s i \<noteq> Free" "returned s i"
  shows "\<exists>s'. alone_step mmdb_open ctx i s s'"
proof (cases "phases s i")
  case (Arrived r k)
  note at = Arrived
  have answer: "sys_step mmdb_open ctx s (responds i r k resp s) \<Longrightarrow> ?thesis" for resp
    using at by (intro exI[of _ "responds i r k resp s"] alone_stepI) (simp_all add: responds_keeps)
  have load: "sys_step mmdb_open ctx s (loads i p s) \<Longrightarrow> ?thesis" for p
    using at by (intro exI[of _ "loads i p s"] alone_stepI) (simp_all add: loads_keeps)
  show ?thesis
  proof (cases "mux_route r")
    case Check
    then show ?thesis using load[OF check_load[OF at Check]] answer[OF refuse[OF at]] by auto
  next
    case Healthz
    then show ?thesis using load[OF probe_load[OF at Healthz]] answer[OF refuse[OF at]] by auto
  next
    case (Moved p)
    then show ?thesis by (rule answer[OF redirect[OF at]])
  next
    case Not_found
    then show ?thesis by (rule answer[OF elsewhere[OF at]])
  next
    case Bad_request
    then show ?thesis by (rule answer[OF asterisk[OF at]])
  qed
next
  case (Checking r k c)
  note at = Checking
  have wf: "pred_option trie_wf c" using sys_inv_read_wf[OF assms(1)] sys_inv_phase[OF assms(1) at] by auto
  show ?thesis
  proof (cases "usable (seen c)")
    case True
    from check_verdict_usable[OF wf True, of "sys_server s" r False] obtain resp ls where
      v: "check_verdict (sys_server s) (seen c) r = Some (resp, ls)" by blast
    show ?thesis
      by (rule exI, rule alone_stepI, rule decide[OF at assms(3) True v]) (simp_all add: responds_keeps assms(2))
  next
    case False
    show ?thesis
    proof (cases "failOpen (shared (tracker_of s))")
      case True
      obtain t where c: "observe_step i (tracker_of s) t" "places t i = Counting"
        using count[of "tracker_of s" i] assms(3) by (auto simp: returned_def)
      show ?thesis by (rule exI, rule alone_stepI, rule allow[OF at assms(3) False True c]) (use at observe_step_others[OF c(1)] in simp_all)
    next
      case fo: False
      show ?thesis by (rule exI, rule alone_stepI, rule deny[OF at assms(3) False fo]) (use at in \<open>simp_all add: responds_keeps\<close>)
    qed
  qed
next
  case (Allowing r k c)
  show ?thesis by (rule exI, rule alone_stepI, rule allowed[OF Allowing assms(3)]) (simp_all add: responds_keeps assms(2))
next
  case (Probing r k c)
  show ?thesis
  proof (cases "usable (seen c)")
    case True
    show ?thesis by (rule exI, rule alone_stepI, rule probe_usable[OF Probing assms(3) True]) (simp_all add: responds_keeps assms(2))
  next
    case False
    show ?thesis by (rule exI, rule alone_stepI, rule probe_since[OF Probing assms(3) False]) (use Probing in \<open>simp_all add: responds_keeps\<close>)
  qed
next
  case (Probed r k c n)
  show ?thesis by (rule exI, rule alone_stepI, rule probe_unusable[OF Probed]) (simp_all add: responds_keeps assms(2))
next
  case (Beating c)
  show ?thesis
  proof (cases "usable (seen c)")
    case True
    show ?thesis by (rule exI, rule alone_stepI, rule beat_quiet[OF Beating assms(3) True]) (simp_all add: responds_keeps assms(2))
  next
    case False
    obtain t where b: "observe_step i (tracker_of s) t" "places t i = Beat_since (everReady (shared (tracker_of s)))"
      using beat_ever[of "tracker_of s" i] assms(3) by (auto simp: returned_def)
    show ?thesis by (rule exI, rule alone_stepI, rule beat_report[OF Beating assms(3) False b]) (use Beating observe_step_others[OF b(1)] in simp_all)
  qed
next
  case Reporting
  show ?thesis by (rule exI, rule alone_stepI, rule beat_done[OF Reporting assms(3)]) (simp_all add: responds_keeps assms(2))
qed (use assms(2) in simp)

lemma serving_goes_on:
  assumes "sys_inv d s" "busy s \<noteq> {}"
  shows "\<exists>s'. serving_step mmdb_open ctx s s'"
proof -
  obtain i where i: "phases s i \<noteq> Free" using assms(2) by (auto simp: busy_def)
  show ?thesis
  proof (cases "returned s i")
    case True
    then show ?thesis using phase_goes_on[OF assms(1) i, of mmdb_open ctx] unfolding alone_step_def by blast
  next
    case False
    obtain j t where j: "phases s j \<noteq> Free" "\<not> returned s j" "observe_step j (tracker_of s) t"
      using some_tracker_step[OF assms(1) False] by blast
    show ?thesis by (intro exI serving_stepI, rule track[OF j]) simp_all
  qed
qed

section \<open>Every request is answered\<close>

interpretation serve_run: finishing "serving_step mmdb_open ctx" "\<lambda>s. sys_inv d s \<and> finite (busy s)" total_work
  "\<lambda>s. busy s = {}" for mmdb_open ctx d
proof
  fix s s'
  assume inv: "sys_inv d s \<and> finite (busy s)" and step: "serving_step mmdb_open ctx s s'"
  obtain i where i: "lessens i s s'" using serving_lessens[OF step] inv by blast
  show "total_work s' < total_work s" using lessens_total(1)[OF i] inv by blast
  show "sys_inv d s' \<and> finite (busy s')"
    using lessens_total(2)[OF i] inv step sys_step_inv[of mmdb_open ctx s s' d]
    by (auto simp: serving_step_def intro: finite_subset)
next
  fix s
  assume "sys_inv d s \<and> finite (busy s)" "busy s \<noteq> {}"
  then show "\<exists>s'. serving_step mmdb_open ctx s s'" using serving_goes_on by blast
qed

text \<open>
  C13 (liveness). Every request gets its answer and every heartbeat ends: wherever the goroutines of the
  server stand, one of them can go on, whoever holds the mutex of the tracker, and together they
  take at most 16 steps each, in whatever order, until all of them are done.
\<close>

theorem requests_always_finish:
  assumes "start_daemon mmdb_open envs env args F = Some (Inr d)" "reachable_system mmdb_open ctx d s"
  shows "(\<exists>n s'. (serving_step mmdb_open ctx ^^ n) s s' \<and> (\<forall>i. phases s' i = Free))
    \<and> (\<forall>n s'. (serving_step mmdb_open ctx ^^ n) s s' \<longrightarrow> n \<le> 16 * card {i. phases s i \<noteq> Free}
         \<and> ((\<forall>i. phases s' i = Free) \<or> (\<exists>s''. serving_step mmdb_open ctx s' s'')))"
proof -
  have inv: "sys_inv d s \<and> finite (busy s)" using reachable_sys_inv[OF assms] finite_busy[OF assms(2)] by blast
  have idle: "busy s' = {} \<longleftrightarrow> (\<forall>i. phases s' i = Free)" for s' by (auto simp: busy_def)
  have "total_work s \<le> 16 * card {i. phases s i \<noteq> Free}"
    using total_work_bound[of d s] inv by (simp add: busy_def)
  from serve_run.must_finish[OF inv this] show ?thesis unfolding idle .
qed

theorem requests_always_finish_witness:
  "\<exists>d s n s'. start_daemon sample_mmdb (\<lambda>_. answering 200) sample_start [] Map.empty = Some (Inr d)
    \<and> reachable_system sample_mmdb Background d s \<and> phases s 0 = Arrived sample_request 1
    \<and> (serving_step sample_mmdb Background ^^ n) s s' \<and> n \<le> 16 \<and> phases s' 0 = Free"
proof -
  obtain d r t where d: "start_daemon sample_mmdb (\<lambda>_. answering 200) sample_start [] Map.empty = Some (Inr d)"
      "start_system 1 d = \<lparr>sys_server = d_server d,
         tracker_of = \<lparr>shared = t, holder = None, places = (\<lambda>_. Idle), out = [r]\<rparr>,
         state_of = d_state d, pending = None, history = [None], phases = (\<lambda>_. Free), answers = [], lines = []\<rparr>"
    by (rule sample_system)
  let ?s = "moves 0 (Arrived sample_request (length (history (start_system 1 d)))) (start_system 1 d)"
  have s: "reachable_system sample_mmdb Background d ?s"
    by (rule sample_arrives[OF reachable_start]) (simp add: d(2))
  have f: "{i. phases ?s i \<noteq> Free} = {0}" "phases ?s 0 = Arrived sample_request 1" by (auto simp: d(2))
  from requests_always_finish[OF d(1) s] obtain n s' where
    n: "(serving_step sample_mmdb Background ^^ n) ?s s'" "\<forall>i. phases s' i = Free" "n \<le> 16 * card {i. phases ?s i \<noteq> Free}"
    by blast
  have "n \<le> 16" using n(3) unfolding f(1) by simp
  with d(1) s f(2) n(1,2) show ?thesis by blast
qed

end
