(* ===== verification/Lifecycle_Correct.thy ===== *)
theory Lifecycle_Correct
  imports Lifecycle Daemon_Correct Steps
begin

text \<open>
  The process under every interleaving of its goroutines: what has ended when it exits, that it
  exits once it was told to, that its scheduler is a run of the scheduler as modelled alone, and
  what becomes of the daemon when the scheduler gives up.
\<close>

section \<open>Where the goroutines stand\<close>

text \<open>The places of \<open>main\<close> past the end of the server's \<open>Run\<close>, and the result it carries.\<close>

fun run_over :: "main_place \<Rightarrow> bool" where
  "run_over Observing \<longleftrightarrow> False"
| "run_over Selecting \<longleftrightarrow> False"
| "run_over Shutting_down \<longleftrightarrow> False"
| "run_over Receiving \<longleftrightarrow> False"
| "run_over _ \<longleftrightarrow> True"

fun carried :: "main_place \<Rightarrow> go_error option option" where
  "carried (Leaving e) = Some e"
| "carried (Cancelling e) = Some e"
| "carried (Waiting_all e) = Some e"
| "carried _ = None"

definition main_inv :: "'s process \<Rightarrow> bool" where
  "main_inv s \<longleftrightarrow>
     (main_at s = Observing \<longleftrightarrow> beat_at s = No_beat) \<and> (beat_at s = No_beat \<longleftrightarrow> listener_at s = No_listener)
   \<and> (listener_at s \<noteq> Listener_done \<longrightarrow> errCh s = None)
   \<and> (listener_at s = Listener_done \<and> \<not> run_over (main_at s) \<longrightarrow> errCh s \<noteq> None)
   \<and> (main_at s \<in> {Shutting_down, Receiving} \<longrightarrow> closing s \<and> signalled s)
   \<and> (main_at s \<in> {Observing, Selecting} \<longrightarrow> \<not> closing s)
   \<and> (run_over (main_at s) \<longrightarrow> beat_cancelled s)
   \<and> (run_over (main_at s) \<and> (\<forall>e. main_at s \<noteq> Leaving e) \<longrightarrow> beat_at s = Beat_done)
   \<and> (run_cancelled s \<longleftrightarrow> run_over (main_at s) \<and> (\<forall>e. main_at s \<noteq> Leaving e \<and> main_at s \<noteq> Cancelling e))"

lemma main_inv_step:
  assumes "process_step sv add_cron sch a s s'" "main_inv s"
  shows "main_inv s'"
  using assms(1)
proof (cases rule: process_step.cases)
  case in_run
  then show ?thesis using assms(2)
    by (cases rule: run_move.cases) (auto simp: main_inv_def run_done_def)
next
  case in_main
  then show ?thesis using assms(2)
    by (cases rule: main_move.cases) (auto simp: main_inv_def)
next
  case in_listener
  from in_listener(2) show ?thesis using assms(2)
    by (cases rule: listener_move.cases) (auto simp: main_inv_def)
next
  case in_beat
  from in_beat(2) show ?thesis using assms(2)
    by (cases rule: beat_move.cases) (auto simp: main_inv_def)
next
  case in_sched
  from in_sched(2) show ?thesis using assms(2)
    by (cases rule: sched_move.cases) (simp_all add: main_inv_def works_def)
next
  case signal
  then show ?thesis using assms(2) by (auto simp: main_inv_def)
qed

text \<open>What the result of the server's run tells: nil means that it was told to end and that it drained.\<close>

definition drained_ok :: "'s process \<Rightarrow> bool" where
  "drained_ok s \<longleftrightarrow> closing s \<and> signalled s \<and> in_flight s = 0 \<and> conns s = 0 \<and> listener_at s = Listener_done"

fun not_closed :: "go_error option \<Rightarrow> bool" where
  "not_closed None \<longleftrightarrow> True"
| "not_closed (Some e) \<longleftrightarrow> \<not> errors_is e Http_ErrServerClosed"

definition result_inv :: "'s process \<Rightarrow> bool" where
  "result_inv s \<longleftrightarrow>
     (\<forall>e. errCh s = Some e \<longrightarrow> not_closed e \<and> (e = None \<longrightarrow> closing s))
   \<and> (main_at s = Receiving \<longrightarrow> in_flight s = 0 \<and> conns s = 0)
   \<and> (\<forall>e. carried (main_at s) = Some e \<longrightarrow> not_closed e \<and> (e = None \<longrightarrow> drained_ok s))
   \<and> (\<forall>e. main_at s = Finishing e \<longrightarrow> (\<exists>serr. sched_at s = Sched_done serr) \<and> (e = None \<longrightarrow> drained_ok s))
   \<and> (\<forall>c. main_at s = Exited c \<longrightarrow> (\<exists>serr. sched_at s = Sched_done serr) \<and> c \<in> {0, 1} \<and> (c = 0 \<longrightarrow> drained_ok s))"

lemma run_result_None: "not_closed e \<Longrightarrow> run_result e = None \<longleftrightarrow> e = None"
  by (cases e) (simp_all add: run_result_def)

lemma listen_result_ok: "not_closed (listen_result err)" "listen_result (Sentinel Http_ErrServerClosed) = None"
  "\<not> errors_is err Http_ErrServerClosed \<Longrightarrow> listen_result err \<noteq> None"
  by (simp_all add: listen_result_def)

lemma main_invD:
  assumes "main_inv s"
  shows "main_at s = Selecting \<Longrightarrow> \<not> closing s"
    "main_at s = Receiving \<Longrightarrow> closing s \<and> signalled s"
    "errCh s = Some e \<Longrightarrow> listener_at s = Listener_done"
  using assms by (auto simp: main_inv_def)

lemma result_inv_run:
  assumes "run_move a s s'" "main_inv s" "result_inv s"
  shows "result_inv s'"
  using assms(1)
proof (cases rule: run_move.cases)
  case observed
  then show ?thesis using assms(3) by (simp add: result_inv_def)
next
  case select_done
  then show ?thesis using assms(3) by (simp add: result_inv_def)
next
  case (select_err e)
  then show ?thesis using assms(3) main_invD(1)[OF assms(2)] by (auto simp: result_inv_def)
next
  case shutdown
  then show ?thesis using assms(3) by (simp add: result_inv_def)
next
  case shutdown_late
  then show ?thesis using assms(3) by (simp add: result_inv_def)
next
  case (received e)
  then show ?thesis using assms(3) main_invD(2,3)[OF assms(2)] by (simp add: result_inv_def drained_ok_def)
next
  case (beat_over e)
  then show ?thesis using assms(3) by (simp add: result_inv_def drained_ok_def)
qed

lemma result_inv_main:
  assumes "main_move lg a s s'" "result_inv s"
  shows "result_inv s'"
  using assms(1)
proof (cases rule: main_move.cases)
  case (cancel e)
  then show ?thesis using assms(2) by (simp add: result_inv_def drained_ok_def)
next
  case (all_done e serr)
  then show ?thesis using assms(2) by (simp add: result_inv_def drained_ok_def run_result_None)
next
  case (finish e ls err)
  then show ?thesis using assms(2)
    by (auto simp: result_inv_def drained_ok_def run_end_def main_exit_def exitFailure_def split: option.splits)
qed

lemma result_inv_step:
  assumes "process_step sv add_cron sch a s s'" "main_inv s" "result_inv s"
  shows "result_inv s'"
  using assms(1)
proof (cases rule: process_step.cases)
  case in_run
  then show ?thesis using result_inv_run assms(2,3) by blast
next
  case in_main
  then show ?thesis using result_inv_main assms(3) by blast
next
  case in_listener
  have acc: "listener_at s = Listening \<Longrightarrow> \<not> drained_ok s" "listener_at s = Binding \<Longrightarrow> \<not> drained_ok s"
      "listener_at s = Announcing_addr \<Longrightarrow> \<not> drained_ok s"
    by (simp_all add: drained_ok_def)
  note main = main_invD(2)[OF assms(2)]
  from in_listener(2) show ?thesis
  proof (cases rule: listener_move.cases)
    case listening
    then show ?thesis using assms(3) in_listener(1) acc(3) by (auto simp: result_inv_def)
  next
    case bind
    then show ?thesis using assms(3) in_listener(1) acc(2) by (auto simp: result_inv_def)
  next
    case closed
    then show ?thesis using assms(3) in_listener(1) acc(1,2) by (auto simp: result_inv_def listen_result_ok)
  next
    case (listen_error err)
    then show ?thesis using assms(3) in_listener(1) acc(1,2) by (auto simp: result_inv_def listen_result_ok)
  next
    case connect
    then show ?thesis using assms(3) in_listener(1) acc(1) main by (auto simp: result_inv_def)
  next
    case (accept n)
    then show ?thesis using assms(3) in_listener(1) by (auto simp: result_inv_def drained_ok_def)
  next
    case (respond n)
    then show ?thesis using assms(3) in_listener(1) by (auto simp: result_inv_def drained_ok_def)
  next
    case (respond_keep n)
    then show ?thesis using assms(3) in_listener(1) by (auto simp: result_inv_def drained_ok_def)
  next
    case (hang_up n)
    then show ?thesis using assms(3) in_listener(1) by (auto simp: result_inv_def drained_ok_def)
  qed
next
  case in_beat
  from in_beat(2) show ?thesis using assms(3)
    by (cases rule: beat_move.cases) (simp_all add: result_inv_def drained_ok_def)
next
  case in_sched
  from in_sched(2) show ?thesis using assms(3) in_sched(1)
    by (cases rule: sched_move.cases) (auto simp: result_inv_def drained_ok_def works_def)
next
  case signal
  then show ?thesis using assms(3) by (auto simp: result_inv_def drained_ok_def)
qed

lemma reachable_process_inv: "reachable_process sv add_cron sch w s \<Longrightarrow> main_inv s \<and> result_inv s"
proof (induction rule: reachable_process.induct)
  case start
  show ?case by (simp add: start_process_def main_inv_def result_inv_def)
next
  case (go s a s')
  then show ?case using main_inv_step result_inv_step by blast
qed

section \<open>Ending\<close>

text \<open>A measure that every step of the program decreases.\<close>

fun main_rank :: "main_place \<Rightarrow> nat" where
  "main_rank Observing = 8"
| "main_rank Selecting = 7"
| "main_rank Shutting_down = 6"
| "main_rank Receiving = 5"
| "main_rank (Leaving e) = 4"
| "main_rank (Cancelling e) = 3"
| "main_rank (Waiting_all e) = 2"
| "main_rank (Finishing e) = 1"
| "main_rank (Exited c) = 0"

fun listener_rank :: "listener_place \<Rightarrow> nat" where
  "listener_rank No_listener = 4"
| "listener_rank Announcing_addr = 3"
| "listener_rank Binding = 2"
| "listener_rank Listening = 1"
| "listener_rank Listener_done = 0"

fun beat_rank :: "beat_place \<Rightarrow> nat" where
  "beat_rank No_beat = 2"
| "beat_rank In_heartbeat = 2"
| "beat_rank Await_tick = 1"
| "beat_rank Beat_done = 0"

fun sched_rank :: "sched_place \<Rightarrow> nat" where
  "sched_rank (Cold k) = 10"
| "sched_rank (Fetching k) = 9"
| "sched_rank (Asleep k) = 8"
| "sched_rank After_cold = 7"
| "sched_rank Adding = 6"
| "sched_rank (Cron_busy k) = 5"
| "sched_rank (Cron_idle k) = 4"
| "sched_rank (Cron_draining k) = 3"
| "sched_rank Cron_stopped = 2"
| "sched_rank (Sched_returned e) = 1"
| "sched_rank (Sched_done e) = 0"

definition effort :: "'s process \<Rightarrow> nat" where
  "effort s = main_rank (main_at s) + listener_rank (listener_at s) + beat_rank (beat_at s)
     + sched_rank (sched_at s) + 2 * in_flight s + conns s"

lemma effort_decreases:
  assumes "process_step sv add_cron sch Program s s'" "main_inv s"
  shows "effort s' < effort s"
  using assms(1)
proof (cases rule: process_step.cases)
  case in_run
  then show ?thesis using assms(2)
    by (cases rule: run_move.cases) (auto simp: effort_def main_inv_def)
next
  case in_main
  then show ?thesis by (cases rule: main_move.cases) (auto simp: effort_def)
next
  case in_listener
  from in_listener(2) show ?thesis
    by (cases rule: listener_move.cases) (auto simp: effort_def)
next
  case in_beat
  from in_beat(2) show ?thesis by (cases rule: beat_move.cases) (auto simp: effort_def)
next
  case in_sched
  from in_sched(2) show ?thesis by (cases rule: sched_move.cases) (auto simp: effort_def works_def)
qed

text \<open>No deadlock: the scheduler, the heartbeat and the listener each move on once they are told to.\<close>

lemma sched_moves:
  assumes "run_done s" "\<nexists>e. sched_at s = Sched_done e"
  shows "\<exists>s'. sched_move lg add_cron sch Program s s'"
proof (cases "sched_at s")
  case (Fetching k)
  then show ?thesis by (metis cold_end prod_cases3)
next
  case (Asleep k)
  then show ?thesis using assms(1) sleep_cut[of s k Program lg add_cron sch] by auto
next
  case (Cron_draining k)
  then show ?thesis by (metis drained surj_pair)
next
  case Adding
  then show ?thesis by (cases "add_cron (schedule sch)") (blast intro: sched_move.intros)+
qed (use assms in \<open>blast intro: sched_move.intros\<close>)+

lemma beat_moves:
  assumes "beat_ctx_done s" "beat_at s \<notin> {No_beat, Beat_done}"
  shows "\<exists>s'. beat_move Program s s'"
  using assms by (cases "beat_at s") (blast intro: beat_move.intros)+

lemma listener_moves:
  assumes "closing s" "listener_at s \<notin> {No_listener, Listener_done}" "errCh s = None"
  shows "\<exists>s'. listener_move sv Program s s'"
  using assms by (cases "listener_at s") (blast intro: listener_move.intros)+

text \<open>Told to end: a signal came, or the listener has failed.\<close>

definition ending :: "'s process \<Rightarrow> bool" where
  "ending s \<longleftrightarrow> signalled s \<or> listener_at s = Listener_done"

lemma ending_step: "process_step sv add_cron sch a s s' \<Longrightarrow> main_inv s \<Longrightarrow> ending s \<Longrightarrow> ending s'"
  by (erule process_step.cases; (erule run_move.cases main_move.cases listener_move.cases beat_move.cases sched_move.cases)?)
    (auto simp: ending_def main_inv_def works_def)

lemma never_stuck:
  assumes "main_inv s" "ending s" "\<nexists>c. main_at s = Exited c"
  shows "\<exists>s'. process_step sv add_cron sch Program s s'"
proof -
  note intros = process_step.in_run run_move.intros process_step.in_main main_move.intros
  show ?thesis
  proof (cases "main_at s")
    case Selecting
    show ?thesis
    proof (cases "signalled s")
      case True
      then show ?thesis using Selecting by (blast intro: process_step.in_run select_done[of s] run_done_def[THEN iffD2])
    next
      case False
      then have "errCh s \<noteq> None" using assms(1,2) Selecting by (auto simp: ending_def main_inv_def)
      then show ?thesis using Selecting by (blast intro: intros)
    qed
  next
    case Shutting_down
    then have c: "closing s" using assms(1) by (simp add: main_inv_def)
    show ?thesis
    proof (cases "in_flight s")
      case 0
      show ?thesis
      proof (cases "conns s")
        case 0
        then show ?thesis using Shutting_down \<open>in_flight s = 0\<close> by (blast intro: intros)
      next
        case (Suc n)
        from hang_up[OF this, of Program sv] c have "\<exists>s'. listener_move sv Program s s'" by blast
        then show ?thesis using assms(3) by (blast intro: process_step.in_listener)
      qed
    next
      case (Suc n)
      then show ?thesis using assms(3) by (blast intro: process_step.in_listener listener_move.respond)
    qed
  next
    case Receiving
    show ?thesis
    proof (cases "errCh s")
      case None
      then have "\<exists>s'. listener_move sv Program s s'" using assms(1) Receiving
        by (intro listener_moves) (auto simp: main_inv_def)
      then show ?thesis using assms(3) by (blast intro: process_step.in_listener)
    next
      case (Some e)
      then show ?thesis using Receiving by (blast intro: intros)
    qed
  next
    case (Leaving e)
    show ?thesis
    proof (cases "beat_at s = Beat_done")
      case True
      then show ?thesis using Leaving by (blast intro: intros)
    next
      case False
      then have "\<exists>s'. beat_move Program s s'" using assms(1) Leaving
        by (intro beat_moves) (auto simp: main_inv_def beat_ctx_done_def)
      then show ?thesis using assms(3) by (blast intro: process_step.in_beat)
    qed
  next
    case (Waiting_all e)
    show ?thesis
    proof (cases "\<exists>serr. sched_at s = Sched_done serr")
      case True
      then show ?thesis using Waiting_all by (blast intro: intros)
    next
      case False
      then have "\<exists>s'. sched_move (logger_of sv) add_cron sch Program s s'" using assms(1) Waiting_all
        by (intro sched_moves) (auto simp: main_inv_def run_done_def)
      then show ?thesis using assms(3) by (blast intro: process_step.in_sched)
    qed
  next
    case (Finishing e)
    obtain ls err where "run_end (logger_of sv) e = (ls, err)" by fastforce
    from process_step.in_main[OF finish[OF Finishing this]] show ?thesis by blast
  qed (use assms(3) in \<open>blast intro: intros\<close>)+
qed

lemma effort_bound: "effort s \<le> 24 + 2 * in_flight s + conns s"
proof -
  have "main_rank (main_at s) \<le> 8" by (cases "main_at s") simp_all
  moreover have "listener_rank (listener_at s) \<le> 4" by (cases "listener_at s") simp_all
  moreover have "beat_rank (beat_at s) \<le> 2" by (cases "beat_at s") simp_all
  moreover have "sched_rank (sched_at s) \<le> 10" by (cases "sched_at s") simp_all
  ultimately show ?thesis by (simp add: effort_def)
qed

interpretation exit_run: finishing "process_step sv add_cron sch Program" "\<lambda>s. main_inv s \<and> ending s" effort
  "\<lambda>s. \<exists>c. main_at s = Exited c" for sv add_cron sch
  by unfold_locales (auto intro: main_inv_step ending_step effort_decreases never_stuck)

text \<open>
  Once a signal came or the listener failed, the process exits: wherever its goroutines
  stand, they never block each other, and the program itself takes at most 24 more steps, two
  for each request in flight and one for each other connection, in whatever order.
\<close>

lemma told_to_end_exits:
  assumes "reachable_process sv add_cron sch w s" "signalled s \<or> listener_at s = Listener_done"
  shows "(\<exists>n s' c. (process_step sv add_cron sch Program ^^ n) s s' \<and> main_at s' = Exited c)
    \<and> (\<forall>n s'. (process_step sv add_cron sch Program ^^ n) s s' \<longrightarrow> n \<le> 24 + 2 * in_flight s + conns s
         \<and> ((\<exists>c. main_at s' = Exited c) \<or> (\<exists>s''. process_step sv add_cron sch Program s' s'')))"
proof -
  have "main_inv s \<and> ending s" using reachable_process_inv[OF assms(1)] assms(2) by (simp add: ending_def)
  from exit_run.must_finish[OF this effort_bound] show ?thesis by blast
qed

text \<open>
  C14 (safety). When the process exits, the scheduler and the heartbeat have returned, so that no
  refresh is cut off in the middle; and it exits with status 0 only when a signal told it to, the
  listener was closed and every request in flight was answered. Any other end has status 1.
\<close>

theorem exit_leaves_nothing_running:
  assumes "reachable_process sv add_cron sch w s" "main_at s = Exited c"
  shows "beat_at s = Beat_done \<and> (\<exists>serr. sched_at s = Sched_done serr) \<and> c \<in> {0, 1}
    \<and> (c = 0 \<longrightarrow> signalled s \<and> closing s \<and> listener_at s = Listener_done \<and> in_flight s = 0)"
proof -
  have "main_inv s" "result_inv s" using reachable_process_inv[OF assms(1)] by simp_all
  then show ?thesis using assms(2) by (simp add: main_inv_def result_inv_def drained_ok_def)
qed

section \<open>The scheduler in the process\<close>

lemma cold_loop_attempt:
  "\<not> ctx_done env k \<Longrightarrow> cold_loop sch env k s =
     (case cold_attempt sch k s of (es, retry, s') \<Rightarrow>
        if \<not> retry \<or> sleep_err env k \<noteq> None then (es, s')
        else (case cold_loop sch env (Suc k) s' of (es', s'') \<Rightarrow> (es @ es', s'')))"
  by (subst cold_loop.simps) (auto simp: cold_attempt_def Let_def split: prod.splits option.splits)

lemma cron_jobs_snoc:
  "cron_jobs sch k n s = (cs, s1) \<Longrightarrow> cron_job sch (k + n) s1 = (es, s2) \<Longrightarrow> cron_jobs sch k (Suc n) s = (cs @ es, s2)"
proof (induction n arbitrary: k s cs)
  case 0
  then show ?case by (auto simp: cron_job_def split: prod.splits option.splits)
next
  case (Suc n)
  obtain err s' where r: "refreshOnce sch k s = (err, s')" by fastforce
  obtain cs' t where c: "cron_jobs sch (k + 1) n s' = (cs', t)" by fastforce
  have "t = s1" using Suc.prems(1) r c by simp
  then have "cron_jobs sch (k + 1) (Suc n) s' = (cs' @ es, s2)"
    using c Suc.prems(2) by (intro Suc.IH) simp_all
  then show ?case using Suc.prems(1) r c by (auto simp del: cron_jobs.simps simp: cron_jobs.simps(2)[of _ _ "Suc n"] cron_jobs.simps(2)[of _ _ n])
qed

text \<open>The environment that a run of the cold start has met up to attempt \<open>k\<close>.\<close>

definition met :: "nat \<Rightarrow> ctx_env \<Rightarrow> bool" where
  "met k env \<longleftrightarrow> (\<forall>j<k. \<not> ctx_done env j \<and> sleep_err env j = None)"

fun with_rest :: "sched_event list \<Rightarrow> sched_event list \<times> 's \<Rightarrow> sched_event list \<times> 's" where
  "with_rest es (es', s) = (es @ es', s)"

text \<open>The cold start is over and the cron has run its calls up to the \<open>k\<close>-th.\<close>

definition cron_ran ::
  "(string \<Rightarrow> go_error option) \<Rightarrow> 's scheduler \<Rightarrow> 's \<Rightarrow> nat \<Rightarrow> sched_event list \<Rightarrow> 's \<Rightarrow> bool" where
  "cron_ran add_cron sch w k es s \<longleftrightarrow> add_cron (schedule sch) = None \<and>
     (\<exists>env es0 s0 n cs. runColdStart sch env w = (es0, s0) \<and> cron_jobs sch (attempts es0) n s0 = (cs, s)
        \<and> es = es0 @ Log (logged Info ''scheduler: started'' [(''schedule'', AStr (schedule sch))]) # cs
        \<and> k = attempts es0 + n)"

lemma cron_ran_start:
  "add_cron (schedule sch) = None \<Longrightarrow> runColdStart sch env w = (es, s) \<Longrightarrow>
     cron_ran add_cron sch w (attempts es)
       (es @ [Log (logged Info ''scheduler: started'' [(''schedule'', AStr (schedule sch))])]) s"
  unfolding cron_ran_def
  by (intro conjI exI[of _ env] exI[of _ es] exI[of _ s] exI[of _ 0] exI[of _ "[]"]) simp_all

lemma cron_ran_job:
  assumes "cron_ran add_cron sch w k es s" "cron_job sch k s = (es', s')"
  shows "cron_ran add_cron sch w (Suc k) (es @ es') s'"
proof -
  obtain env es0 s0 n cs where r: "add_cron (schedule sch) = None" "runColdStart sch env w = (es0, s0)"
      "cron_jobs sch (attempts es0) n s0 = (cs, s)"
      "es = es0 @ Log (logged Info ''scheduler: started'' [(''schedule'', AStr (schedule sch))]) # cs"
      "k = attempts es0 + n"
    using assms(1) unfolding cron_ran_def by blast
  have "cron_jobs sch (attempts es0) (Suc n) s0 = (cs @ es', s')"
    using cron_jobs_snoc[OF r(3)] assms(2) r(5) by blast
  then show ?thesis using r unfolding cron_ran_def
    by (intro conjI exI[of _ env] exI[of _ es0] exI[of _ s0] exI[of _ "Suc n"] exI[of _ "cs @ es'"])
      (simp_all del: cron_jobs.simps)
qed

lemma cron_ran_end:
  assumes "cron_ran add_cron sch w k es s"
  shows "\<exists>env n. scheduler_Run add_cron sch env False n w = (None, es @ [Log (logged Info ''scheduler: stopped'' [])], s)"
proof -
  obtain env es0 s0 n cs where "add_cron (schedule sch) = None" "runColdStart sch env w = (es0, s0)"
      "cron_jobs sch (attempts es0) n s0 = (cs, s)"
      "es = es0 @ Log (logged Info ''scheduler: started'' [(''schedule'', AStr (schedule sch))]) # cs"
    using assms unfolding cron_ran_def by blast
  then show ?thesis by (intro exI[of _ env] exI[of _ n]) (simp add: scheduler_Run_def)
qed

fun sched_inv ::
  "(string \<Rightarrow> go_error option) \<Rightarrow> 's scheduler \<Rightarrow> 's \<Rightarrow> sched_place \<Rightarrow> sched_event list \<Rightarrow> 's \<Rightarrow> bool" where
  "sched_inv add_cron sch w (Cold k) es s \<longleftrightarrow>
     (\<forall>env. met k env \<longrightarrow> runColdStart sch env w = with_rest es (cold_loop sch env k s))"
| "sched_inv add_cron sch w (Fetching k) es s \<longleftrightarrow>
     (\<forall>env. met k env \<longrightarrow> runColdStart sch env w = with_rest es (cold_loop sch env k s))"
| "sched_inv add_cron sch w (Asleep k) es s \<longleftrightarrow>
     (\<forall>env. met k env \<and> \<not> ctx_done env k \<longrightarrow> runColdStart sch env w =
        (if sleep_err env k = None then with_rest es (cold_loop sch env (Suc k) s) else (es, s)))"
| "sched_inv add_cron sch w After_cold es s \<longleftrightarrow> (\<exists>env. runColdStart sch env w = (es, s))"
| "sched_inv add_cron sch w Adding es s \<longleftrightarrow> (\<exists>env. runColdStart sch env w = (es, s))"
| "sched_inv add_cron sch w (Cron_idle k) es s \<longleftrightarrow> cron_ran add_cron sch w k es s"
| "sched_inv add_cron sch w (Cron_busy k) es s \<longleftrightarrow> cron_ran add_cron sch w k es s"
| "sched_inv add_cron sch w (Cron_draining k) es s \<longleftrightarrow> cron_ran add_cron sch w k es s"
| "sched_inv add_cron sch w Cron_stopped es s \<longleftrightarrow> (\<exists>k. cron_ran add_cron sch w k es s)"
| "sched_inv add_cron sch w (Sched_returned err) es s \<longleftrightarrow>
     (\<exists>env cancelled ticks. scheduler_Run add_cron sch env cancelled ticks w = (err, es, s))"
| "sched_inv add_cron sch w (Sched_done err) es s \<longleftrightarrow>
     (\<exists>env cancelled ticks. scheduler_Run add_cron sch env cancelled ticks w = (err, es, s))"

text \<open>The environments that a run leads to when it leaves the cold start at attempt \<open>k\<close>.\<close>

lemma met_ends [simp]:
  "met k \<lparr>ctx_done = (\<lambda>j. j = k), sleep_err = (\<lambda>_. None)\<rparr>"
  "met k \<lparr>ctx_done = (\<lambda>_. False), sleep_err = (\<lambda>j. if j = k then Some e else None)\<rparr>"
  "met k \<lparr>ctx_done = (\<lambda>_. False), sleep_err = (\<lambda>_. None)\<rparr>"
  by (simp_all add: met_def)

lemma met_Suc: "met (Suc k) env \<longleftrightarrow> met k env \<and> \<not> ctx_done env k \<and> sleep_err env k = None"
  by (auto simp: met_def less_Suc_eq)

lemma with_rest_assoc: "with_rest (es @ es') x = with_rest es (with_rest es' x)"
  by (cases x) simp

lemma with_rest_Nil [simp]: "with_rest [] x = x"
  by (cases x) simp

lemma cold_loop_rest:
  "\<not> ctx_done env k \<Longrightarrow> cold_attempt sch k s = (es, retry, s') \<Longrightarrow> cold_loop sch env k s =
     (if \<not> retry \<or> sleep_err env k \<noteq> None then (es, s') else with_rest es (cold_loop sch env (Suc k) s'))"
  by (simp add: cold_loop_attempt split: prod.splits)

lemma cold_loop_done: "ctx_done env k \<Longrightarrow> cold_loop sch env k s = ([], s)"
  by (subst cold_loop.simps) simp

lemma sched_inv_step:
  assumes "sched_move lg add_cron sch a s s'" "sched_inv add_cron sch w (sched_at s) (trace s) (world s)"
  shows "sched_inv add_cron sch w (sched_at s') (trace s') (world s')"
  using assms(1)
proof (cases rule: sched_move.cases)
  case (cold_cancelled k)
  let ?env = "\<lparr>ctx_done = (\<lambda>j. j = k), sleep_err = (\<lambda>_. None)\<rparr>"
  have "runColdStart sch ?env w = with_rest (trace s) (cold_loop sch ?env k (world s))"
    using assms(2) cold_cancelled by simp
  then show ?thesis using cold_cancelled by (auto simp: cold_loop_done)
next
  case (cold_end k es retry w')
  have loop: "runColdStart sch env w = with_rest (trace s)
      (if \<not> retry \<or> sleep_err env k \<noteq> None then (es, w') else with_rest es (cold_loop sch env (Suc k) w'))"
    if "met k env" "\<not> ctx_done env k" for env
    using assms(2) that cold_end cold_loop_rest[OF that(2) cold_end(4)] by simp
  show ?thesis
  proof (cases retry)
    case True
    then show ?thesis using cold_end loop by (simp add: works_def with_rest_assoc)
  next
    case False
    then show ?thesis using cold_end loop[OF met_ends(3)] by (auto simp: works_def)
  qed
next
  case (sleep_cut k)
  let ?env = "\<lparr>ctx_done = (\<lambda>_. False), sleep_err = (\<lambda>j. if j = k then Some (Foreign []) else None)\<rparr>"
  have "runColdStart sch ?env w = (trace s, world s)"
    using assms(2) sleep_cut met_ends(2)[of k "Foreign []"] by simp
  then show ?thesis using sleep_cut by auto
next
  case (sleep_over k)
  then show ?thesis using assms(2) by (simp add: met_Suc)
next
  case run_cancelled_early
  then obtain env where "runColdStart sch env w = (trace s, world s)" using assms(2) by auto
  then have "scheduler_Run add_cron sch env True 0 w = (None, trace s, world s)" by (simp add: scheduler_Run_def)
  then show ?thesis using run_cancelled_early by auto
next
  case (add_fails err)
  then obtain env where "runColdStart sch env w = (trace s, world s)" using assms(2) by auto
  then have "scheduler_Run add_cron sch env False 0 w
      = (Some (Wrapf ''scheduler: add cron job %q: %w'' [FStr (schedule sch)] err), trace s, world s)"
    using add_fails by (simp add: scheduler_Run_def)
  then show ?thesis using add_fails by auto
next
  case cron_start
  then show ?thesis using assms(2) cron_ran_start by (auto simp: works_def)
next
  case (job_ends k es w')
  then show ?thesis using assms(2) cron_ran_job by (simp add: works_def)
next
  case (drained k es w')
  then have "cron_ran add_cron sch w (Suc k) (trace s @ es) w'" using assms(2) by (intro cron_ran_job) simp_all
  then show ?thesis using drained by (auto simp: works_def)
next
  case sched_stopped
  then show ?thesis using assms(2) cron_ran_end by (fastforce simp: works_def)
qed (use assms(2) in auto)

lemma reachable_sched_inv:
  "reachable_process sv add_cron sch w s \<Longrightarrow> sched_inv add_cron sch w (sched_at s) (trace s) (world s)"
proof (induction rule: reachable_process.induct)
  case start
  show ?case by (simp add: start_process_def runColdStart_def)
next
  case (go s a s')
  from go(2) show ?case
  proof (cases rule: process_step.cases)
    case in_run
    then show ?thesis using go(3) by (cases rule: run_move.cases) simp_all
  next
    case in_main
    then show ?thesis using go(3) by (cases rule: main_move.cases) simp_all
  next
    case in_listener
    from in_listener(2) show ?thesis using go(3) by (cases rule: listener_move.cases) simp_all
  next
    case in_beat
    from in_beat(2) show ?thesis using go(3) by (cases rule: beat_move.cases) simp_all
  next
    case in_sched
    then show ?thesis using sched_inv_step[OF in_sched(2) go(3)] by simp
  qed (use go(3) in simp)
qed

text \<open>
  C15 (refinement). The scheduler as a goroutine among the others does what \<open>Run\<close> does alone: when it
  has returned, in whatever interleaving, its attempts, sleeps and lines, the state it leaves and
  its error are those of a run of \<open>scheduler_Run\<close>, for some cancellation, sleeps and cron ticks.
\<close>

theorem scheduler_runs_in_process:
  assumes "reachable_process sv add_cron sch w s" "sched_at s = Sched_done err"
  shows "\<exists>env cancelled ticks. scheduler_Run add_cron sch env cancelled ticks w = (err, trace s, world s)"
  using reachable_sched_inv[OF assms(1)] assms(2) by simp

section \<open>A schedule that was validated\<close>

text \<open>The scheduler has left its loop, and with what error.\<close>

fun sched_over :: "sched_place \<Rightarrow> bool" where
  "sched_over (Cron_draining k) \<longleftrightarrow> True"
| "sched_over Cron_stopped \<longleftrightarrow> True"
| "sched_over (Sched_returned e) \<longleftrightarrow> True"
| "sched_over (Sched_done e) \<longleftrightarrow> True"
| "sched_over _ \<longleftrightarrow> False"

fun sched_error :: "sched_place \<Rightarrow> go_error option" where
  "sched_error (Sched_returned e) = e"
| "sched_error (Sched_done e) = e"
| "sched_error _ = None"

lemma sched_stays:
  assumes "process_step sv add_cron sch a s s'" "add_cron (schedule sch) = None"
    and "sched_over (sched_at s) \<longrightarrow> run_done s" "sched_error (sched_at s) = None"
  shows "(sched_over (sched_at s') \<longrightarrow> run_done s') \<and> sched_error (sched_at s') = None"
  using assms(1)
proof (cases rule: process_step.cases)
  case in_run
  then show ?thesis using assms(3,4) by (cases rule: run_move.cases) (simp_all add: run_done_def)
next
  case in_main
  then show ?thesis using assms(3,4) by (cases rule: main_move.cases) (simp_all add: run_done_def)
next
  case in_listener
  from in_listener(2) show ?thesis using assms(3,4) by (cases rule: listener_move.cases) (simp_all add: run_done_def)
next
  case in_beat
  from in_beat(2) show ?thesis using assms(3,4) by (cases rule: beat_move.cases) (simp_all add: run_done_def)
next
  case in_sched
  from in_sched(2) show ?thesis using assms(2-4)
    by (cases rule: sched_move.cases) (simp_all add: run_done_def works_def split: if_splits)
next
  case signal
  then show ?thesis using assms(3,4) by (simp add: run_done_def)
qed

lemma start_schedule_valid:
  assumes "start_daemon mmdb_open envs env args F = Some (Inr d)"
  shows "parse_cron env (schedule (d_scheduler d)) = None"
proof -
  obtain path where path: "flag_parse default_config_path args = Inr path"
    using assms by (auto simp: start_daemon_def split: sum.splits)
  then obtain cfg where cfg: "Load (read_file env) (decode_yaml env) (parse_cron env) path = Inr cfg"
    using assms by (auto simp: start_daemon_def split: sum.splits)
  have "schedule (d_scheduler d) = RefreshConfig.schedule (Config.refresh cfg)"
    using assms path cfg
    by (auto simp: start_daemon_def buildScheduler_def newScheduler_def Let_def
        split: sum.splits option.splits prod.splits if_splits)
  then show ?thesis using Load_ok[OF cfg] by (simp add: config_ok_def)
qed

text \<open>
  C32 (safety). The refresh never dies silently: \<open>AddFunc\<close> parses with the parser that validated the
  schedule, and so, with whatever interleaving, the scheduler of a started daemon never returns an
  error, and it leaves its loop, stops its cron or returns only after the process was told to end,
  by a signal or by the end of the server.
\<close>

theorem scheduler_lives_until_told:
  assumes "start_daemon mmdb_open envs env args F = Some (Inr d)"
    and "reachable_process (d_server d) (parse_cron env) (d_scheduler d) w s"
  shows "(sched_over (sched_at s) \<longrightarrow> signalled s \<or> run_cancelled s) \<and> sched_error (sched_at s) = None"
proof -
  note valid = start_schedule_valid[OF assms(1)]
  from assms(2) have "(sched_over (sched_at s) \<longrightarrow> run_done s) \<and> sched_error (sched_at s) = None"
  proof (induction rule: reachable_process.induct)
    case start
    show ?case by (simp add: start_process_def)
  next
    case (go s a s')
    then show ?case using sched_stays[OF go(2) valid] by blast
  qed
  then show ?thesis by (simp add: run_done_def)
qed

section \<open>Samples\<close>

text \<open>The sample daemon's server, and a scheduler over its fetcher whose first refresh succeeds.\<close>

lemma sample_parts:
  obtains d sch w where "start_daemon sample_mmdb (\<lambda>_. answering 200) sample_start [] Map.empty = Some (Inr d)"
    "buildScheduler sample_mmdb (\<lambda>_. answering 200) sample_config = Inr sch"
    "refreshOnce sch 0 (Some (d_state d)) = (None, Some w)"
proof -
  obtain d where d: "start_daemon sample_mmdb (\<lambda>_. answering 200) sample_start [] Map.empty = Some (Inr d)"
      "fsys (d_state d) = Map.empty" "cachePath (fetcher_of (d_state d)) = sample_cache_path"
      "fetcher.countries (fetcher_of (d_state d)) = [''CN'']"
    using sample_started unfolding sample_cache_path_eq by metis
  obtain t st where st: "Refresh sample_mmdb (answering 200) (d_state d) = Some ((OutcomeUpdated, None), st)"
    using sample_first_refresh[OF d(3,4,2)] by blast
  obtain sch where sch: "buildScheduler sample_mmdb (\<lambda>_. answering 200) sample_config = Inr sch"
    using buildScheduler_config[OF sample_config_ok] by blast
  then have "refresh sch = refresh_call sample_mmdb (\<lambda>_. answering 200)"
    by (auto simp: buildScheduler_def newScheduler_def split: if_splits)
  then have "refreshOnce sch 0 (Some (d_state d)) = (None, Some st)" by (simp add: refreshOnce_def refresh_call_def st)
  with d(1) sch show thesis by (rule that)
qed

lemma signalled_start: "reachable_process sv add_cron sch w ((start_process w)\<lparr>signalled := True\<rparr>)"
  by (rule reachable_process.go[OF reachable_process.start process_step.signal]) (simp add: start_process_def)

lemma reachable_program_steps:
  "(process_step sv add_cron sch Program ^^ n) s s' \<Longrightarrow> reachable_process sv add_cron sch w s \<Longrightarrow>
     reachable_process sv add_cron sch w s'"
  by (induction n arbitrary: s') (auto intro: reachable_process.go)

theorem exit_leaves_nothing_running_witness:
  "\<exists>(d :: daemon) sch s c. buildScheduler sample_mmdb (\<lambda>_. answering 200) sample_config = Inr sch
    \<and> reachable_process (d_server d) (\<lambda>_. None) sch (Some (d_state d)) s
    \<and> main_at s = Exited c \<and> c \<in> {0, 1} \<and> beat_at s = Beat_done"
proof -
  obtain d :: daemon and sch w where d: "buildScheduler sample_mmdb (\<lambda>_. answering 200) sample_config = Inr sch"
    by (rule sample_parts)
  let ?s = "(start_process (Some (d_state d)))\<lparr>signalled := True\<rparr>"
  have r: "reachable_process (d_server d) (\<lambda>_. None) sch (Some (d_state d)) ?s" by (rule signalled_start)
  obtain n s c where s: "(process_step (d_server d) (\<lambda>_. None) sch Program ^^ n) ?s s" "main_at s = Exited c"
    using exit_run.finishes[of ?s "d_server d" "\<lambda>_. None" sch] reachable_process_inv[OF r] by (auto simp: ending_def)
  have "reachable_process (d_server d) (\<lambda>_. None) sch (Some (d_state d)) s" by (rule reachable_program_steps[OF s(1) r])
  from exit_leaves_nothing_running[OF this s(2)] this d s(2) show ?thesis by blast
qed

lemma sample_exit:
  obtains d sch s c e where "start_daemon sample_mmdb (\<lambda>_. answering 200) sample_start [] Map.empty = Some (Inr d)"
    "reachable_process (d_server d) (\<lambda>_. None) (d_scheduler d) (Some (d_state d)) s"
    "main_at s = Exited c" "sched_at s = Sched_done e"
proof -
  obtain d :: daemon where d: "start_daemon sample_mmdb (\<lambda>_. answering 200) sample_start [] Map.empty = Some (Inr d)"
    by (rule sample_parts)
  let ?s = "(start_process (Some (d_state d)))\<lparr>signalled := True\<rparr>"
  have r: "reachable_process (d_server d) (\<lambda>_. None) (d_scheduler d) (Some (d_state d)) ?s" by (rule signalled_start)
  obtain n s c where s: "(process_step (d_server d) (\<lambda>_. None) (d_scheduler d) Program ^^ n) ?s s" "main_at s = Exited c"
    using exit_run.finishes[of ?s "d_server d" "\<lambda>_. None" "d_scheduler d"] reachable_process_inv[OF r] by (auto simp: ending_def)
  have r': "reachable_process (d_server d) (\<lambda>_. None) (d_scheduler d) (Some (d_state d)) s"
    by (rule reachable_program_steps[OF s(1) r])
  have "\<exists>e. sched_at s = Sched_done e" using reachable_process_inv[OF r'] s(2) by (simp add: result_inv_def)
  with d r' s(2) that show thesis by blast
qed

theorem scheduler_runs_in_process_witness:
  "\<exists>(d :: daemon) env cancelled ticks e es w.
     start_daemon sample_mmdb (\<lambda>_. answering 200) sample_start [] Map.empty = Some (Inr d)
     \<and> scheduler_Run (\<lambda>_. None) (d_scheduler d) env cancelled ticks (Some (d_state d)) = (e, es, w)"
proof -
  obtain d s c e where d: "start_daemon sample_mmdb (\<lambda>_. answering 200) sample_start [] Map.empty = Some (Inr d)"
    and s: "reachable_process (d_server d) (\<lambda>_. None) (d_scheduler d) (Some (d_state d)) s" "sched_at s = Sched_done e"
    by (rule sample_exit)
  from scheduler_runs_in_process[OF s] d show ?thesis by blast
qed

theorem scheduler_lives_until_told_witness:
  "\<exists>d s. start_daemon sample_mmdb (\<lambda>_. answering 200) sample_start [] Map.empty = Some (Inr d)
    \<and> reachable_process (d_server d) (\<lambda>_. None) (d_scheduler d) (Some (d_state d)) s
    \<and> sched_at s = Sched_done None \<and> (signalled s \<or> run_cancelled s)"
proof -
  obtain d s c e where d: "start_daemon sample_mmdb (\<lambda>_. answering 200) sample_start [] Map.empty = Some (Inr d)"
    and s: "reachable_process (d_server d) (\<lambda>_. None) (d_scheduler d) (Some (d_state d)) s" "sched_at s = Sched_done e"
    by (rule sample_exit)
  have "reachable_process (d_server d) (parse_cron sample_start) (d_scheduler d) (Some (d_state d)) s"
    using s(1) by (simp add: sample_start_def)
  from scheduler_lives_until_told[OF d this] s d show ?thesis by auto
qed

end
