(* ===== verification/Whole_Correct.thy ===== *)
theory Whole_Correct
  imports Whole Progress Lifecycle_Correct "HOL-Library.Multiset"
begin

text \<open>
  The running program: its process and its server are runs of the two models, and so it inherits
  what they promise; it answers every request it accepted before a graceful exit, and it exits.
\<close>

section \<open>Kinds of steps\<close>

text \<open>A step of the process counts a request, or moves the heartbeat, or does neither.\<close>

lemma process_step_kinds:
  assumes "process_step sv add_cron sch a p p'"
  obtains (plain) "in_flight p' = in_flight p" "beat_at p' = In_heartbeat \<longleftrightarrow> beat_at p = In_heartbeat"
  | (counts) "world p' = world p" "beat_at p' = beat_at p"
      "in_flight p' = Suc (in_flight p) \<and> a = World \<or> in_flight p = Suc (in_flight p') \<and> a = Program"
  | (beats) "world p' = world p" "in_flight p' = in_flight p"
      "beat_at p \<noteq> In_heartbeat \<and> beat_at p' = In_heartbeat \<and> a = World
       \<or> beat_at p = In_heartbeat \<and> beat_at p' \<noteq> In_heartbeat \<and> a = Program"
  using assms
proof (cases rule: process_step.cases)
  case in_run
  then show ?thesis
  proof (cases rule: run_move.cases)
    case observed
    then show ?thesis by (cases "beat_at p = In_heartbeat") (simp_all add: plain beats)
  qed (simp_all add: plain)
next
  case in_main
  then show ?thesis by (cases rule: main_move.cases) (simp_all add: plain)
next
  case in_listener
  from in_listener(2) show ?thesis by (cases rule: listener_move.cases) (simp_all add: plain counts)
next
  case in_beat
  from in_beat(2) show ?thesis by (cases rule: beat_move.cases) (simp_all add: plain beats)
next
  case in_sched
  from in_sched(2) show ?thesis by (cases rule: sched_move.cases) (simp_all add: plain works_def)
next
  case signal
  then show ?thesis by (simp add: plain)
qed

text \<open>A step of the server goes on with its requests, answers one, or ends a heartbeat.\<close>

lemma serving_kinds:
  assumes "serving_step mmdb_open ctx s s'"
  obtains (working) "answers s' = answers s" "\<forall>i. request_of (phases s' i) = request_of (phases s i)"
      "\<forall>i. beating (phases s' i) \<longleftrightarrow> beating (phases s i)"
  | (answering) i r k k' resp where "request_of (phases s i) = Some r" "phases s' = (phases s)(i := Free)"
      "answers s' = answers s @ [(r, k, k', resp)]"
  | (ending_beat) i where "beating (phases s i)" "phases s' = (phases s)(i := Free)" "answers s' = answers s"
proof -
  have step: "sys_step mmdb_open ctx s s'" and keep: "pending s' = pending s"
      "\<And>i. phases s i = Free \<Longrightarrow> phases s' i = Free"
    using assms by (simp_all add: serving_step_def)
  from step show thesis
  proof (cases rule: sys_step.cases)
    case (arrive i r)
    then show thesis using keep(2)[of i] by simp
  next
    case (elsewhere i r k)
    show thesis by (rule answering[of i r]) (use elsewhere in \<open>simp_all add: responds_def\<close>)
  next
    case (redirect i r k p)
    show thesis by (rule answering[of i r]) (use redirect in \<open>simp_all add: responds_def\<close>)
  next
    case (asterisk i r k)
    show thesis by (rule answering[of i r]) (use asterisk in \<open>simp_all add: responds_def\<close>)
  next
    case (refuse i r k)
    show thesis by (rule answering[of i r]) (use refuse in \<open>simp_all add: responds_def\<close>)
  next
    case (check_load i r k)
    show thesis by (rule working) (use check_load in \<open>simp_all add: loads_def\<close>)
  next
    case (probe_load i r k)
    show thesis by (rule working) (use probe_load in \<open>simp_all add: loads_def\<close>)
  next
    case (tick i)
    then show thesis using keep(2)[of i] by (simp add: loads_def)
  next
    case (track i t)
    show thesis by (rule working) (use track in simp_all)
  next
    case (deny i r k c)
    show thesis by (rule answering[of i r]) (use deny in \<open>simp_all add: responds_def\<close>)
  next
    case (allow i r k c t)
    show thesis by (rule working) (use allow in simp_all)
  next
    case (allowed i r k c)
    show thesis by (rule answering[of i r]) (use allowed in \<open>simp_all add: responds_def\<close>)
  next
    case (decide i r k c resp ls)
    show thesis by (rule answering[of i r]) (use decide in \<open>simp_all add: responds_def\<close>)
  next
    case (probe_usable i r k c)
    show thesis by (rule answering[of i r]) (use probe_usable in \<open>simp_all add: responds_def\<close>)
  next
    case (probe_since i r k c now)
    show thesis by (rule working) (use probe_since in simp_all)
  next
    case (probe_unusable i r k c n)
    show thesis by (rule answering[of i r]) (use probe_unusable in \<open>simp_all add: responds_def\<close>)
  next
    case (beat_quiet i c)
    show thesis by (rule ending_beat[of i]) (use beat_quiet in simp_all)
  next
    case (beat_report i c t e)
    show thesis by (rule working) (use beat_report in simp_all)
  next
    case (beat_done i)
    show thesis by (rule ending_beat[of i]) (use beat_done in simp_all)
  qed (use keep(1) in simp_all)
qed

section \<open>The invariant\<close>

text \<open>The goroutines that hold a request, and the requests they hold.\<close>

definition holding :: "system \<Rightarrow> nat set" where
  "holding s = {i. request_of (phases s i) \<noteq> None}"

definition held :: "system \<Rightarrow> request multiset" where
  "held s = image_mset (\<lambda>i. the (request_of (phases s i))) (mset_set (holding s))"

definition beats :: "system \<Rightarrow> nat set" where
  "beats s = {i. beating (phases s i)}"

lemma busy_parts: "busy s = holding s \<union> beats s"
proof -
  have "p \<noteq> Free \<longleftrightarrow> request_of p \<noteq> None \<or> beating p" for p by (cases p) simp_all
  then show ?thesis by (auto simp: busy_def holding_def beats_def)
qed

lemma not_both: "request_of p = Some r \<Longrightarrow> \<not> beating p"
  by (cases p) simp_all

lemma held_cong:
  "\<forall>i. request_of (phases s' i) = request_of (phases s i) \<Longrightarrow> holding s' = holding s \<and> held s' = held s"
  by (simp add: holding_def held_def)

lemma held_arrive:
  assumes "finite (holding s)" "phases s i = Free" "phases s' = (phases s)(i := Arrived r k)"
  shows "holding s' = insert i (holding s)" "card (holding s') = Suc (card (holding s))" "held s' = add_mset r (held s)"
proof -
  have i: "i \<notin> holding s" using assms(2) by (simp add: holding_def)
  show h: "holding s' = insert i (holding s)" using assms(3) by (auto simp: holding_def)
  show "card (holding s') = Suc (card (holding s))" using i assms(1) by (simp add: h)
  have "image_mset (\<lambda>j. the (request_of (phases s' j))) (mset_set (holding s)) = held s"
    unfolding held_def by (rule image_mset_cong) (use i assms(1,3) in auto)
  then show "held s' = add_mset r (held s)"
    unfolding held_def[of s'] h using i assms(1,3) by simp
qed

lemma held_free:
  assumes "finite (holding s)" "request_of (phases s i) = Some r" "phases s' = (phases s)(i := Free)"
  shows "holding s' = holding s - {i}" "card (holding s) = Suc (card (holding s'))" "held s = add_mset r (held s')"
proof -
  have i: "i \<in> holding s" using assms(2) by (simp add: holding_def)
  show h: "holding s' = holding s - {i}" using assms(3) by (auto simp: holding_def)
  show "card (holding s) = Suc (card (holding s'))" unfolding h by (rule card.remove[OF assms(1) i])
  have "mset_set (holding s) = add_mset i (mset_set (holding s'))"
    unfolding h by (rule mset_set.remove[OF assms(1) i])
  moreover have "image_mset (\<lambda>j. the (request_of (phases s j))) (mset_set (holding s')) = held s'"
    unfolding held_def by (rule image_mset_cong) (use assms(1,3) h in auto)
  ultimately show "held s = add_mset r (held s')" unfolding held_def[of s] by (simp add: assms(2))
qed

text \<open>What ties the two parts together.\<close>

definition in_step :: "whole \<Rightarrow> bool" where
  "in_step w \<longleftrightarrow> world (process_of w) = Some (state_of (server_of w)) \<and> pending (server_of w) = None
     \<and> finite (holding (server_of w)) \<and> in_flight (process_of w) = card (holding (server_of w))
     \<and> (\<exists>h. beats (server_of w) = (if beat_at (process_of w) = In_heartbeat then {h} else {}))
     \<and> mset (accepted w) = mset (map fst (answers (server_of w))) + held (server_of w)"

lemma refreshed_simps [simp]:
  "phases (refreshed oc st s) = phases s" "answers (refreshed oc st s) = answers s"
  "pending (refreshed oc st s) = pending s" "state_of (refreshed oc st s) = st"
  "tracker_of (refreshed oc st s) = tracker_of s"
  by (cases oc; simp add: refreshed_def)+

lemma same_phases:
  "phases s' = phases s \<Longrightarrow> holding s' = holding s \<and> held s' = held s \<and> beats s' = beats s \<and> busy s' = busy s"
  by (simp add: holding_def held_def beats_def busy_def)

lemma beats_free: "\<not> beating p \<Longrightarrow> \<not> beating (phases s i) \<Longrightarrow> phases s' = (phases s)(i := p) \<Longrightarrow> beats s' = beats s"
  by (auto simp: beats_def)

lemma serving_keeps: "serving_step mmdb_open ctx s s' \<Longrightarrow> state_of s' = state_of s \<and> pending s' = pending s"
  by (simp add: serving_step_def)

lemma in_step_accepts:
  assumes "in_step w" "process_step sv add_cron sch a (process_of w) p" "in_flight p = Suc (in_flight (process_of w))"
    and "phases (server_of w) i = Free"
  shows "in_step (w\<lparr>process_of := p, server_of := moves i (Arrived r k) (server_of w), accepted := accepted w @ [r]\<rparr>)"
proof -
  let ?s = "server_of w"
  have fin: "finite (holding ?s)" using assms(1) by (simp add: in_step_def)
  have kind: "world p = world (process_of w) \<and> beat_at p = beat_at (process_of w)"
    using assms(2) by (cases rule: process_step_kinds) (use assms(3) in simp_all)
  have "phases (moves i (Arrived r k) ?s) = (phases ?s)(i := Arrived r k)" by simp
  note h = held_arrive[OF fin assms(4) this]
  have "beats (moves i (Arrived r k) ?s) = beats ?s"
    by (rule beats_free[of "Arrived r k" _ i]) (simp_all add: assms(4))
  then show ?thesis using assms(1,3) kind h by (simp add: in_step_def)
qed

lemma in_step_works:
  assumes "in_step w" "serving_step mmdb_open ctx (server_of w) s" "answers s = answers (server_of w)"
    and "\<forall>i. beating (phases s i) \<longleftrightarrow> beating (phases (server_of w) i)"
  shows "in_step (w\<lparr>server_of := s\<rparr>)"
  using assms(2)
proof (cases rule: serving_kinds)
  case working
  have "beats s = beats (server_of w)" using working(3) by (simp add: beats_def)
  then show ?thesis using assms(1) working(1) held_cong[OF working(2)] serving_keeps[OF assms(2)] by (simp add: in_step_def)
next
  case (answering i r k k' resp)
  then show ?thesis using assms(3) by simp
next
  case (ending_beat i)
  then show ?thesis using assms(4)[rule_format, of i] by simp
qed

lemma in_step_responds:
  assumes "in_step w" "process_step sv add_cron sch a (process_of w) p" "in_flight (process_of w) = Suc (in_flight p)"
    and "serving_step mmdb_open ctx (server_of w) s" "answers s = answers (server_of w) @ [x]"
  shows "in_step (w\<lparr>process_of := p, server_of := s\<rparr>)"
proof -
  have fin: "finite (holding (server_of w))" using assms(1) by (simp add: in_step_def)
  have kind: "world p = world (process_of w) \<and> beat_at p = beat_at (process_of w)"
    using assms(2) by (cases rule: process_step_kinds) (use assms(3) in simp_all)
  from assms(4) show ?thesis
  proof (cases rule: serving_kinds)
    case (answering i r k k' resp)
    note h = held_free[OF fin answering(1,2)]
    have "beats s = beats (server_of w)"
      by (rule beats_free[OF _ _ answering(2)]) (simp_all add: not_both[OF answering(1)])
    then show ?thesis
      using assms(1,3) kind h answering(3) serving_keeps[OF assms(4)] by (simp add: in_step_def)
  qed (use assms(5) in simp_all)
qed

lemma in_step_beat_begins:
  assumes "in_step w" "process_step sv add_cron sch a (process_of w) p"
    and "beat_at (process_of w) \<noteq> In_heartbeat" "beat_at p = In_heartbeat" "phases (server_of w) i = Free"
  shows "in_step (w\<lparr>process_of := p, server_of := loads i Beating (server_of w)\<rparr>)"
proof -
  let ?s = "server_of w"
  let ?s' = "loads i Beating ?s"
  have kind: "world p = world (process_of w) \<and> in_flight p = in_flight (process_of w)"
    using assms(2) by (cases rule: process_step_kinds) (use assms(3,4) in simp_all)
  have ph: "phases ?s' = (phases ?s)(i := Beating (Current (active (state_of ?s))))" by (simp add: loads_def)
  have "beats ?s' = {i}" using assms(1,3) ph by (auto simp: in_step_def beats_def)
  moreover have "\<forall>j. request_of (phases ?s' j) = request_of (phases ?s j)" using ph assms(5) by simp
  note held_cong[OF this]
  ultimately show ?thesis using assms(1,4) kind by (auto simp: in_step_def loads_def)
qed

lemma in_step_beat_ends:
  assumes "in_step w" "process_step sv add_cron sch a (process_of w) p"
    and "beat_at (process_of w) = In_heartbeat" "beat_at p \<noteq> In_heartbeat"
    and "serving_step mmdb_open ctx (server_of w) s" "beating (phases (server_of w) i)" "phases s i = Free"
  shows "in_step (w\<lparr>process_of := p, server_of := s\<rparr>)"
proof -
  have kind: "world p = world (process_of w) \<and> in_flight p = in_flight (process_of w)"
    using assms(2) by (cases rule: process_step_kinds) (use assms(3,4) in simp_all)
  from assms(5) show ?thesis
  proof (cases rule: serving_kinds)
    case working
    then show ?thesis using assms(6,7) by (metis beating.simps(3))
  next
    case (answering j r k k' resp)
    then have "j \<noteq> i" using assms(6) not_both by auto
    then show ?thesis using answering(2) assms(6,7) by simp
  next
    case (ending_beat j)
    have j: "j = i" using ending_beat(2) assms(6,7) by (cases "j = i") auto
    have "\<forall>k. request_of (phases s k) = request_of (phases (server_of w) k)"
    proof
      fix k show "request_of (phases s k) = request_of (phases (server_of w) k)"
        using ending_beat(2) j assms(6) not_both[of "phases (server_of w) i"]
        by (cases "k = i"; cases "request_of (phases (server_of w) i)") auto
    qed
    note held_cong[OF this]
    moreover obtain h where "beats (server_of w) = {h}" using assms(1,3) by (auto simp: in_step_def)
    then have "beating (phases (server_of w) k) \<longleftrightarrow> k = h" for k by (auto simp: beats_def set_eq_iff)
    then have "beats s = {}" using ending_beat(1,2) by (auto simp: beats_def)
    ultimately show ?thesis
      using assms(1,4) kind ending_beat(3) serving_keeps[OF assms(5)] by (simp add: in_step_def)
  qed
qed

lemma in_step_step:
  assumes "whole_step mmdb_open ctx sv add_cron sch a w w'" "in_step w"
  shows "in_step w'"
  using assms(1)
proof (cases rule: whole_step.cases)
  case (process_alone p)
  then show ?thesis using assms(2) by (simp add: in_step_def)
next
  case (refresh_ends p env oc err st)
  then show ?thesis using assms(2) same_phases[of "refreshed oc st (server_of w)" "server_of w"]
    by (simp add: in_step_def)
next
  case (accepts p i r)
  then show ?thesis using in_step_accepts[OF assms(2) accepts(3,4,5)] by simp
next
  case (handlers_work s)
  then show ?thesis using in_step_works[OF assms(2) handlers_work(4,5,6)] by simp
next
  case (handler_responds p s x)
  then show ?thesis using in_step_responds[OF assms(2) handler_responds(3-6)] by simp
next
  case (heartbeat_begins p i)
  then show ?thesis using in_step_beat_begins[OF assms(2) heartbeat_begins(3-6)] by simp
next
  case (heartbeat_ends p s i)
  then show ?thesis using in_step_beat_ends[OF assms(2) heartbeat_ends(3-8)] by simp
qed

section \<open>Both parts are runs of their models\<close>

lemma whole_step_process:
  "whole_step mmdb_open ctx sv add_cron sch a w w' \<Longrightarrow>
     process_of w' = process_of w \<or> process_step sv add_cron sch a (process_of w) (process_of w')"
  by (induction rule: whole_step.induct) simp_all

lemma refreshed_reachable:
  assumes "reachable_system mmdb_open ctx d s" "pending s = None" "Refresh mmdb_open env (state_of s) = Some ((oc, err), st)"
  shows "reachable_system mmdb_open ctx d (refreshed oc st s)"
proof -
  let ?s = "s\<lparr>pending := Some ((oc, err), st)\<rparr>"
  have 1: "reachable_system mmdb_open ctx d ?s" by (rule reachable_system.go[OF assms(1) refresh[OF assms(2,3)]])
  show ?thesis
  proof (cases oc)
    case OutcomeUpdated
    then have "reachable_system mmdb_open ctx d (?s\<lparr>state_of := st, pending := None, history := history ?s @ [Current (active st)]\<rparr>)"
      by (intro reachable_system.go[OF 1 swap]) simp
    moreover have "?s\<lparr>state_of := st, pending := None, history := history ?s @ [Current (active st)]\<rparr> = refreshed oc st s"
      by (rule system.equality) (simp_all add: refreshed_def OutcomeUpdated assms(2))
    ultimately show ?thesis by simp
  next
    case OutcomeUnchanged
    then have "reachable_system mmdb_open ctx d (?s\<lparr>state_of := st, pending := None\<rparr>)"
      by (intro reachable_system.go[OF 1 give_up]) simp
    moreover have "?s\<lparr>state_of := st, pending := None\<rparr> = refreshed oc st s"
      by (rule system.equality) (simp_all add: refreshed_def OutcomeUnchanged assms(2))
    ultimately show ?thesis by simp
  qed
qed

lemma whole_step_server:
  assumes "whole_step mmdb_open ctx sv add_cron sch a w w'" "in_step w" "reachable_system mmdb_open ctx d (server_of w)"
  shows "reachable_system mmdb_open ctx d (server_of w')"
  using assms(1)
proof (cases rule: whole_step.cases)
  case (refresh_ends p env oc err st)
  then show ?thesis using refreshed_reachable[OF assms(3) _ refresh_ends(5)] assms(2) by (simp add: in_step_def)
next
  case (accepts p i r)
  then show ?thesis using reachable_system.go[OF assms(3) sys_step.arrive[OF accepts(5)]] by simp
next
  case (heartbeat_begins p i)
  then show ?thesis using reachable_system.go[OF assms(3) sys_step.tick[OF heartbeat_begins(6)]] by simp
qed (use assms(3) reachable_system.go in \<open>auto simp: serving_step_def\<close>)

section \<open>The start\<close>

lemma start_daemon_scheduler:
  "start_daemon mmdb_open envs env args F = Some (Inr d) \<Longrightarrow> refresh (d_scheduler d) = refresh_call mmdb_open envs"
  by (auto simp: start_daemon_def buildScheduler_def newScheduler_def Let_def
      split: sum.splits option.splits prod.splits if_splits)

text \<open>The process changes the state of the refreshes by a call of the refresh only.\<close>

lemma cold_attempt_world: "cold_attempt sch k s = (es, retry, s') \<Longrightarrow> s' = snd (refreshOnce sch k s)"
  by (auto simp: cold_attempt_def Let_def split: prod.splits option.splits if_splits)

lemma cron_job_world: "cron_job sch k s = (es, s') \<Longrightarrow> s' = snd (refreshOnce sch k s)"
  by (auto simp: cron_job_def split: prod.splits)

lemma process_step_world:
  assumes "process_step sv add_cron sch a p p'"
  shows "world p' = world p \<or> (\<exists>k. world p' = snd (refreshOnce sch k (world p)))"
  using assms
proof (cases rule: process_step.cases)
  case in_run
  then show ?thesis by (cases rule: run_move.cases) simp_all
next
  case in_main
  then show ?thesis by (cases rule: main_move.cases) simp_all
next
  case in_listener
  from in_listener(2) show ?thesis by (cases rule: listener_move.cases) simp_all
next
  case in_beat
  from in_beat(2) show ?thesis by (cases rule: beat_move.cases) simp_all
next
  case in_sched
  from in_sched(2) show ?thesis
    by (cases rule: sched_move.cases) (auto simp: works_def dest: cold_attempt_world cron_job_world)
qed simp

lemma refreshOnce_Refresh:
  assumes "refresh sch = refresh_call mmdb_open envs" "snd (refreshOnce sch k (Some st)) = w"
  shows "\<exists>oc err st'. w = Some st' \<and> Refresh mmdb_open (envs k) st = Some ((oc, err), st')"
  using assms refresh_call_Some[of mmdb_open envs "timeout sch" k st] by (auto simp: refreshOnce_def)

lemma process_refreshes:
  assumes "refresh sch = refresh_call mmdb_open envs" "reachable_process sv add_cron sch (Some st0) p"
  shows "\<exists>st. world p = Some st \<and> (one_refresh mmdb_open)\<^sup>*\<^sup>* st0 st"
  using assms(2)
proof (induction rule: reachable_process.induct)
  case start
  show ?case by (simp add: start_process_def)
next
  case (go p a p')
  then obtain st where st: "world p = Some st" "(one_refresh mmdb_open)\<^sup>*\<^sup>* st0 st" by blast
  from process_step_world[OF go(2)] show ?case
  proof
    assume "world p' = world p"
    then show ?thesis using st by simp
  next
    assume "\<exists>k. world p' = snd (refreshOnce sch k (world p))"
    then obtain k where "snd (refreshOnce sch k (Some st)) = world p'" using st(1) by auto
    from refreshOnce_Refresh[OF assms(1) this] obtain st' where "world p' = Some st'" "one_refresh mmdb_open st st'"
      by (auto simp: one_refresh_def)
    with st(2) show ?thesis by (blast intro: rtranclp.rtrancl_into_rtrancl)
  qed
qed

text \<open>Before the observation no request and no heartbeat is there.\<close>

lemma observing_idle: "reachable_process sv add_cron sch w p \<Longrightarrow> main_at p = Observing \<Longrightarrow> in_flight p = 0 \<and> conns p = 0 \<and> closing p = False"
proof (induction rule: reachable_process.induct)
  case start
  show ?case by (simp add: start_process_def)
next
  case (go p a p')
  have inv: "main_inv p" using reachable_process_inv[OF go(1)] by simp
  from go(2) show ?case
  proof (cases rule: process_step.cases)
    case in_run
    then show ?thesis using go(4) by (cases rule: run_move.cases) simp_all
  next
    case in_main
    then show ?thesis using go(4) by (cases rule: main_move.cases) simp_all
  next
    case in_listener
    from in_listener(2) show ?thesis using go(3,4) inv
      by (cases rule: listener_move.cases) (auto simp: main_inv_def)
  next
    case in_beat
    from in_beat(2) show ?thesis using go(3,4) by (cases rule: beat_move.cases) simp_all
  next
    case in_sched
    from in_sched(2) show ?thesis using go(3,4) by (cases rule: sched_move.cases) (simp_all add: works_def)
  qed (use go(3,4) in simp)
qed

definition whole_inv :: "mmdb_open \<Rightarrow> ctx \<Rightarrow> (string \<Rightarrow> go_error option) \<Rightarrow> daemon \<Rightarrow> whole \<Rightarrow> bool" where
  "whole_inv mmdb_open ctx add_cron d w \<longleftrightarrow>
     reachable_process (d_server d) add_cron (d_scheduler d) (Some (d_state d)) (process_of w)
   \<and> reachable_system mmdb_open ctx d (server_of w) \<and> in_step w"

lemma whole_inv_step:
  assumes "whole_step mmdb_open ctx (d_server d) add_cron (d_scheduler d) a w w'" "whole_inv mmdb_open ctx add_cron d w"
  shows "whole_inv mmdb_open ctx add_cron d w'"
  using assms(2) whole_step_process[OF assms(1)] whole_step_server[OF assms(1)] in_step_step[OF assms(1)]
  by (auto simp: whole_inv_def intro: reachable_process.go)

lemma reachable_whole_inv:
  assumes "start_daemon mmdb_open envs env args F = Some (Inr d)" "reachable_whole mmdb_open ctx add_cron d w"
  shows "whole_inv mmdb_open ctx add_cron d w"
  using assms(2)
proof (induction rule: reachable_whole.induct)
  case (start p st p' now)
  note refresh = start_daemon_scheduler[OF assms(1)]
  have r: "(one_refresh mmdb_open)\<^sup>*\<^sup>* (d_state d) st" using process_refreshes[OF refresh start(1)] start(3) by auto
  have "reachable_process (d_server d) add_cron (d_scheduler d) (Some (d_state d)) p'"
    by (rule reachable_process.go[OF start(1) in_run[OF start(4)]])
  moreover have "beat_at p' \<noteq> In_heartbeat" "in_flight p' = in_flight p" "world p' = Some st"
    using start(4) by (cases rule: run_move.cases; use start(2,3) in simp)+
  ultimately show ?case
    using observing_idle[OF start(1,2)] reachable_system.start[OF r, of ctx now]
    by (simp add: whole_inv_def in_step_def start_system_def holding_def held_def beats_def split: prod.splits)
next
  case (go w a w')
  then show ?case using whole_inv_step by blast
qed

section \<open>A graceful exit\<close>

text \<open>
  C11 (safety). A process that exits with status 0 has answered every request it ever accepted, each
  one exactly once, however its goroutines interleaved, and each check with the decision on one
  blocklist that was active while it was served.
\<close>

theorem graceful_exit_answers_all:
  assumes "start_daemon mmdb_open envs env args F = Some (Inr d)" "reachable_whole mmdb_open ctx add_cron d w"
    and "main_at (process_of w) = Exited 0"
  shows "mset (map fst (answers (server_of w))) = mset (accepted w)
    \<and> (\<forall>(r, k, k', resp) \<in> set (answers (server_of w)). http_method r = ''GET'' \<and> url_path r = ''/check'' \<longrightarrow>
         (\<exists>j. k \<le> Suc j \<and> j < k' \<and> resp = write_header
           (if allowed (r_mode (d_tracker d) = StartupFailOpen) (map_option blocked (history (server_of w) ! j))
                 (extractClientIP (headers r)) then 200 else blockStatus (d_server d))))"
proof -
  have inv: "whole_inv mmdb_open ctx add_cron d w" by (rule reachable_whole_inv[OF assms(1,2)])
  then have "reachable_process (d_server d) add_cron (d_scheduler d) (Some (d_state d)) (process_of w)"
    by (simp add: whole_inv_def)
  then have "result_inv (process_of w)" by (rule reachable_process_inv[THEN conjunct2])
  then have "in_flight (process_of w) = 0" using assms(3) by (simp add: result_inv_def drained_ok_def)
  then have "finite (holding (server_of w))" "card (holding (server_of w)) = 0"
    using inv by (simp_all add: whole_inv_def in_step_def)
  then have "holding (server_of w) = {}" by (rule card_0_eq[THEN iffD1])
  then have "held (server_of w) = {#}" by (simp add: held_def)
  then have "mset (map fst (answers (server_of w))) = mset (accepted w)"
    using inv by (simp add: whole_inv_def in_step_def)
  moreover have "reachable_system mmdb_open ctx d (server_of w)" using inv by (simp add: whole_inv_def)
  note answers_decided[OF assms(1) this]
  ultimately show ?thesis by fastforce
qed

section \<open>The end comes\<close>

definition whole_left :: "whole \<Rightarrow> nat" where
  "whole_left w = effort (process_of w) + total_work (server_of w)"

definition started :: "mmdb_open \<Rightarrow> daemon \<Rightarrow> bool" where
  "started mmdb_open d \<longleftrightarrow> (\<exists>envs env args F. start_daemon mmdb_open envs env args F = Some (Inr d))"

text \<open>What holds once the process was told to end.\<close>

definition whole_ending :: "mmdb_open \<Rightarrow> ctx \<Rightarrow> (string \<Rightarrow> go_error option) \<Rightarrow> daemon \<Rightarrow> whole \<Rightarrow> bool" where
  "whole_ending mmdb_open ctx add_cron d w \<longleftrightarrow>
     started mmdb_open d \<and> whole_inv mmdb_open ctx add_cron d w \<and> ending (process_of w)"

lemma whole_endingD:
  assumes "whole_ending mmdb_open ctx add_cron d w"
  shows "main_inv (process_of w)" "sys_inv d (server_of w)" "finite (busy (server_of w))" "in_step w"
    "ending (process_of w)" "\<exists>envs. refresh (d_scheduler d) = refresh_call mmdb_open envs"
proof -
  obtain envs env args F where d: "start_daemon mmdb_open envs env args F = Some (Inr d)"
    using assms by (auto simp: whole_ending_def started_def)
  have p: "reachable_process (d_server d) add_cron (d_scheduler d) (Some (d_state d)) (process_of w)"
    and s: "reachable_system mmdb_open ctx d (server_of w)"
    using assms by (simp_all add: whole_ending_def whole_inv_def)
  show "main_inv (process_of w)" using reachable_process_inv[OF p] by blast
  show "sys_inv d (server_of w)" by (rule reachable_sys_inv[OF d s])
  show "finite (busy (server_of w))" by (rule finite_busy[OF s])
  show "in_step w" "ending (process_of w)" using assms by (simp_all add: whole_ending_def whole_inv_def)
  show "\<exists>envs. refresh (d_scheduler d) = refresh_call mmdb_open envs" using start_daemon_scheduler[OF d] by blast
qed

lemma whole_left_decreases:
  assumes "whole_step mmdb_open ctx (d_server d) add_cron (d_scheduler d) Program w w'"
    and "whole_ending mmdb_open ctx add_cron d w"
  shows "whole_left w' < whole_left w"
proof -
  note D = whole_endingD[OF assms(2)]
  have ranks: "effort p < effort (process_of w)"
    if "process_step (d_server d) add_cron (d_scheduler d) Program (process_of w) p" for p
    using effort_decreases[OF that D(1)] .
  have work: "total_work s < total_work (server_of w)" if step: "serving_step mmdb_open ctx (server_of w) s" for s
  proof -
    obtain i where "lessens i (server_of w) s" using serving_lessens[OF step D(2)] by blast
    then show ?thesis using lessens_total(1) D(3) by blast
  qed
  from assms(1) show ?thesis
  proof (cases rule: whole_step.cases)
    case (process_alone p)
    then show ?thesis using ranks[of p] by (simp add: whole_left_def)
  next
    case (refresh_ends p env oc err st)
    have "total_work (refreshed oc st (server_of w)) = total_work (server_of w)"
      by (simp add: total_work_def busy_def work_def)
    then show ?thesis using refresh_ends ranks[of p] by (simp add: whole_left_def)
  next
    case (handlers_work s)
    then show ?thesis using work[of s] by (simp add: whole_left_def)
  next
    case (handler_responds p s x)
    then show ?thesis using work[of s] ranks[of p] by (simp add: whole_left_def)
  next
    case (heartbeat_ends p s i)
    then show ?thesis using work[of s] ranks[of p] by (simp add: whole_left_def)
  qed
qed

lemma whole_goes_on:
  assumes "whole_ending mmdb_open ctx add_cron d w" "\<nexists>c. main_at (process_of w) = Exited c"
  shows "\<exists>w'. whole_step mmdb_open ctx (d_server d) add_cron (d_scheduler d) Program w w'"
proof -
  note D = whole_endingD[OF assms(1)]
  let ?p = "process_of w" and ?s = "server_of w"
  have alive: "\<forall>c. main_at ?p \<noteq> Exited c" using assms(2) by blast
  show ?thesis
  proof (cases "busy ?s = {}")
    case False
    obtain s where s: "serving_step mmdb_open ctx ?s s" using serving_goes_on[OF D(2) False] by blast
    from s show ?thesis
    proof (cases rule: serving_kinds)
      case working
      then show ?thesis using handlers_work[OF alive s] by blast
    next
      case (answering i r k k' resp)
      have "i \<in> holding ?s" using answering(1) by (simp add: holding_def)
      then have "in_flight ?p \<noteq> 0" using D(4) by (auto simp: in_step_def)
      then obtain n where n: "in_flight ?p = Suc n" using not0_implies_Suc by blast
      have "process_step (d_server d) add_cron (d_scheduler d) Program ?p (?p\<lparr>in_flight := n\<rparr>)"
        by (rule in_listener[OF alive respond[OF n]])
      from handler_responds[OF this _ s answering(3)] n show ?thesis by auto
    next
      case (ending_beat i)
      have "beats ?s \<noteq> {}" using ending_beat(1) by (auto simp: beats_def)
      then have b: "beat_at ?p = In_heartbeat" using D(4) by (auto simp: in_step_def split: if_splits)
      have "process_step (d_server d) add_cron (d_scheduler d) Program ?p (?p\<lparr>beat_at := Await_tick\<rparr>)"
        by (rule in_beat[OF alive beaten[OF b]])
      from heartbeat_ends[OF this b _ s ending_beat(1)] ending_beat(2) show ?thesis by auto
    qed
  next
    case True
    then have idle: "in_flight ?p = 0" "beat_at ?p \<noteq> In_heartbeat"
      using D(4) by (auto simp: in_step_def busy_parts split: if_splits)
    obtain p where p: "process_step (d_server d) add_cron (d_scheduler d) Program ?p p"
      using never_stuck[OF D(1,5) assms(2)] by blast
    have same: "in_flight p = in_flight ?p" "beat_at p = In_heartbeat \<longleftrightarrow> beat_at ?p = In_heartbeat"
      using p by (cases rule: process_step_kinds; use idle in simp)+
    show ?thesis
    proof (cases "world p = world ?p")
      case True
      from process_alone[OF p same(1) this same(2)] show ?thesis by blast
    next
      case False
      obtain k where k: "world p = snd (refreshOnce (d_scheduler d) k (world ?p))"
        using process_step_world[OF p] False by blast
      have "world ?p = Some (state_of ?s)" using D(4) by (simp add: in_step_def)
      with k obtain envs where "refresh (d_scheduler d) = refresh_call mmdb_open envs"
          "snd (refreshOnce (d_scheduler d) k (Some (state_of ?s))) = world p" using D(6) by auto
      from refreshOnce_Refresh[OF this] obtain oc err st where
        "world p = Some st" "Refresh mmdb_open (envs k) (state_of ?s) = Some ((oc, err), st)" by blast
      from refresh_ends[OF p same this(2,1)] show ?thesis by blast
    qed
  qed
qed

lemma whole_ending_step:
  assumes "whole_step mmdb_open ctx (d_server d) add_cron (d_scheduler d) a w w'" "whole_ending mmdb_open ctx add_cron d w"
  shows "whole_ending mmdb_open ctx add_cron d w'"
proof -
  have "ending (process_of w')"
    using whole_step_process[OF assms(1)] ending_step whole_endingD(1,5)[OF assms(2)] by metis
  then show ?thesis using assms(2) whole_inv_step[OF assms(1)] by (simp add: whole_ending_def)
qed

interpretation whole_run: finishing "whole_step mmdb_open ctx (d_server d) add_cron (d_scheduler d) Program"
  "whole_ending mmdb_open ctx add_cron d" whole_left "\<lambda>w. \<exists>c. main_at (process_of w) = Exited c"
  for mmdb_open ctx add_cron d
proof
  fix w w'
  assume inv: "whole_ending mmdb_open ctx add_cron d w"
    and step: "whole_step mmdb_open ctx (d_server d) add_cron (d_scheduler d) Program w w'"
  show "whole_left w' < whole_left w" by (rule whole_left_decreases[OF step inv])
  show "whole_ending mmdb_open ctx add_cron d w'" by (rule whole_ending_step[OF step inv])
next
  fix w
  assume "whole_ending mmdb_open ctx add_cron d w" "\<nexists>c. main_at (process_of w) = Exited c"
  then show "\<exists>w'. whole_step mmdb_open ctx (d_server d) add_cron (d_scheduler d) Program w w'"
    by (rule whole_goes_on)
qed

lemma whole_left_bound:
  assumes "whole_ending mmdb_open ctx add_cron d w"
  shows "whole_left w \<le> 40 + 18 * in_flight (process_of w) + conns (process_of w)"
proof -
  note D = whole_endingD[OF assms]
  let ?s = "server_of w"
  obtain h where h: "beats ?s = (if beat_at (process_of w) = In_heartbeat then {h} else {})"
    using D(4) by (auto simp: in_step_def)
  have "card (beats ?s) \<le> 1" by (simp add: h)
  then have "card (busy ?s) \<le> in_flight (process_of w) + 1"
    using card_Un_le[of "holding ?s" "beats ?s"] D(4) by (simp add: busy_parts in_step_def)
  moreover have "total_work ?s \<le> 16 * card (busy ?s)" by (rule total_work_bound[OF D(2)])
  moreover note effort_bound[of "process_of w"]
  ultimately show ?thesis by (simp add: whole_left_def)
qed

text \<open>Nothing failed yet: neither the listener nor the deadline of \<open>Shutdown\<close> gave an error.\<close>

definition unfailed :: "'s process \<Rightarrow> bool" where
  "unfailed p \<longleftrightarrow> errCh p \<in> {None, Some None}
     \<and> (case main_at p of
          Leaving e \<Rightarrow> e = None
        | Cancelling e \<Rightarrow> e = None
        | Waiting_all e \<Rightarrow> e = None
        | Finishing e \<Rightarrow> e = None
        | Exited c \<Rightarrow> c = 0
        | _ \<Rightarrow> True)"

lemma unfailed_step:
  assumes "process_step sv add_cron sch Program p p'" "unfailed p"
  shows "unfailed p'"
  using assms(1)
proof (cases rule: process_step.cases)
  case in_run
  then show ?thesis using assms(2) by (cases rule: run_move.cases) (simp_all add: unfailed_def)
next
  case in_main
  then show ?thesis using assms(2)
    by (cases rule: main_move.cases) (simp_all add: unfailed_def run_result_def run_end_def main_exit_def)
next
  case in_listener
  from in_listener(2) show ?thesis using assms(2)
    by (cases rule: listener_move.cases) (simp_all add: unfailed_def listen_result_ok)
next
  case in_beat
  from in_beat(2) show ?thesis using assms(2) by (cases rule: beat_move.cases) (simp_all add: unfailed_def)
next
  case in_sched
  from in_sched(2) show ?thesis using assms(2)
    by (cases rule: sched_move.cases) (simp_all add: unfailed_def works_def)
qed

lemma unfailed_run:
  "(whole_step mmdb_open ctx sv add_cron sch Program ^^ n) w w' \<Longrightarrow> unfailed (process_of w) \<Longrightarrow> unfailed (process_of w')"
proof (induction n arbitrary: w')
  case (Suc n)
  then obtain v where v: "unfailed (process_of v)" "whole_step mmdb_open ctx sv add_cron sch Program v w'" by auto
  then show ?case using whole_step_process[OF v(2)] unfailed_step by metis
qed simp

lemma unfailed_exit: "unfailed p \<Longrightarrow> main_at p = Exited c \<Longrightarrow> c = 0"
  by (simp add: unfailed_def)

text \<open>
  A run in which the world goes on: \<open>p\<close> steps of the program, \<open>q\<close> of the world (requests,
  connections, ticks, timers, signals), and whether one of those was a failure: the deadline of
  \<open>Shutdown\<close>, or the listener's.
\<close>

definition failing :: "'s process \<Rightarrow> 's process \<Rightarrow> bool" where
  "failing p p' \<longleftrightarrow> main_at p = Shutting_down \<and> main_at p' \<noteq> Shutting_down
     \<or> listener_at p \<noteq> Listener_done \<and> listener_at p' = Listener_done"

inductive mixed_run ::
  "mmdb_open \<Rightarrow> ctx \<Rightarrow> (string \<Rightarrow> go_error option) \<Rightarrow> daemon \<Rightarrow> whole \<Rightarrow> nat \<Rightarrow> nat \<Rightarrow> bool \<Rightarrow> whole \<Rightarrow> bool"
  for mmdb_open ctx add_cron d w where
  begins: "mixed_run mmdb_open ctx add_cron d w 0 0 False w"
| program: "mixed_run mmdb_open ctx add_cron d w p q f v \<Longrightarrow>
    whole_step mmdb_open ctx (d_server d) add_cron (d_scheduler d) Program v w' \<Longrightarrow>
    mixed_run mmdb_open ctx add_cron d w (Suc p) q f w'"
| environment: "mixed_run mmdb_open ctx add_cron d w p q f v \<Longrightarrow>
    whole_step mmdb_open ctx (d_server d) add_cron (d_scheduler d) World v w' \<Longrightarrow>
    mixed_run mmdb_open ctx add_cron d w p (Suc q) (f \<or> failing (process_of v) (process_of w')) w'"

lemma unfailed_world:
  assumes "process_step sv add_cron sch World p p'" "unfailed p" "\<not> failing p p'"
  shows "unfailed p'"
  using assms(1)
proof (cases rule: process_step.cases)
  case in_run
  then show ?thesis using assms(2,3) by (cases rule: run_move.cases) (simp_all add: failing_def)
next
  case in_main
  then show ?thesis by (cases rule: main_move.cases)
next
  case in_listener
  from in_listener(2) show ?thesis using assms(2,3)
    by (cases rule: listener_move.cases) (auto simp: failing_def unfailed_def)
next
  case in_beat
  from in_beat(2) show ?thesis using assms(2) by (cases rule: beat_move.cases) (simp_all add: unfailed_def)
next
  case in_sched
  from in_sched(2) show ?thesis using assms(2)
    by (cases rule: sched_move.cases) (simp_all add: unfailed_def works_def)
qed (use assms(2) in \<open>simp add: unfailed_def\<close>)

text \<open>What a step of the world adds to the work that is left.\<close>

lemma effort_world:
  assumes "process_step sv add_cron sch World p p'"
  shows "effort p' \<le> effort p + 2"
  using assms
proof (cases rule: process_step.cases)
  case in_run
  then show ?thesis by (cases rule: run_move.cases) (simp_all add: effort_def)
next
  case in_main
  then show ?thesis by (cases rule: main_move.cases)
next
  case in_listener
  from in_listener(2) show ?thesis by (cases rule: listener_move.cases) (auto simp: effort_def)
next
  case in_beat
  from in_beat(2) show ?thesis by (cases rule: beat_move.cases) (simp_all add: effort_def)
next
  case in_sched
  from in_sched(2) show ?thesis by (cases rule: sched_move.cases) (simp_all add: effort_def works_def)
qed (simp add: effort_def)

lemma total_work_new:
  assumes "phases s i = Free" "finite (busy s)" "work s' i \<le> 16"
    and "\<And>j. j \<noteq> i \<Longrightarrow> work s' j = work s j \<and> phases s' j = phases s j"
  shows "total_work s' \<le> total_work s + 16"
proof -
  have i: "i \<notin> busy s" using assms(1) by (simp add: busy_def)
  have "busy s' \<subseteq> insert i (busy s)" using assms(4) by (auto simp: busy_def)
  then have "total_work s' \<le> sum (work s') (insert i (busy s))"
    unfolding total_work_def using assms(2) by (intro sum_mono2) auto
  also have "\<dots> = work s' i + sum (work s') (busy s)" using i assms(2) by simp
  also have "sum (work s') (busy s) = total_work s"
    unfolding total_work_def by (rule sum.cong[OF refl]) (use i assms(4) in metis)
  finally show ?thesis using assms(3) by simp
qed

lemma world_adds:
  assumes "whole_step mmdb_open ctx (d_server d) add_cron (d_scheduler d) World w w'"
    and "whole_ending mmdb_open ctx add_cron d w"
  shows "whole_left w' \<le> whole_left w + 18"
proof -
  note D = whole_endingD[OF assms(2)]
  note quiet = sys_inv_quiet[OF D(2)]
  have effort: "effort p \<le> effort (process_of w) + 2"
    if "process_step (d_server d) add_cron (d_scheduler d) World (process_of w) p" for p
    by (rule effort_world[OF that])
  from assms(1) show ?thesis
  proof (cases rule: whole_step.cases)
    case (process_alone p)
    then show ?thesis using effort[of p] by (simp add: whole_left_def)
  next
    case (refresh_ends p env oc err st)
    have "total_work (refreshed oc st (server_of w)) = total_work (server_of w)"
      by (simp add: total_work_def busy_def work_def)
    then show ?thesis using refresh_ends effort[of p] by (simp add: whole_left_def)
  next
    case (accepts p i r)
    have "total_work (moves i (Arrived r (length (history (server_of w)))) (server_of w)) \<le> total_work (server_of w) + 16"
      by (rule total_work_new[OF accepts(4) D(3)])
        (use quiet[of i] accepts(4) in \<open>simp_all add: work_def returned_def\<close>)
    then show ?thesis using accepts effort[of p] by (simp add: whole_left_def)
  next
    case (heartbeat_begins p i)
    have "total_work (loads i Beating (server_of w)) \<le> total_work (server_of w) + 16"
      by (rule total_work_new[OF heartbeat_begins(5) D(3)]) (simp_all add: work_def loads_def)
    then show ?thesis using heartbeat_begins effort[of p] by (simp add: whole_left_def)
  qed
qed

lemma mixed_run_bounded:
  assumes "mixed_run mmdb_open ctx add_cron d w p q f w'" "whole_ending mmdb_open ctx add_cron d w"
  shows "whole_ending mmdb_open ctx add_cron d w' \<and> p + whole_left w' \<le> whole_left w + 18 * q"
  using assms(1)
proof (induction rule: mixed_run.induct)
  case (program p q f v w')
  then show ?case using whole_left_decreases[OF program(2)] whole_ending_step[OF program(2)] by fastforce
next
  case (environment p q f v w')
  then show ?case using world_adds[OF environment(2)] whole_ending_step[OF environment(2)] by fastforce
qed (use assms(2) in simp)

lemma mixed_run_unfailed:
  "mixed_run mmdb_open ctx add_cron d w p q f w' \<Longrightarrow> unfailed (process_of w) \<Longrightarrow> \<not> f \<Longrightarrow> unfailed (process_of w')"
proof (induction rule: mixed_run.induct)
  case (program p q f v w')
  then show ?case using whole_step_process[OF program(2)] unfailed_step by metis
next
  case (environment p q f v w')
  then show ?case using whole_step_process[OF environment(2)] unfailed_world by metis
qed

text \<open>
  C12 (liveness). The whole program ends when it is told to. After a signal or a failure of the
  listener, with any number of requests in flight and of open connections, a heartbeat under way
  and a refresh running, its goroutines never block each other: while the process has not exited,
  one of them can take a step, whatever the world did in between, and without more from the world
  it exits. They take at most 40 steps, 18 for each request in flight, one for each other
  connection, and 18 for each step that the world takes meanwhile (a request on an open
  connection, a tick, a timer). The status is 0 when no error was on its way at the signal, and
  neither the deadline of \<open>Shutdown\<close> nor the listener failed after it.
\<close>

theorem whole_program_exits:
  assumes "start_daemon mmdb_open envs env args F = Some (Inr d)" "reachable_whole mmdb_open ctx add_cron d w"
    and "signalled (process_of w) \<or> listener_at (process_of w) = Listener_done"
  shows "(\<exists>n w' c. (whole_step mmdb_open ctx (d_server d) add_cron (d_scheduler d) Program ^^ n) w w'
        \<and> main_at (process_of w') = Exited c)
    \<and> (\<forall>p q f w'. mixed_run mmdb_open ctx add_cron d w p q f w' \<longrightarrow>
        p \<le> 40 + 18 * in_flight (process_of w) + conns (process_of w) + 18 * q
        \<and> ((\<exists>c. main_at (process_of w') = Exited c)
           \<or> (\<exists>w''. whole_step mmdb_open ctx (d_server d) add_cron (d_scheduler d) Program w' w''))
        \<and> (unfailed (process_of w) \<and> \<not> f \<longrightarrow> (\<forall>c. main_at (process_of w') = Exited c \<longrightarrow> c = 0)))"
proof -
  have e: "whole_ending mmdb_open ctx add_cron d w"
    using reachable_whole_inv[OF assms(1,2)] assms(1,3) by (auto simp: whole_ending_def started_def ending_def)
  have "p \<le> 40 + 18 * in_flight (process_of w) + conns (process_of w) + 18 * q
      \<and> ((\<exists>c. main_at (process_of w') = Exited c)
         \<or> (\<exists>w''. whole_step mmdb_open ctx (d_server d) add_cron (d_scheduler d) Program w' w''))
      \<and> (unfailed (process_of w) \<and> \<not> f \<longrightarrow> (\<forall>c. main_at (process_of w') = Exited c \<longrightarrow> c = 0))"
    if run: "mixed_run mmdb_open ctx add_cron d w p q f w'" for p q f w'
    using mixed_run_bounded[OF run e] whole_left_bound[OF e] whole_goes_on[of mmdb_open ctx add_cron d w']
      mixed_run_unfailed[OF run] unfailed_exit[of "process_of w'"] by fastforce
  then show ?thesis using whole_run.finishes[OF e] by blast
qed

section \<open>Witnesses\<close>

text \<open>A run with a request accepted and a signal received.\<close>

lemma sample_whole:
  obtains d w where "start_daemon sample_mmdb (\<lambda>_. answering 200) sample_start [] Map.empty = Some (Inr d)"
    "reachable_whole sample_mmdb Background (\<lambda>_. None) d w" "signalled (process_of w)" "unfailed (process_of w)"
    "accepted w = [sample_request]" "in_flight (process_of w) = 1" "conns (process_of w) = 0"
proof -
  obtain d where d: "start_daemon sample_mmdb (\<lambda>_. answering 200) sample_start [] Map.empty = Some (Inr d)"
    by (rule sample_system)
  let ?step = "whole_step sample_mmdb Background (d_server d) (\<lambda>_. None) (d_scheduler d)"
  let ?p0 = "start_process (Some (d_state d)) :: refresher option process"
  let ?p1 = "?p0\<lparr>main_at := Selecting, beat_at := Await_tick, listener_at := Announcing_addr\<rparr>"
  let ?p2 = "?p1\<lparr>listener_at := Binding,
         printed := printed ?p1 @ emitted (logger_of (d_server d))
           [logged Info ''server: listening'' [(''addr'', AStr (addr_of (d_server d)))]]\<rparr>"
  let ?p3 = "?p2\<lparr>listener_at := Listening\<rparr>"
  let ?c3 = "?p3\<lparr>conns := Suc (conns ?p3)\<rparr>"
  let ?p4 = "?c3\<lparr>conns := 0, in_flight := Suc (in_flight ?c3)\<rparr>"
  let ?p5 = "?p4\<lparr>signalled := True\<rparr>"
  let ?w1 = "\<lparr>process_of = ?p1, server_of = start_system 1 d, accepted = []\<rparr>"
  let ?w2 = "?w1\<lparr>process_of := ?p2\<rparr>"
  let ?w3 = "?w2\<lparr>process_of := ?p3\<rparr>"
  let ?v3 = "?w3\<lparr>process_of := ?c3\<rparr>"
  let ?w4 = "?v3\<lparr>process_of := ?p4, server_of := moves 0 (Arrived sample_request (length (history (server_of ?v3)))) (server_of ?v3),
         accepted := accepted ?v3 @ [sample_request]\<rparr>"
  let ?w5 = "?w4\<lparr>process_of := ?p5\<rparr>"
  have 1: "reachable_whole sample_mmdb Background (\<lambda>_. None) d ?w1"
    using reachable_whole.start[OF reachable_process.start _ _ observed, where st = "d_state d" and now = 1,
        of d sample_mmdb Background "\<lambda>_. None"]
    by (simp add: start_process_def)
  let ?run = "process_step (d_server d) (\<lambda>_. None) (d_scheduler d)"
  have "?run Program ?p1 ?p2" by (rule in_listener[OF _ listening]) (simp_all add: start_process_def)
  then have 2: "?step Program ?w1 ?w2" by (intro process_alone) simp_all
  have "?run Program ?p2 ?p3" by (rule in_listener[OF _ bind]) (simp_all add: start_process_def)
  then have 3: "?step Program ?w2 ?w3" by (intro process_alone) simp_all
  have "?run World ?p3 ?c3" by (rule in_listener[OF _ connect]) (simp_all add: start_process_def)
  then have c: "?step World ?w3 ?v3" by (intro process_alone) simp_all
  have "?run World ?c3 ?p4" by (rule in_listener[OF _ accept]) (simp_all add: start_process_def)
  moreover have "phases (server_of ?v3) 0 = Free" by (simp add: start_system_def split: prod.splits)
  ultimately have 4: "?step World ?v3 ?w4" by (intro accepts) simp_all
  have "?run World ?p4 ?p5" by (rule signal) (simp add: start_process_def)
  then have 5: "?step World ?w4 ?w5" by (intro process_alone) simp_all
  have r: "reachable_whole sample_mmdb Background (\<lambda>_. None) d ?w5"
    by (rule reachable_whole.go[OF reachable_whole.go[OF reachable_whole.go[OF reachable_whole.go[OF reachable_whole.go[OF 1 2] 3] c] 4] 5])
  show thesis
    by (rule that[OF d r]) (simp_all add: start_process_def unfailed_def)
qed

lemma reachable_whole_run:
  "(whole_step mmdb_open ctx (d_server d) add_cron (d_scheduler d) Program ^^ n) w w' \<Longrightarrow>
     reachable_whole mmdb_open ctx add_cron d w \<Longrightarrow> reachable_whole mmdb_open ctx add_cron d w'"
  by (induction n arbitrary: w') (auto intro: reachable_whole.go)

lemma mixed_run_program:
  "(whole_step mmdb_open ctx (d_server d) add_cron (d_scheduler d) Program ^^ n) w w' \<Longrightarrow>
     mixed_run mmdb_open ctx add_cron d w n 0 False w'"
  by (induction n arbitrary: w') (auto intro: mixed_run.intros)

theorem whole_program_exits_witness:
  "\<exists>d w n w'. start_daemon sample_mmdb (\<lambda>_. answering 200) sample_start [] Map.empty = Some (Inr d)
    \<and> reachable_whole sample_mmdb Background (\<lambda>_. None) d w \<and> accepted w = [sample_request]
    \<and> (whole_step sample_mmdb Background (d_server d) (\<lambda>_. None) (d_scheduler d) Program ^^ n) w w'
    \<and> main_at (process_of w') = Exited 0 \<and> n \<le> 58"
proof -
  obtain d w where d: "start_daemon sample_mmdb (\<lambda>_. answering 200) sample_start [] Map.empty = Some (Inr d)"
    and w: "reachable_whole sample_mmdb Background (\<lambda>_. None) d w" "signalled (process_of w)" "unfailed (process_of w)"
      "accepted w = [sample_request]" "in_flight (process_of w) = 1" "conns (process_of w) = 0"
    by (rule sample_whole)
  have "signalled (process_of w) \<or> listener_at (process_of w) = Listener_done" using w(2) by simp
  note E = whole_program_exits[OF d w(1) this, unfolded w(5,6)]
  from E obtain n w' c where n: "(whole_step sample_mmdb Background (d_server d) (\<lambda>_. None) (d_scheduler d) Program ^^ n) w w'"
    "main_at (process_of w') = Exited c" by blast
  note run = mixed_run_program[OF n(1)]
  have "c = 0" using E run n(2) w(3) by blast
  have "n \<le> 40 + 18 * 1 + 0 + 18 * 0" using E run by blast
  with \<open>c = 0\<close> d w n show ?thesis by force
qed

lemma accepted_run:
  "(whole_step mmdb_open ctx sv add_cron sch Program ^^ n) w w' \<Longrightarrow> accepted w' = accepted w"
proof (induction n arbitrary: w')
  case (Suc n)
  then obtain v where v: "accepted v = accepted w" "whole_step mmdb_open ctx sv add_cron sch Program v w'" by auto
  from v(2) show ?case by (cases rule: whole_step.cases) (simp_all add: v(1))
qed simp

theorem graceful_exit_answers_all_witness:
  "\<exists>d w. start_daemon sample_mmdb (\<lambda>_. answering 200) sample_start [] Map.empty = Some (Inr d)
    \<and> reachable_whole sample_mmdb Background (\<lambda>_. None) d w \<and> main_at (process_of w) = Exited 0
    \<and> accepted w = [sample_request] \<and> map fst (answers (server_of w)) = [sample_request]"
proof -
  obtain d v where d: "start_daemon sample_mmdb (\<lambda>_. answering 200) sample_start [] Map.empty = Some (Inr d)"
    and v: "reachable_whole sample_mmdb Background (\<lambda>_. None) d v" "signalled (process_of v)" "unfailed (process_of v)"
      "accepted v = [sample_request]"
    by (rule sample_whole)
  have "whole_ending sample_mmdb Background (\<lambda>_. None) d v"
    using reachable_whole_inv[OF d v(1)] d v(2) by (auto simp: whole_ending_def started_def ending_def)
  from whole_run.finishes[OF this] obtain n w c where
    n: "(whole_step sample_mmdb Background (d_server d) (\<lambda>_. None) (d_scheduler d) Program ^^ n) v w"
    and c: "main_at (process_of w) = Exited c" by blast
  have w: "reachable_whole sample_mmdb Background (\<lambda>_. None) d w" by (rule reachable_whole_run[OF n v(1)])
  have e: "main_at (process_of w) = Exited 0" using unfailed_exit[OF unfailed_run[OF n v(3)] c] c by simp
  have a: "accepted w = [sample_request]" using accepted_run[OF n] v(4) by simp
  from graceful_exit_answers_all[OF d w e] have "mset (map fst (answers (server_of w))) = {#sample_request#}"
    by (simp add: a)
  then have "map fst (answers (server_of w)) = [sample_request]" by (metis mset_single_iff)
  with d w e a show ?thesis by (intro exI[of _ d] exI[of _ w] conjI)
qed

end
