(* ===== verification/Alone.thy ===== *)
theory Alone
  imports Progress
begin

text \<open>
  One request that nobody interrupts: whatever order its steps allow, it comes to its answer, and
  then it has done what the handler is modelled to do in one step.
\<close>

section \<open>A call of observe\<close>

text \<open>The tracker after the latch, and the records and the tracker of a change of state.\<close>

definition latched :: "lookup option \<Rightarrow> readiness \<Rightarrow> readiness" where
  "latched l t = (if usable l \<and> \<not> everReady t then t\<lparr>everReady := True\<rparr> else t)"

definition switched :: "instant \<Rightarrow> lookup option \<Rightarrow> readiness \<Rightarrow> log_record list \<times> readiness" where
  "switched now l t = (if usable l then emitRecovered now l t else emitUnusable now t)"

lemma observe_latched:
  "observe now l t =
     (if r_usable (latched l t) = usable l then (usable l, [], latched l t)
      else (usable l, fst (switched now l (latched l t)),
        (snd (switched now l (latched l t)))\<lparr>r_usable := usable l\<rparr>))"
  by (simp add: observe_def latched_def switched_def Let_def split: prod.split)

text \<open>
  Where a call of \<open>observe\<close> stands that began on the tracker \<open>t0\<close> with the records \<open>o0\<close> and that
  nobody interrupts; \<open>Idle\<close> is its return.
\<close>

fun midway :: "nat \<Rightarrow> lookup option \<Rightarrow> readiness \<Rightarrow> log_record list \<Rightarrow> tracker \<Rightarrow> place \<Rightarrow> bool" where
  "midway i l t0 o0 t (Entered l') \<longleftrightarrow> l' = l \<and> shared t = t0 \<and> holder t = None \<and> out t = o0"
| "midway i l t0 o0 t (Latching l') \<longleftrightarrow> l' = l \<and> shared t = t0 \<and> holder t = None \<and> out t = o0
     \<and> usable l \<and> \<not> everReady t0"
| "midway i l t0 o0 t (Testing l') \<longleftrightarrow> l' = l \<and> shared t = latched l t0 \<and> holder t = None \<and> out t = o0"
| "midway i l t0 o0 t (Waiting l') \<longleftrightarrow> l' = l \<and> shared t = latched l t0 \<and> holder t = None \<and> out t = o0
     \<and> r_usable (latched l t0) \<noteq> usable l"
| "midway i l t0 o0 t (Locked l') \<longleftrightarrow> l' = l \<and> shared t = latched l t0 \<and> holder t = Some i \<and> out t = o0
     \<and> r_usable (latched l t0) \<noteq> usable l"
| "midway i l t0 o0 t (Opening l') \<longleftrightarrow> l' = l \<and> holder t = Some i \<and> out t = o0
     \<and> r_usable (latched l t0) \<noteq> usable l \<and> \<not> usable l
     \<and> (\<exists>now. shared t = (latched l t0)\<lparr>unusableSince := unix_nano now\<rparr>)"
| "midway i l t0 o0 t (Clearing l') \<longleftrightarrow> l' = l \<and> holder t = Some i \<and> out t = o0
     \<and> r_usable (latched l t0) \<noteq> usable l \<and> \<not> usable l
     \<and> (\<exists>now. shared t = (latched l t0)\<lparr>unusableSince := unix_nano now,
          failOpenAtWindowStart := failOpenTotal (latched l t0)\<rparr>)"
| "midway i l t0 o0 t (Composing l') \<longleftrightarrow> l' = l \<and> holder t = Some i \<and> out t = o0
     \<and> r_usable (latched l t0) \<noteq> usable l \<and> \<not> usable l
     \<and> (\<exists>now. shared t = snd (switched now l (latched l t0)))"
| "midway i l t0 o0 t (Closing l' r) \<longleftrightarrow> l' = l \<and> holder t = Some i \<and> out t = o0
     \<and> r_usable (latched l t0) \<noteq> usable l \<and> usable l
     \<and> shared t = latched l t0 \<and> (\<exists>now. fst (switched now l (latched l t0)) = [r])"
| "midway i l t0 o0 t (Announcing l' r) \<longleftrightarrow> l' = l \<and> holder t = Some i \<and> out t = o0
     \<and> r_usable (latched l t0) \<noteq> usable l \<and> (\<exists>now. switched now l (latched l t0) = ([r], shared t))"
| "midway i l t0 o0 t (Signalled l') \<longleftrightarrow> l' = l \<and> holder t = Some i
     \<and> r_usable (latched l t0) \<noteq> usable l
     \<and> (\<exists>now r. switched now l (latched l t0) = ([r], shared t) \<and> out t = o0 @ [r])"
| "midway i l t0 o0 t Idle \<longleftrightarrow> holder t = None
     \<and> (\<exists>now sig. observe now l t0 = (usable l, sig, shared t) \<and> out t = o0 @ sig)"
| "midway i l t0 o0 t _ \<longleftrightarrow> False"

lemma midway_step:
  assumes "observe_step i t t'" "midway i l t0 o0 t (places t i)" "places t i \<noteq> Idle"
  shows "midway i l t0 o0 t' (places t' i)"
  using assms
proof (induction rule: observe_step.induct)
  case (see_ever s l')
  then show ?case by (simp add: latched_def)
next
  case (latch s l')
  then show ?case by (simp add: latched_def)
next
  case (test s l')
  then show ?case by (simp add: observe_latched)
next
  case (recover s l' now r)
  then show ?case by (auto simp: switched_def)
next
  case (close_window s l' r)
  then obtain now where "fst (switched now l (latched l t0)) = [r]" by auto
  then have "switched now l (latched l t0) = ([r], (latched l t0)\<lparr>unusableSince := 0\<rparr>)"
    using close_window by (simp add: switched_def emitRecovered_def Let_def)
  then show ?case using close_window by auto
next
  case (clear_since s l')
  then obtain now where "shared s = (latched l t0)\<lparr>unusableSince := unix_nano now,
      failOpenAtWindowStart := failOpenTotal (latched l t0)\<rparr>" by auto
  then have "(shared s)\<lparr>failOpenSinceHeartbeat := 0\<rparr> = snd (switched now l (latched l t0))"
    using clear_since by (simp add: switched_def emitUnusable_def Let_def)
  then show ?case using clear_since by auto
next
  case (compose s l')
  then obtain now where now: "shared s = snd (switched now l (latched l t0))" by auto
  have "switched now l (latched l t0) = ([logged Error (unusable_msg (shared s))
      [(''startup_mode'', AStr (r_mode (shared s))), (''ever_ready'', ABool (everReady (shared s))),
       (''serving'', AStr (serving (shared s) False))]], shared s)"
    using compose unfolding now by (simp add: switched_def emitUnusable_def Let_def)
  then show ?case using compose by auto
next
  case (store s l')
  then obtain now r where "switched now l (latched l t0) = ([r], shared s)" "out s = o0 @ [r]" by auto
  then have "observe now l t0 = (usable l, [r], (shared s)\<lparr>r_usable := usable l\<rparr>)" "out s = o0 @ [r]"
    using store by (simp_all add: observe_latched)
  then show ?case using store by auto
qed auto

lemma midway_free:
  assumes "midway i l t0 o0 t (places t i)" "places t i = Waiting l'"
  shows "holder t = None"
  using assms by simp

section \<open>The request\<close>

text \<open>
  What the request has done when it is over: the handler's response, tracker and lines, with the
  records of the tracker and the lines of the context's logger kept apart.
\<close>

definition as_handled :: "ctx \<Rightarrow> system \<Rightarrow> request \<Rightarrow> nat \<Rightarrow> system \<Rightarrow> bool" where
  "as_handled ctx s0 r k s \<longleftrightarrow>
     (\<exists>now resp ls t sig ms.
        handleCheck (sys_server s0) (withRequestLogger (sys_server s0) ctx) now
          (newLookupSource (active (state_of s0))) r (shared (tracker_of s0)) = Some (resp, ls, t)
        \<and> answers s = answers s0 @ [(r, k, length (history s0), resp)] \<and> shared (tracker_of s) = t
        \<and> out (tracker_of s) = out (tracker_of s0) @ sig \<and> lines s = lines s0 @ ms
        \<and> emitted (logger_of (sys_server s0)) sig @ ms = ls)"

definition allowing_inv :: "nat \<Rightarrow> lookup option \<Rightarrow> tracker \<Rightarrow> tracker \<Rightarrow> bool" where
  "allowing_inv i l t0 t \<longleftrightarrow> \<not> usable l \<and>
     (\<exists>now sig t1. observe now l (shared t0) = (False, sig, t1) \<and> failOpen t1 \<and> out t = out t0 @ sig
        \<and> (places t i = Counting \<and> shared t = t1\<lparr>failOpenTotal := failOpenTotal t1 + 1\<rparr>
           \<or> places t i = Idle \<and> shared t = countFailOpenAllow t1))"

text \<open>What holds at every point of the request, which began in \<open>s0\<close>.\<close>

definition alone_inv :: "nat \<Rightarrow> ctx \<Rightarrow> system \<Rightarrow> request \<Rightarrow> nat \<Rightarrow> system \<Rightarrow> bool" where
  "alone_inv i ctx s0 r k s \<longleftrightarrow>
     sys_server s = sys_server s0 \<and> state_of s = state_of s0 \<and> history s = history s0 \<and>
     (let c = Current (active (state_of s0)) in
      (s = s0 \<and> phases s i = Arrived r k
       \<or> phases s i = Checking r k c \<and> answers s = answers s0 \<and> lines s = lines s0
         \<and> midway i (seen c) (shared (tracker_of s0)) (out (tracker_of s0)) (tracker_of s) (places (tracker_of s) i)
       \<or> phases s i = Allowing r k c \<and> answers s = answers s0 \<and> lines s = lines s0
         \<and> allowing_inv i (seen c) (tracker_of s0) (tracker_of s)
       \<or> phases s i = Free \<and> as_handled ctx s0 r k s))"

lemma as_handledI:
  assumes "handleCheck (sys_server s0) (withRequestLogger (sys_server s0) ctx) now
      (newLookupSource (active (state_of s0))) r (shared (tracker_of s0))
        = Some (resp, emitted (logger_of (sys_server s0)) sig @ ms, shared (tracker_of s))"
    and "answers s = answers s0 @ [(r, k, length (history s0), resp)]"
    and "out (tracker_of s) = out (tracker_of s0) @ sig" "lines s = lines s0 @ ms"
  shows "as_handled ctx s0 r k s"
  unfolding as_handled_def using assms by blast

lemma alone_decided:
  assumes "http_method r = ''GET''" "newLookupSource (active (state_of s0)) = l" "usable l"
    and "midway i l (shared (tracker_of s0)) (out (tracker_of s0)) t Idle"
    and "check_verdict (sys_server s0) l r = Some (resp, ms)"
    and "answers s = answers s0 @ [(r, k, length (history s0), resp)]" "tracker_of s = t"
    and "lines s = lines s0 @ emitted (FromContext (withRequestLogger (sys_server s0) ctx)) ms"
  shows "as_handled ctx s0 r k s"
proof -
  obtain now sig where o: "observe now l (shared (tracker_of s0)) = (usable l, sig, shared t)" "out t = out (tracker_of s0) @ sig"
    using assms(4) by auto
  show ?thesis
    by (rule as_handledI[where now = now and sig = sig])
      (simp_all add: assms handleCheck_verdict[OF assms(1) o(1)] o)
qed

lemma alone_denied:
  assumes "http_method r = ''GET''" "newLookupSource (active (state_of s0)) = l" "\<not> usable l"
    and "midway i l (shared (tracker_of s0)) (out (tracker_of s0)) t Idle" "\<not> failOpen (shared t)"
    and "answers s = answers s0 @ [(r, k, length (history s0), write_header (blockStatus (sys_server s0)))]"
    and "tracker_of s = t" "lines s = lines s0"
  shows "as_handled ctx s0 r k s"
proof -
  obtain now sig where o: "observe now l (shared (tracker_of s0)) = (usable l, sig, shared t)" "out t = out (tracker_of s0) @ sig"
    using assms(4) by auto
  show ?thesis
    by (rule as_handledI[where now = now and sig = sig])
      (simp_all add: assms handleCheck_verdict[OF assms(1) o(1)] o)
qed

lemma alone_allowed:
  assumes "http_method r = ''GET''" "newLookupSource (active (state_of s0)) = l"
    and "allowing_inv i l (tracker_of s0) t" "places t i = Idle"
    and "answers s = answers s0 @ [(r, k, length (history s0), write_header 200)]"
    and "tracker_of s = t" "lines s = lines s0"
  shows "as_handled ctx s0 r k s"
proof -
  obtain now sig t1 where o: "observe now l (shared (tracker_of s0)) = (False, sig, t1)" "out t = out (tracker_of s0) @ sig"
      "failOpen t1" "shared t = countFailOpenAllow t1"
    using assms(3,4) by (auto simp: allowing_inv_def)
  show ?thesis
    by (rule as_handledI[where now = now and sig = sig])
      (simp_all add: assms handleCheck_verdict[OF assms(1) o(1)] o)
qed

section \<open>Every step of it\<close>

lemma alone_step_index:
  assumes "alone_step mmdb_open ctx i s s'" "phases s' j \<noteq> phases s j \<or> places (tracker_of s') j \<noteq> places (tracker_of s) j"
  shows "j = i"
  using assms by (auto simp: alone_step_def)

text \<open>What a goroutine does alone is the step of its own phase or of its own place.\<close>

lemma alone_cases:
  assumes "alone_step mmdb_open ctx i s s'"
  obtains (track) t where "\<not> returned s i" "observe_step i (tracker_of s) t" "s' = s\<lparr>tracker_of := t\<rparr>"
    | (load) r k where "phases s i = Arrived r k" "mux_route r = Check" "http_method r = ''GET''"
      "s' = loads i (Checking r k) s"
    | (deny) r k c where "phases s i = Checking r k c" "returned s i" "\<not> usable (seen c)"
      "\<not> failOpen (shared (tracker_of s))" "s' = responds i r k (write_header (blockStatus (sys_server s))) s"
    | (allow) r k c t where "phases s i = Checking r k c" "returned s i" "\<not> usable (seen c)"
      "failOpen (shared (tracker_of s))" "observe_step i (tracker_of s) t" "places t i = Counting"
      "s' = (moves i (Allowing r k c) s)\<lparr>tracker_of := t\<rparr>"
    | (allowed) r k c where "phases s i = Allowing r k c" "returned s i" "s' = responds i r k (write_header 200) s"
    | (decide) r k c resp ls where "phases s i = Checking r k c" "returned s i" "usable (seen c)"
      "check_verdict (sys_server s) (seen c) r = Some (resp, ls)"
      "s' = (responds i r k resp s)
        \<lparr>lines := lines s @ emitted (FromContext (withRequestLogger (sys_server s) ctx)) ls\<rparr>"
    | (other) "\<And>r k. phases s i = Arrived r k \<Longrightarrow> mux_route r \<noteq> Check \<or> http_method r \<noteq> ''GET''"
      "\<And>r k c. phases s i \<noteq> Checking r k c" "\<And>r k c. phases s i \<noteq> Allowing r k c"
proof -
  have step: "sys_step mmdb_open ctx s s'" and keep: "pending s' = pending s"
      "\<And>j. phases s j = Free \<Longrightarrow> phases s' j = Free"
    using assms by (auto simp: alone_step_def serving_step_def)
  have index: "phases s' j \<noteq> phases s j \<Longrightarrow> j = i" for j using alone_step_index[OF assms] by blast
  from step show thesis
  proof (cases rule: sys_step.cases)
    case (track j t)
    then have "places (tracker_of s') j \<noteq> places (tracker_of s) j"
      using observe_step_rank[OF track(4)] by (auto simp: returned_def)
    then have "j = i" using alone_step_index[OF assms] by blast
    then show ?thesis using that(1) track by blast
  next
    case (check_load j r k)
    then have "j = i" by (intro index) (simp add: loads_keeps)
    then show ?thesis using that(2) check_load by blast
  next
    case (deny j r k c)
    then have "j = i" by (intro index) (simp add: responds_keeps)
    then show ?thesis using that(3) deny by blast
  next
    case (allow j r k c t)
    then have "j = i" by (intro index) simp
    then show ?thesis using that(4) allow by blast
  next
    case (allowed j r k c)
    then have "j = i" by (intro index) (simp add: responds_keeps)
    then show ?thesis using that(5) allowed by blast
  next
    case (decide j r k c resp ls)
    then have "j = i" by (intro index) (simp add: responds_keeps)
    then show ?thesis using that(6) decide by blast
  next
    case (arrive j r)
    then show ?thesis using keep(2)[of j] by simp
  next
    case (tick j)
    then show ?thesis using keep(2)[of j] by (simp add: loads_keeps)
  next
    case (elsewhere j r k)
    then show ?thesis using index[of j] that(7) by (simp add: responds_keeps)
  next
    case (redirect j r k p)
    then show ?thesis using index[of j] that(7) by (simp add: responds_keeps)
  next
    case (asterisk j r k)
    then show ?thesis using index[of j] that(7) by (simp add: responds_keeps)
  next
    case (refuse j r k)
    then show ?thesis using index[of j] that(7) by (simp add: responds_keeps)
  next
    case (probe_load j r k)
    then show ?thesis using index[of j] that(7) by (simp add: loads_keeps)
  next
    case (probe_usable j r k c)
    then show ?thesis using index[of j] that(7) by (simp add: responds_keeps)
  next
    case (probe_since j r k c now)
    then show ?thesis using index[of j] that(7) by simp
  next
    case (probe_unusable j r k c n)
    then show ?thesis using index[of j] that(7) by (simp add: responds_keeps)
  next
    case (beat_quiet j c)
    then show ?thesis using index[of j] that(7) by simp
  next
    case (beat_report j c t e)
    then show ?thesis using index[of j] that(7) by simp
  next
    case (beat_done j)
    then show ?thesis using index[of j] that(7) by simp
  qed (use keep(1) in simp_all)
qed

lemma allowing_step:
  assumes "observe_step i t t'" "allowing_inv i l t0 t" "places t i \<noteq> Idle"
  shows "allowing_inv i l t0 t'"
proof -
  obtain now sig t1 where o: "\<not> usable l" "observe now l (shared t0) = (False, sig, t1)" "failOpen t1" "out t = out t0 @ sig"
      "places t i = Counting" "shared t = t1\<lparr>failOpenTotal := failOpenTotal t1 + 1\<rparr>"
    using assms(2,3) by (auto simp: allowing_inv_def)
  then have "t' = at i Idle (t\<lparr>shared := countFailOpenAllow t1\<rparr>)"
    using assms(1) by (auto simp: countFailOpenAllow_def elim!: observe_step.cases)
  with o show ?thesis by (auto simp: allowing_inv_def)
qed

lemma allowing_starts:
  assumes "places t i = Idle" "observe_step i t t'" "places t' i = Counting" "\<not> usable l" "failOpen (shared t)"
    and "midway i l (shared t0) (out t0) t Idle"
  shows "allowing_inv i l t0 t'"
proof -
  obtain now sig where "observe now l (shared t0) = (False, sig, shared t)" "out t = out t0 @ sig"
    using assms(4,6) by auto
  moreover have "shared t' = (shared t)\<lparr>failOpenTotal := failOpenTotal (shared t) + 1\<rparr>" "out t' = out t"
    using assms(1-3) by (auto elim!: observe_step.cases)
  ultimately show ?thesis using assms(3-5) by (auto simp: allowing_inv_def)
qed

lemma lines_moves: "lines (moves i p s) = lines s"
  by (simp add: moves_def)

lemma alone_inv_step:
  assumes "alone_step mmdb_open ctx i s s'" "alone_inv i ctx s0 r k s" "sys_inv d s"
    and "mux_route r = Check" "http_method r = ''GET''" "holder (tracker_of s0) = None"
  shows "alone_inv i ctx s0 r k s'"
proof -
  let ?l = "seen (Current (active (state_of s0)))"
  have l: "newLookupSource (active (state_of s0)) = ?l" by (rule newLookupSource_seen)
  have same: "sys_server s = sys_server s0" "state_of s = state_of s0" "history s = history s0"
    using assms(2) by (simp_all add: alone_inv_def)
  have quiet: "\<not> returned s i \<Longrightarrow> \<not> quiet (phases s i)" using sys_inv_quiet[OF assms(3)] by blast
  have busy: "phases s i \<noteq> Free" using assms(1) by (simp add: alone_step_def)
  have checked: "c = Current (active (state_of s0))" "r' = r" "k' = k" "answers s = answers s0" "lines s = lines s0"
      "midway i ?l (shared (tracker_of s0)) (out (tracker_of s0)) (tracker_of s) Idle"
    if "phases s i = Checking r' k' c" "returned s i" for r' k' c
    using assms(2) that by (auto simp: alone_inv_def Let_def returned_def)
  from assms(1) show ?thesis
  proof (cases rule: alone_cases)
    case (track t)
    have "midway i ?l (shared (tracker_of s0)) (out (tracker_of s0)) t (places t i)"
      if "midway i ?l (shared (tracker_of s0)) (out (tracker_of s0)) (tracker_of s) (places (tracker_of s) i)"
      using midway_step[OF track(2) that] track(1) by (simp add: returned_def)
    moreover have "allowing_inv i ?l (tracker_of s0) t" if "allowing_inv i ?l (tracker_of s0) (tracker_of s)"
      using allowing_step[OF track(2) that] track(1) by (simp add: returned_def)
    ultimately show ?thesis using assms(2) track quiet by (auto simp: alone_inv_def Let_def)
  next
    case (load r' k')
    then show ?thesis using assms(2,6) same by (auto simp: alone_inv_def Let_def loads_def l lines_moves)
  next
    case (deny r' k' c)
    note c = checked[OF deny(1,2)]
    have "as_handled ctx s0 r k s'"
      by (rule alone_denied[OF assms(5) l _ c(6)]) (use deny c same in \<open>simp_all add: responds_def lines_moves\<close>)
    then show ?thesis using deny(5) same by (simp add: alone_inv_def responds_def)
  next
    case (allow r' k' c t)
    note c = checked[OF allow(1,2)]
    show ?thesis using allow same c allowing_starts[of "tracker_of s" i t ?l "tracker_of s0"]
      by (simp add: alone_inv_def returned_def lines_moves)
  next
    case (allowed r' k' c)
    have c: "r' = r" "k' = k" "answers s = answers s0" "lines s = lines s0"
        "allowing_inv i ?l (tracker_of s0) (tracker_of s)"
      using assms(2) allowed(1) by (auto simp: alone_inv_def Let_def)
    have "as_handled ctx s0 r k s'"
      by (rule alone_allowed[OF assms(5) l c(5)]) (use allowed c same in \<open>simp_all add: responds_def lines_moves returned_def\<close>)
    then show ?thesis using allowed(3) same by (simp add: alone_inv_def responds_def)
  next
    case (decide r' k' c resp ls)
    note c = checked[OF decide(1,2)]
    have "as_handled ctx s0 r k s'"
      by (rule alone_decided[OF assms(5) l _ c(6), of resp ls]) (use decide c same in \<open>simp_all add: responds_def\<close>)
    then show ?thesis using decide(5) same by (simp add: alone_inv_def responds_def)
  next
    case other
    then show ?thesis using assms(2,4,5) busy by (auto simp: alone_inv_def Let_def)
  qed
qed

lemma alone_goes_on:
  assumes "sys_inv d s" "alone_inv i ctx s0 r k s" "phases s i \<noteq> Free"
  shows "\<exists>s'. alone_step mmdb_open ctx i s s'"
proof (cases "returned s i")
  case True
  then show ?thesis by (rule phase_goes_on[OF assms(1,3)])
next
  case False
  have "holder (tracker_of s) = None" if "places (tracker_of s) i = Waiting l" for l
    using assms(2) that False sys_inv_quiet[OF assms(1), of i]
    by (auto simp: alone_inv_def Let_def allowing_inv_def)
  then obtain t where "observe_step i (tracker_of s) t"
    using tracker_goes_on[of "tracker_of s" i] False by (auto simp: returned_def)
  then show ?thesis
    using observe_step_others track[OF assms(3) False] assms(3)
    by (intro exI[of _ "s\<lparr>tracker_of := t\<rparr>"] alone_stepI) auto
qed

interpretation alone_run: finishing "alone_step mmdb_open ctx i"
  "\<lambda>s. sys_inv d s \<and> alone_inv i ctx s0 r k s \<and> mux_route r = Check \<and> http_method r = ''GET'' \<and> holder (tracker_of s0) = None"
  "\<lambda>s. work s i" "\<lambda>s. phases s i = Free" for mmdb_open ctx i d s0 r k
proof
  fix s s'
  assume inv: "sys_inv d s \<and> alone_inv i ctx s0 r k s \<and> mux_route r = Check \<and> http_method r = ''GET'' \<and> holder (tracker_of s0) = None"
    and step: "alone_step mmdb_open ctx i s s'"
  then have serving: "serving_step mmdb_open ctx s s'" by (simp add: alone_step_def)
  show "sys_inv d s' \<and> alone_inv i ctx s0 r k s' \<and> mux_route r = Check \<and> http_method r = ''GET'' \<and> holder (tracker_of s0) = None"
    using alone_inv_step[OF step, of s0 r k d] inv serving sys_step_inv[of mmdb_open ctx s s' d] by (simp add: serving_step_def)
  obtain j where j: "lessens j s s'" using serving_lessens[OF serving] inv by blast
  have "work s' x = work s x" if "x \<noteq> i" for x
    using step that by (simp add: work_def alone_step_def)
  with j have "j = i" unfolding lessens_def by (metis less_irrefl)
  with j show "work s' i < work s i" by (simp add: lessens_def)
next
  fix s
  assume "sys_inv d s \<and> alone_inv i ctx s0 r k s \<and> mux_route r = Check \<and> http_method r = ''GET'' \<and> holder (tracker_of s0) = None"
    and "phases s i \<noteq> Free"
  then show "\<exists>s'. alone_step mmdb_open ctx i s s'" using alone_goes_on by blast
qed

text \<open>
  C20 (refinement). A check that is not interrupted, with the mutex free, does in its own steps what the
  handler is modelled to do in one: every run of them goes on until the answer, after at most 14
  steps, and every one that ends has given the handler's response for some reading of the clock, has
  left the handler's tracker, and has written the handler's lines, the tracker's through the server's
  logger and its own through the logger of the context.
\<close>

theorem check_alone:
  assumes "start_daemon mmdb_open envs env args F = Some (Inr d)" "reachable_system mmdb_open ctx d s"
    and "phases s i = Arrived r k" "mux_route r = Check" "http_method r = ''GET''"
    and "holder (tracker_of s) = None"
  shows "(\<exists>n s'. (alone_step mmdb_open ctx i ^^ n) s s' \<and> phases s' i = Free)
    \<and> (\<forall>n s'. (alone_step mmdb_open ctx i ^^ n) s s' \<longrightarrow>
         n \<le> 14 \<and> (phases s' i \<noteq> Free \<longrightarrow> (\<exists>s''. alone_step mmdb_open ctx i s' s''))
         \<and> (phases s' i = Free \<longrightarrow>
              (\<exists>now resp ls t sig ms.
                 handleCheck (sys_server s) (withRequestLogger (sys_server s) ctx) now
                   (newLookupSource (active (state_of s))) r (shared (tracker_of s)) = Some (resp, ls, t)
                 \<and> answers s' = answers s @ [(r, k, length (history s), resp)] \<and> shared (tracker_of s') = t
                 \<and> out (tracker_of s') = out (tracker_of s) @ sig \<and> lines s' = lines s @ ms
                 \<and> emitted (logger_of (sys_server s)) sig @ ms = ls)))"
proof -
  have sys: "sys_inv d s" by (rule reachable_sys_inv[OF assms(1,2)])
  have inv: "sys_inv d s \<and> alone_inv i ctx s r k s \<and> mux_route r = Check \<and> http_method r = ''GET'' \<and> holder (tracker_of s) = None"
    using assms sys by (simp add: alone_inv_def)
  have "work s i \<le> 14" using sys_inv_quiet[OF sys, of i] assms(3) by (simp add: work_def returned_def)
  from alone_run.must_finish[OF inv this]
  have run: "(\<exists>n s'. (alone_step mmdb_open ctx i ^^ n) s s' \<and> phases s' i = Free)
      \<and> (\<forall>n s'. (alone_step mmdb_open ctx i ^^ n) s s' \<longrightarrow>
           n \<le> 14 \<and> (phases s' i = Free \<or> (\<exists>s''. alone_step mmdb_open ctx i s' s'')))" .
  have "as_handled ctx s r k s'" if "(alone_step mmdb_open ctx i ^^ n) s s'" "phases s' i = Free" for n s'
    using alone_run.run_bounded[OF that(1) inv] that(2) by (auto simp: alone_inv_def Let_def assms(3))
  with run show ?thesis unfolding as_handled_def by blast
qed

theorem check_alone_witness:
  "\<exists>d s n s' resp. reachable_system sample_mmdb Background d s \<and> phases s 0 = Arrived sample_request 1
     \<and> (alone_step sample_mmdb Background 0 ^^ n) s s' \<and> n \<le> 14 \<and> phases s' 0 = Free
     \<and> answers s = [] \<and> answers s' = [(sample_request, 1, 1, resp)]"
proof -
  obtain d r t where d: "start_daemon sample_mmdb (\<lambda>_. answering 200) sample_start [] Map.empty = Some (Inr d)"
      "start_system 1 d = \<lparr>sys_server = d_server d,
         tracker_of = \<lparr>shared = t, holder = None, places = (\<lambda>_. Idle), out = [r]\<rparr>,
         state_of = d_state d, pending = None, history = [None], phases = (\<lambda>_. Free), answers = [], lines = []\<rparr>"
    by (rule sample_system)
  let ?s = "moves 0 (Arrived sample_request (length (history (start_system 1 d)))) (start_system 1 d)"
  have s: "reachable_system sample_mmdb Background d ?s"
    by (rule sample_arrives[OF reachable_start]) (simp add: d(2))
  have f: "phases ?s 0 = Arrived sample_request 1" "holder (tracker_of ?s) = None" "answers ?s = []"
      "length (history ?s) = 1" by (simp_all add: d(2))
  from check_alone[OF d(1) s f(1) sample_routes f(2)] obtain n s' where
    n: "(alone_step sample_mmdb Background 0 ^^ n) ?s s'" "phases s' 0 = Free" by blast
  with check_alone[OF d(1) s f(1) sample_routes f(2)] obtain resp where
    "n \<le> 14" "answers s' = answers ?s @ [(sample_request, 1, length (history ?s), resp)]" by blast
  with s f n show ?thesis by (metis append_Nil)
qed

end
