(* ===== verification/Privacy.thy ===== *)
theory Privacy
  imports Daemon_Correct
begin

text \<open>
  What the log tells of the clients (\<open>handleCheck\<close> of \<open>server.go\<close> with \<open>Redact\<close> of \<open>logging.go\<close>):
  two runs whose requests look alike after redaction, and that give the same answers, write the
  same log.
\<close>

section \<open>The view of an observer\<close>

text \<open>
  What may be known of a client: four bytes of the digest of its address, and without an address
  which of the two headers are there. It is stated with the digest itself, whatever \<open>Redact\<close> does.
\<close>

definition address_digest :: "addr \<Rightarrow> u8 list" where
  "address_digest a = take 4 (sha256 (string_bytes (addr_string a)))"

definition client_view :: "request \<Rightarrow> bool \<times> bool + u8 list" where
  "client_view r =
     (case extractClientIP (headers r) of
        None \<Rightarrow> Inl (header_get (headers r) headerXRealIP \<noteq> '''', header_get (headers r) headerXForwardedFor \<noteq> '''')
      | Some a \<Rightarrow> Inr (address_digest a))"

text \<open>Two requests with the same request line, and with clients of which the same may be known.\<close>

definition alike :: "request \<Rightarrow> request \<Rightarrow> bool" where
  "alike r r' \<longleftrightarrow> http_method r = http_method r' \<and> url_path r = url_path r' \<and> raw_query r = raw_query r'
     \<and> url_host r = url_host r' \<and> proto_1_1 r = proto_1_1 r' \<and> client_view r = client_view r'"

fun same_view :: "daemon_event \<Rightarrow> daemon_event \<Rightarrow> bool" where
  "same_view (On_request now now' r) e \<longleftrightarrow> (\<exists>r'. e = On_request now now' r' \<and> alike r r')"
| "same_view e e' \<longleftrightarrow> e = e'"

section \<open>Redaction\<close>

lemma join_nonempty: "length xs \<ge> 2 \<Longrightarrow> join_with c xs \<noteq> []"
  by (cases xs rule: remdups_adj.cases) simp_all

lemma addr_string_nonempty: "addr_string a \<noteq> []"
proof (cases a)
  case (Addr4 w)
  then show ?thesis by (simp add: ipv4_string_def join_nonempty)
next
  case (Addr6 w z)
  have "ipv6_string w \<noteq> []"
    by (simp add: ipv6_string_def colon_join_def join_nonempty ipv6_groups_of_def Let_def split: prod.split)
  then show ?thesis using Addr6 by simp
qed simp

text \<open>Addresses with the same digest are redacted alike.\<close>

lemma Redact_digest: "address_digest a = address_digest a' \<Longrightarrow> Redact (addr_string a) = Redact (addr_string a')"
  using redact_hides_value[of "addr_string a" "addr_string a'"] addr_string_nonempty
  by (simp add: address_digest_def)

section \<open>One request\<close>

text \<open>The check: the addresses may differ, but then the answers tell the same decision.\<close>

lemma handleCheck_alike:
  assumes "alike r r'" "blockStatus sv \<noteq> 200"
    and "handleCheck sv ctx now l r t = Some (resp, ls, t1)" "handleCheck sv ctx now l r' t = Some (resp, ls', t1')"
  shows "ls = ls' \<and> t1 = t1'"
proof (cases "extractClientIP (headers r)")
  case None
  then have v: "extractClientIP (headers r') = None"
      "header_get (headers r') headerXRealIP = [] \<longleftrightarrow> header_get (headers r) headerXRealIP = []"
      "header_get (headers r') headerXForwardedFor = [] \<longleftrightarrow> header_get (headers r) headerXForwardedFor = []"
    using assms(1) by (auto simp: alike_def client_view_def split: option.splits)
  have h: "http_method r' = http_method r" using assms(1) by (simp add: alike_def)
  have "handleCheck sv ctx now l r' t = handleCheck sv ctx now l r t"
    unfolding handleCheck_def v None h by (rule refl)
  with assms(3,4) show ?thesis by simp
next
  case (Some a)
  have view: "client_view r' = client_view r" using assms(1) by (simp add: alike_def)
  obtain a' where e: "extractClientIP (headers r') = Some a'"
    using view Some unfolding client_view_def by (cases "extractClientIP (headers r')") simp_all
  have "address_digest a = address_digest a'" using view by (simp add: client_view_def Some e)
  note a' = e Redact_digest[OF this]
  have "http_method r' = http_method r" using assms(1) by (simp add: alike_def)
  with Some a' assms(2-4) show ?thesis
    by (auto simp: handleCheck_def Let_def write_header_def split: prod.splits if_splits option.splits bool.splits)
qed

lemma Handler_alike:
  assumes "alike r r'" "blockStatus sv \<noteq> 200"
    and "Handler sv ctx now now' l r t = Some (resp, ls, t1)" "Handler sv ctx now now' l r' t = Some (resp, ls', t1')"
  shows "ls = ls' \<and> t1 = t1'"
proof -
  have line: "http_method r' = http_method r" "url_path r' = url_path r" "url_host r' = url_host r"
    using assms(1) by (simp_all add: alike_def)
  have m: "mux_route r' = mux_route r" "handleHealthz sv now now' l r' t = handleHealthz sv now now' l r t"
    unfolding mux_route_def handleHealthz_def line by (rule refl)+
  show ?thesis
  proof (cases "mux_route r")
    case Check
    then show ?thesis using assms(3,4) m(1) handleCheck_alike[OF assms(1,2)] by (simp add: Handler_def)
  qed (use assms(3,4) m in \<open>simp_all add: Handler_def\<close>)
qed

section \<open>A run\<close>

lemma daemon_step_length: "daemon_step mmdb_open ctx e d = Some (rs, d') \<Longrightarrow> length rs = (if is_On_request e then 1 else 0)"
  by (cases e) (auto split: option.splits prod.splits)

lemma daemon_step_same_view:
  assumes "same_view e e'" "daemon_wf d"
    and "daemon_step mmdb_open ctx e d = Some (rs, d1)" "daemon_step mmdb_open ctx e' d = Some (rs, d2)"
  shows "d1 = d2"
proof (cases e)
  case (On_request now now' r)
  then obtain r' where e': "e' = On_request now now' r'" "alike r r'" using assms(1) by auto
  have "blockStatus (d_server d) \<noteq> 200" using assms(2) by (auto simp: daemon_wf_def)
  from Handler_alike[OF e'(2) this] show ?thesis
    using assms(3,4) On_request e'(1) by (auto split: option.splits prod.splits)
qed (use assms(1,3,4) in simp_all)

lemma daemon_run_same_view:
  "list_all2 same_view es es' \<Longrightarrow> daemon_wf d \<Longrightarrow> daemon_run mmdb_open ctx es d = Some (rs, d1) \<Longrightarrow>
     daemon_run mmdb_open ctx es' d = Some (rs, d2) \<Longrightarrow> d1 = d2"
proof (induction arbitrary: d rs rule: list_all2_induct)
  case (Cons e es e' es')
  obtain a b u where s: "daemon_step mmdb_open ctx e d = Some (a, u)" "daemon_run mmdb_open ctx es u = Some (b, d1)" "rs = a @ b"
    using Cons.prems(2) by (auto split: option.splits prod.splits)
  obtain a' b' u' where s': "daemon_step mmdb_open ctx e' d = Some (a', u')" "daemon_run mmdb_open ctx es' u' = Some (b', d2)"
      "rs = a' @ b'"
    using Cons.prems(3) by (auto split: option.splits prod.splits)
  have "is_On_request e' \<longleftrightarrow> is_On_request e" using Cons.hyps(1) by (cases e) auto
  then have "length a = length a'" using daemon_step_length[OF s(1)] daemon_step_length[OF s'(1)] by simp
  then have ab: "a = a'" "b = b'" using s(3) s'(3) by simp_all
  have "u' = u" using daemon_step_same_view[OF Cons.hyps(1) Cons.prems(1) s(1)] s'(1) ab(1) by auto
  moreover have "daemon_wf u"
    using daemon_step_wf[OF Cons.prems(1), of mmdb_open ctx e] s(1) by auto
  ultimately show ?case using Cons.IH s(2) s'(2) ab(2) by simp
qed simp

text \<open>
  C19 (safety). The log keeps the clients' addresses to itself. Take two runs of the same daemon whose
  requests have the same request line, and clients that are alike: the same first four bytes of the
  SHA-256 digest of the address, or no usable address in either and the same of the two address
  headers present. If the answers are the same, both runs end in the same state, the log included
  line for line. So of a client an observer of the log learns these four bytes and the decision, or
  that there was no address and which of the headers were there, and nothing else that the headers
  say.
\<close>

theorem log_shows_redactions_only:
  assumes "start_daemon mmdb_open envs env args F = Some (Inr d)" "list_all2 same_view es es'"
    and "daemon_run mmdb_open ctx es d = Some (rs, d1)" "daemon_run mmdb_open ctx es' d = Some (rs, d2)"
  shows "d1 = d2"
  using daemon_run_same_view[OF assms(2) start_wf[OF assms(1)] assms(3,4)] by simp

text \<open>The same client behind a proxy header that the policy does not reach, and with a cookie.\<close>

definition sample_request' :: request where
  "sample_request' = sample_request\<lparr>headers := (headers sample_request)
     (''X-Forwarded-For'' \<mapsto> [''10.1.2.3''], ''Cookie'' \<mapsto> [''session=secret''])\<rparr>"

lemma sample_client': "extractClientIP (headers sample_request') = Some (Addr4 0xCB007107)"
proof -
  have "canonical_key headerXRealIP = ''X-Real-Ip''"
    by (simp add: canonical_key_def headerXRealIP_def ascii_upper_def ascii_lower_def char_of_def bit_0)
  then show ?thesis
    using entry_addr_ipv4[of 0 "0xCB007107" 0]
    by (simp add: sample_request'_def sample_request_def extractClientIP_eq header_get_def)
qed

lemma sample_alike: "alike sample_request sample_request'"
  using sample_client sample_client' by (simp add: alike_def client_view_def sample_request'_def)

theorem log_shows_redactions_only_witness:
  "\<exists>d rs d1 d2. start_daemon sample_mmdb (\<lambda>_. answering 200) sample_start [] Map.empty = Some (Inr d)
    \<and> daemon_run sample_mmdb Background [On_request 3 4 sample_request] d = Some (rs, d1)
    \<and> daemon_run sample_mmdb Background [On_request 3 4 sample_request'] d = Some (rs, d2)
    \<and> sample_request \<noteq> sample_request' \<and> d1 = d2"
proof -
  obtain d where d: "start_daemon sample_mmdb (\<lambda>_. answering 200) sample_start [] Map.empty = Some (Inr d)"
    using sample_started by blast
  have r: "url_path sample_request = ''/check''" "http_method sample_request = ''GET''"
      "url_path sample_request' = ''/check''" "http_method sample_request' = ''GET''"
    by (simp_all add: sample_request'_def sample_request_def)
  have a: "check_answer d sample_request' = check_answer d sample_request"
    by (simp only: check_answer_def sample_client sample_client')
  obtain d1 d2 where s: "daemon_step sample_mmdb Background (On_request 3 4 sample_request) d = Some ([check_answer d sample_request], d1)"
      "daemon_step sample_mmdb Background (On_request 3 4 sample_request') d = Some ([check_answer d sample_request], d2)"
    using daemon_check[OF start_wf[OF d] r(1,2)] daemon_check[OF start_wf[OF d] r(3,4)] a by metis
  have run: "daemon_run sample_mmdb Background [On_request 3 4 sample_request] d = Some ([check_answer d sample_request], d1)"
      "daemon_run sample_mmdb Background [On_request 3 4 sample_request'] d = Some ([check_answer d sample_request], d2)"
    using s by (simp_all del: daemon_step.simps)
  have v: "list_all2 same_view [On_request 3 4 sample_request] [On_request 3 4 sample_request']"
    using sample_alike by simp
  have "headers sample_request ''Cookie'' \<noteq> headers sample_request' ''Cookie''"
    by (simp add: sample_request'_def sample_request_def)
  then have "sample_request \<noteq> sample_request'" by auto
  with log_shows_redactions_only[OF d v run] d run show ?thesis by blast
qed

end
