(* ===== verification/Spec2Isabelle.thy ===== *)
theory Spec2Isabelle
  imports Whole_Correct Alone Privacy Source
begin

text \<open>
  BitBlocker is a daemon that answers the forwardAuth requests of a reverse proxy: a client whose
  address lies in a network of a blocked country is denied. This development models the Go code
  under \<open>src/internal\<close> and \<open>src/cmd/bitblocker\<close> and proves what each package promises and what
  the packages promise together.

  \<^bold>\<open>How the program fits together.\<close> \<open>main.go\<close> loads the configuration, builds the logger, tries the
  disk cache, and builds the server, the fetcher and the scheduler over one blocklist source. The
  scheduler calls the fetcher, first in a cold start with a bounded number of attempts and then on
  a cron schedule; a refresh downloads a database, writes it to the cache file, builds a trie from
  that file and swaps it into the source. The server reads the source once per request.

  \<^bold>\<open>The theories\<close>, in the order of their imports:
  \<^item> \<open>Prelude\<close>: machine types, Go errors with \<open>errors.Is\<close>, log records, shared lemmas.
  \<^item> \<open>Netip\<close>, \<open>Go_Text\<close>, \<open>Parse_Addr\<close>, \<open>Go_IO\<close>, \<open>Civil\<close>, \<open>Sha256\<close>: what the program uses of
    the standard library, namely addresses and prefixes on words, strings and durations,
    \<open>netip.ParseAddr\<close>, readers, paths, clocks and files, the calendar, and the digest.
  \<^item> \<open>Trie\<close>, \<open>Trie_Correct\<close> (\<open>blocklist/trie.go\<close>): insertion and lookup bit by bit; the trie
    refines a set of prefixes (locale \<open>prefix_set\<close>), and is determined by that set.
  \<^item> \<open>Source\<close> (\<open>blocklist/source.go\<close>): the atomic pointer (locale \<open>published\<close>).
  \<^item> \<open>Config\<close>, \<open>Config_Correct\<close> (\<open>config/config.go\<close>): records, defaults, validators, \<open>Load\<close>.
  \<^item> \<open>Client_IP\<close> (\<open>server/clientip.go\<close>): X-Real-IP, then the rightmost X-Forwarded-For entry.
  \<^item> \<open>Logging\<close> (\<open>logging/logging.go\<close>): levels, contexts, redaction.
  \<^item> \<open>Mmdb\<close> (\<open>mmdb/loader.go\<close>): from the networks of the database to a trie.
  \<^item> \<open>Diskcache\<close>, \<open>Diskcache_Correct\<close> (\<open>diskcache/cache.go\<close>): \<open>Write\<close> as its system calls over a
    file system with synced and unsynced bytes, \<open>Load\<close>; crash safety, where a crash may also lose
    a rename, since \<open>Write\<close> does not flush the directory; and the refinement of a
    store of one snapshot (locale \<open>snapshot_store\<close>).
  \<^item> \<open>Gzip\<close>, \<open>Gzip_Correct\<close>: the standard library's gzip reader, which the fetcher runs over an
    answer, down to the bits: header, DEFLATE with its three kinds of blocks, CRC-32, length and
    concatenated members; an encoder of stored blocks, and what a reader makes of a cut file.
  \<^item> \<open>Fetcher\<close>, \<open>Fetcher_Correct\<close> (\<open>fetcher/fetcher.go\<close>): months, conditional GET, bounded
    decompression, \<open>Refresh\<close>; what each outcome changes, and what a truncated body changes.
  \<^item> \<open>Scheduler\<close>, \<open>Scheduler_Correct\<close> (\<open>scheduler/scheduler.go\<close>): backoff on 64-bit durations, the
    cold-start loop, \<open>Run\<close>; the contract of a refresh is the locale \<open>refresh_contract\<close>.
  \<^item> \<open>Readiness\<close>, \<open>Readiness_Correct\<close> (\<open>server/readiness.go\<close>): the tracker as functions and as
    atomic steps of many goroutines; signals alternate, counts are exact, heartbeats are heard.
  \<^item> \<open>Mux\<close>: requests and responses, and what \<open>Handler\<close> of \<open>server/server.go\<close> uses of \<open>net/http\<close>: the
    routing of \<open>ServeMux\<close> for the two patterns, its redirects with their page, its error answers.
  \<^item> \<open>Server\<close>, \<open>Server_Correct\<close> (\<open>server/server.go\<close>): handlers, \<open>Run\<close>; the contract of a
    lookup is the locale \<open>lookup_contract\<close>, the specification the table \<open>allowed\<close>.
  \<^item> \<open>Daemon\<close>, \<open>Daemon_Correct\<close> (\<open>cmd/bitblocker/main.go\<close>): flags, start, wiring, and the running
    system as a sequence of requests, heartbeats and refreshes; both contracts are discharged here
    on the trie and on the fetcher.
  \<^item> \<open>Privacy\<close> (\<open>handleCheck\<close> with \<open>Redact\<close>): runs with the same request lines and the same
    digests of the client addresses, and that give the same answers, write the same log.
  \<^item> \<open>Concurrent\<close>, \<open>Concurrent_Correct\<close> (\<open>server.go\<close> and \<open>readiness.go\<close> under \<open>main.go\<close>): requests,
    probes, heartbeats and the refresher as goroutines that interleave access by access; each
    answer is one decision on one blocklist, and the values of the pointer are complete databases.
  \<^item> \<open>Lifecycle\<close>, \<open>Lifecycle_Correct\<close> (\<open>main.go\<close>, \<open>Run\<close> of \<open>server.go\<close> and of \<open>scheduler.go\<close>): the
    process from \<open>runComponents\<close> to its exit, with its contexts, channels and goroutines; it ends
    once it is told to, and leaves nothing running.
  \<^item> \<open>Steps\<close>: the contract of steps that lessen a measure and never stop before the end (locale
    \<open>finishing\<close>), from which follow that they end and within how many steps; it is discharged on
    the process, on the goroutines of the server, on one of them alone, and on the whole.
  \<^item> \<open>Progress\<close> (\<open>server.go\<close>, \<open>readiness.go\<close>): the goroutines of the server never block each other,
    and each takes a bounded number of steps.
  \<^item> \<open>Alone\<close> (\<open>handleCheck\<close>): every run of the steps of one check that nobody interrupts ends as
    the handler does that is modelled as one function.
  \<^item> \<open>Whole\<close>, \<open>Whole_Correct\<close> (\<open>runComponents\<close> with \<open>Run\<close> of \<open>server.go\<close>): the process and the
    server's goroutines in step with each other; a graceful exit answers every request that was
    accepted, and the whole program exits when it is told to.

  \<^bold>\<open>State and errors.\<close> A struct is a record, mutable state is passed and returned. A fallible Go
  function returns \<open>go_error + 'a\<close>; an outer \<open>option\<close> is a panic, which is proved away. A clock
  reading is an argument of the call that makes it. The loops are structural recursions; the cold
  start recurses on the attempts that the policy leaves, and the inflater on the bits that are
  left, so there is no fuel.

  \<^bold>\<open>Parameters.\<close> Not modelled, because they are not code of this repository, and therefore arguments:
  the YAML decoder, the cron parser and the cron's choice of ticks, the MMDB reader (the networks
  and records it yields, and its errors; an open may also fail for the moment, whatever the file
  holds), the network's answers, and the outcome of each system call. That \<open>os.CreateTemp\<close> picks an unused name is the hypothesis \<open>temp_fresh\<close>.

  \<^bold>\<open>Goroutines.\<close> They appear at several grains. \<open>daemon_run\<close> takes whole requests, heartbeats and
  refreshes one after the other. \<open>sys_step\<close> takes single accesses: a request loads the pointer,
  goes through the tracker step by step, and answers, while others do the same and a refresh, one
  at a time because of its mutex, makes its store. \<open>process_step\<close> has the goroutines of start and
  end instead: there a request is only counted, and a refresh is one call of the scheduler.
  \<open>whole_step\<close> couples these two: a request that the process counts is a goroutine of the server,
  the heartbeat is one too, and a refresh that the scheduler ends is the store to the pointer. In
  all of the last three any goroutine may take the next step, and a heartbeat, a request or a
  signal may come at any time. The scheduler starts before the server observes for the first time,
  so refreshes may have ended by then.

  \<^bold>\<open>Bounds.\<close> A server goroutine takes at most 16 steps, and a process that was told to end at most
  24, two for each request that it counts and one for each other connection; so the whole program
  exits within 40 steps of its own, 18 for each request in flight, one for each other connection,
  and 18 for each step that the environment takes meanwhile (a tick, a request, the end of a
  sleep), which need not happen.

  \<^bold>\<open>Crashes.\<close> \<open>crash_image\<close> says what a crash of the machine may leave: each name may be back at
  what it stood for in an earlier state, the bytes of a synced file are kept, others are arbitrary.

  \<^bold>\<open>Not modelled.\<close> Sockets, TLS, listener time-outs and the delivery of signals; what a \<open>slog\<close>
  handler prints (a log record is emitted or not); the drain of a body that is not read, which
  changes no state; the package documentation files.

  The theorems of this theory span the components: no panic, the decision table, no leak under
  fail-closed, from download to decision, restart, and what failures can and cannot do.
\<close>

section \<open>The daemon\<close>

text \<open>
  C18 (safety). A started daemon never panics: whatever requests, heartbeats and refreshes come, in
  any order and with any answers of the network, the disk and the database reader, the run goes on
  and every request gets exactly one response.
\<close>

theorem daemon_never_panics:
  assumes "start_daemon mmdb_open envs env args F = Some (Inr d)"
  shows "\<exists>rs d'. daemon_run mmdb_open ctx es d = Some (rs, d') \<and> length rs = length (filter is_On_request es)"
  using daemon_run_wf[OF start_wf[OF assms], of mmdb_open ctx es] by blast

theorem daemon_never_panics_witness:
  "\<exists>d rs d'. start_daemon sample_mmdb (\<lambda>_. answering 200) sample_start [] Map.empty = Some (Inr d)
    \<and> daemon_run sample_mmdb Background
        [On_tick 1 2, On_refresh (answering 200), On_request 3 4 \<lparr>http_method = ''GET'', url_path = ''/'', raw_query = [], url_host = [], proto_1_1 = True, headers = Map.empty\<rparr>] d
      = Some (rs, d') \<and> length rs = 1"
proof -
  obtain d where d: "start_daemon sample_mmdb (\<lambda>_. answering 200) sample_start [] Map.empty = Some (Inr d)"
    using sample_started by blast
  from daemon_never_panics[OF d, of Background "[On_tick 1 2, On_refresh (answering 200),
      On_request 3 4 \<lparr>http_method = ''GET'', url_path = ''/'', raw_query = [], url_host = [], proto_1_1 = True, headers = Map.empty\<rparr>]"] d
  show ?thesis by auto
qed



text \<open>
  C1 (refinement). Every GET of /check is answered by the abstract decision table on the trie that is
  active at that moment: without a usable blocklist the startup mode decides, with one only a known
  address that no prefix covers passes, and a denial has the configured status.
\<close>

theorem check_follows_decision_table:
  assumes "start_daemon mmdb_open envs env args F = Some (Inr d0)"
    and "daemon_run mmdb_open ctx es d0 = Some (rs, d)"
    and "url_path r = ''/check''" "http_method r = ''GET''"
  shows "\<exists>d'. daemon_step mmdb_open ctx (On_request now now' r) d
    = Some ([write_header (if allowed (r_mode (d_tracker d0) = StartupFailOpen)
                                 (map_option blocked (Current (active (d_state d)))) (extractClientIP (headers r))
                           then 200 else blockStatus (d_server d0))], d')"
proof -
  from daemon_run_wf[OF start_wf[OF assms(1)], of mmdb_open ctx es] assms(2)
  have "daemon_wf d" "d_server d = d_server d0" "r_mode (d_tracker d) = r_mode (d_tracker d0)" by auto
  then show ?thesis
    using daemon_check[of d r mmdb_open ctx now now'] assms(3,4) by (simp only: check_answer_def failOpen_def)
qed

theorem check_follows_decision_table_witness:
  "\<exists>d d'. start_daemon sample_mmdb (\<lambda>_. answering 200) sample_start [] Map.empty = Some (Inr d)
    \<and> daemon_step sample_mmdb Background (On_request 3 4 \<lparr>http_method = ''GET'', url_path = ''/check'', raw_query = [], url_host = [], proto_1_1 = True, headers = Map.empty\<rparr>) d
      = Some ([write_header 403], d')"
proof -
  obtain d where d: "start_daemon sample_mmdb (\<lambda>_. answering 200) sample_start [] Map.empty = Some (Inr d)"
      "Current (active (d_state d)) = None" "r_mode (d_tracker d) = StartupFailClosed" "blockStatus (d_server d) = 403"
    using sample_started by blast
  from check_follows_decision_table[OF d(1), of Background "[]" "[]" d
      "\<lparr>http_method = ''GET'', url_path = ''/check'', raw_query = [], url_host = [], proto_1_1 = True, headers = Map.empty\<rparr>" 3 4] d
  show ?thesis by (auto simp: allowed_def StartupFailClosed_def StartupFailOpen_def simp del: daemon_step.simps)
qed

text \<open>
  C5 (safety). A fail-closed daemon never lets a request through by default: a 200 on /check means
  that a non-empty blocklist was active, that the client address was known, and that the blocklist
  does not contain it, whatever happened since the start.
\<close>

theorem fail_closed_never_leaks:
  assumes "start_daemon mmdb_open envs env args F = Some (Inr d0)" "r_mode (d_tracker d0) = StartupFailClosed"
    and "daemon_run mmdb_open ctx es d0 = Some (rs, d)"
    and "url_path r = ''/check''" "http_method r = ''GET''"
    and "daemon_step mmdb_open ctx (On_request now now' r) d = Some ([resp], d')" "code resp = 200"
  shows "\<exists>t a. Current (active (d_state d)) = Some t \<and> 0 < Len t \<and> extractClientIP (headers r) = Some a
    \<and> Contains t a = Some False"
proof -
  have wf: "daemon_wf d" and m: "\<not> failOpen (d_tracker d)"
    using daemon_run_wf[OF start_wf[OF assms(1)], of mmdb_open ctx es] assms(2,3)
    by (auto simp: failOpen_def StartupFailOpen_def StartupFailClosed_def)
  then have "resp = check_answer d r"
    using daemon_check[OF wf assms(4,5), of mmdb_open ctx now now'] assms(6) by (auto simp del: daemon_step.simps)
  moreover have "blockStatus (d_server d) \<noteq> 200" using wf by (auto simp: daemon_wf_def)
  ultimately have "allowed False (map_option blocked (Current (active (d_state d)))) (extractClientIP (headers r))"
    using assms(7) m by (auto simp: check_answer_def write_header_def split: if_splits)
  then obtain t a where t: "Current (active (d_state d)) = Some t" "blocked t \<noteq> {}"
      "extractClientIP (headers r) = Some a" "a \<notin> blocked t"
    by (auto simp: allowed_def split: option.splits if_splits)
  moreover have "trie_wf t" using wf t(1) by (simp add: daemon_wf_def source_wf_def)
  ultimately show ?thesis
    using blocklist.mem_returns[of t a] blocklist.size_nonneg[of t] blocklist.size_zero[of t] by auto
qed

theorem fail_closed_never_leaks_witness:
  "\<exists>(d :: daemon) t. Current (active (d_state d)) = Some t \<and> 0 < Len t \<and> Contains t (Addr4 0xCB007107) = Some False"
proof -
  obtain d0 where d0: "start_daemon sample_mmdb (\<lambda>_. answering 200) sample_start [] Map.empty = Some (Inr d0)"
      "r_mode (d_tracker d0) = StartupFailClosed" "fsys (d_state d0) = Map.empty"
      "cachePath (fetcher_of (d_state d0)) = sample_cache_path" "fetcher.countries (fetcher_of (d_state d0)) = [''CN'']"
    using sample_started unfolding sample_cache_path_eq by metis
  obtain t st where st: "Refresh sample_mmdb (answering 200) (d_state d0) = Some ((OutcomeUpdated, None), st)"
      "Current (active st) = Some t" "blocked t = {ip. covers (prefix_from (Addr4 0x0A000000) 8) ip}"
    using sample_first_refresh[OF d0(4,5,3)] by blast
  let ?d = "d0\<lparr>d_state := st\<rparr>"
  have run: "daemon_run sample_mmdb Background [On_refresh (answering 200)] d0 = Some ([], ?d)"
    by (simp add: st(1))
  have wf: "daemon_wf ?d" using daemon_run_wf[OF start_wf[OF d0(1)], of sample_mmdb Background "[On_refresh (answering 200)]"] run by auto
  have r: "url_path sample_request = ''/check''" "http_method sample_request = ''GET''" by (simp_all add: sample_request_def)
  have "Addr4 0x0A000000 \<in> blocked t" using st(3) by (simp add: covers_def prefix_from_def addr_is_valid_def)
  then have "code (check_answer ?d sample_request) = 200"
    using st sample_client sample_client_outside by (auto simp: check_answer_def allowed_def write_header_def)
  moreover obtain d' where s: "daemon_step sample_mmdb Background (On_request 5 6 sample_request) ?d
      = Some ([check_answer ?d sample_request], d')"
    using daemon_check[OF wf r] by blast
  ultimately obtain t' a where t': "Current (active (d_state ?d)) = Some t'" "0 < Len t'"
      "extractClientIP (headers sample_request) = Some a" "Contains t' a = Some False"
    using fail_closed_never_leaks[OF d0(1,2) run r s] by blast
  have "a = Addr4 0xCB007107" using t'(3) unfolding sample_client by simp
  with t' show ?thesis by blast
qed

text \<open>
  C3 (functional). From download to decision: right after a refresh that updates, /check is decided
  by exactly the networks that the new database lists for the configured countries, and that
  database is the one in the cache file.
\<close>

theorem published_database_enforced:
  assumes "start_daemon mmdb_open envs env args F = Some (Inr d0)"
    and "daemon_run mmdb_open ctx es d0 = Some (rs, d)"
    and "Refresh mmdb_open renv (d_state d) = Some ((OutcomeUpdated, e), st)"
    and "temp_fresh (disk_calls renv) (cachePath (fetcher_of (d_state d))) (fsys (d_state d))"
    and "url_path r = ''/check''" "http_method r = ''GET''"
  shows "\<exists>body reader d'. fsys st (cachePath (fetcher_of (d_state d))) = Some (snapshot (disk_calls renv) body)
    \<and> mmdb_open (Some body) = Inr reader
    \<and> daemon_run mmdb_open ctx [On_refresh renv, On_request now now' r] d
      = Some ([write_header (if allowed (r_mode (d_tracker d0) = StartupFailOpen)
            (Some {ip. \<exists>q \<in> set (selected (fetcher.countries (fetcher_of (d_state d))) (networks reader)). covers q ip})
            (extractClientIP (headers r)) then 200 else blockStatus (d_server d0))], d')"
proof -
  have wf: "daemon_wf d" "d_server d = d_server d0" "r_mode (d_tracker d) = r_mode (d_tracker d0)"
    using daemon_run_wf[OF start_wf[OF assms(1)], of mmdb_open ctx es] assms(2) by auto
  let ?d = "d\<lparr>d_state := st\<rparr>"
  have wf': "daemon_wf ?d"
    using daemon_step_wf[OF wf(1), of mmdb_open ctx "On_refresh renv"] assms(3) by auto
  from Refresh_updated[OF assms(3,4)] obtain body t where
    b: "fsys st (cachePath (fetcher_of (d_state d))) = Some (snapshot (disk_calls renv) body)"
      "LoadCountryBlocklist mmdb_open (cachePath (fetcher_of (d_state d))) (Some body)
         (fetcher.countries (fetcher_of (d_state d))) = Some (Inr t)"
      "Current (active st) = Some t" by blast
  from load_blocked[OF b(2)] obtain reader where reader: "mmdb_open (Some body) = Inr reader"
      "blocked t = {ip. \<exists>q \<in> set (selected (fetcher.countries (fetcher_of (d_state d))) (networks reader)). covers q ip}"
    by blast
  obtain d' where s: "daemon_step mmdb_open ctx (On_request now now' r) ?d = Some ([check_answer ?d r], d')"
    using daemon_check[OF wf' assms(5,6)] by blast
  have "daemon_run mmdb_open ctx [On_refresh renv, On_request now now' r] d = Some ([check_answer ?d r], d')"
    using s by (simp add: assms(3) del: daemon_step.simps(1))
  moreover have "check_answer ?d r = write_header (if allowed (r_mode (d_tracker d0) = StartupFailOpen)
      (Some (blocked t)) (extractClientIP (headers r)) then 200 else blockStatus (d_server d0))"
    by (simp add: check_answer_def failOpen_def wf b(3))
  ultimately show ?thesis using b(1) reader by auto
qed

theorem published_database_enforced_witness:
  "\<exists>d rs d'. start_daemon sample_mmdb (\<lambda>_. answering 200) sample_start [] Map.empty = Some (Inr d)
    \<and> daemon_run sample_mmdb Background [On_refresh (answering 200), On_request 5 6 sample_request] d = Some (rs, d')
    \<and> length rs = 1"
proof -
  obtain d where d: "start_daemon sample_mmdb (\<lambda>_. answering 200) sample_start [] Map.empty = Some (Inr d)"
      "fsys (d_state d) = Map.empty" "cachePath (fetcher_of (d_state d)) = sample_cache_path"
      "fetcher.countries (fetcher_of (d_state d)) = [''CN'']"
    using sample_started unfolding sample_cache_path_eq by metis
  obtain t st where st: "Refresh sample_mmdb (answering 200) (d_state d) = Some ((OutcomeUpdated, None), st)"
    using sample_first_refresh[OF d(3,4,2)] by blast
  have fresh: "temp_fresh (disk_calls (answering 200)) (cachePath (fetcher_of (d_state d))) (fsys (d_state d))"
    using sample_cache_fresh by (simp add: d answering_def)
  have "daemon_run sample_mmdb Background [] d = Some ([], d)" by simp
  from published_database_enforced[OF d(1) this st fresh, of sample_request 5 6] d(1) show ?thesis
    by (force simp: sample_request_def)
qed

text \<open>What the source holds after the cache was tried: what the loader makes of a file that is fresh.\<close>

definition cached_trie :: "mmdb_open \<Rightarrow> Config \<Rightarrow> fs \<Rightarrow> trie option" where
  "cached_trie mmdb_open cfg G =
     (case G (cache_path (cache cfg)) of
        None \<Rightarrow> None
      | Some f \<Rightarrow>
          (case LoadCountryBlocklist mmdb_open (cache_path (cache cfg)) (Some (data f)) (BlockConfig.countries (block cfg)) of
             Some (Inr t) \<Rightarrow> Some t
           | _ \<Rightarrow> None))"

lemma loadDiskCache_cached:
  assumes "loadDiskCache mmdb_open env cfg NewSource G = Some (ls, src, G')"
    and "stat_fault env = None" "cache_fault env = None"
    and "\<forall>f. G (cache_path (cache cfg)) = Some f \<longrightarrow> start_time env - mtime f \<le> sint (max_age (cache cfg))"
  shows "Current src = cached_trie mmdb_open cfg G"
proof (cases "G (cache_path (cache cfg))")
  case None
  then show ?thesis using assms(1,2)
    by (auto simp: loadDiskCache_def cache_Load_def os_stat_def cached_trie_def NewSource_def Current_def)
next
  case (Some f)
  obtain x where x: "LoadCountryBlocklist mmdb_open (cache_path (cache cfg)) (Some (data f)) (BlockConfig.countries (block cfg)) = Some x"
    using LoadCountryBlocklist_returns by blast
  have "cache_Load (Open mmdb_open (cache_fault env)) (stat_fault env) G (cache_path (cache cfg)) (max_age (cache cfg))
      (start_time env) (BlockConfig.countries (block cfg))
        = Some (map_sum (Wrapf ''diskcache: load %q: %w'' [FStr (cache_path (cache cfg))]) (\<lambda>t. t) x)"
    using Some x assms(2-4) by (simp add: cache_Load_def os_stat_def time_sub_less split: sum.split)
  then show ?thesis using assms(1) Some x
    by (cases x) (auto simp: loadDiskCache_def cached_trie_def Let_def NewSource_def Swap_def Current_def
        split: if_splits prod.splits)
qed

text \<open>
  C16 (roundtrip). A restart takes up where the cache file stands. After an update, and after a crash
  of the machine at any later time, a daemon started from the same configuration within the age
  bound starts, before any network access, with the very trie that was published if the crash kept
  the rename (always, if only the process had ended); a crash that lost the rename, which is not
  flushed, brings back the file of an earlier state, or none, and the daemon starts with what the
  loader makes of that. \<open>Fs\<close> are the earlier states of the file system that the disk may still hold.
\<close>

theorem restart_resumes_blocklist:
  assumes "Refresh mmdb_open renv st0 = Some ((OutcomeUpdated, e), st)"
    and "temp_fresh (disk_calls renv) (cachePath (fetcher_of st0)) (fsys st0)"
    and "flag_parse default_config_path args = Inr path"
    and "Load (read_file env) (decode_yaml env) (parse_cron env) path = Inr cfg"
    and "cache_path (cache cfg) = cachePath (fetcher_of st0)"
    and "BlockConfig.countries (block cfg) = fetcher.countries (fetcher_of st0)"
    and "stat_fault env = None" "cache_fault env = None"
    and "\<forall>F \<in> set Fs. \<forall>f. F (cache_path (cache cfg)) = Some f \<longrightarrow> synced f"
    and "crash_image (fsys st # Fs) G"
    and "\<forall>f. G (cache_path (cache cfg)) = Some f \<longrightarrow> start_time env - mtime f \<le> sint (max_age (cache cfg))"
  shows "\<exists>d. start_daemon mmdb_open envs env args G = Some (Inr d)
    \<and> (map_option data (G (cache_path (cache cfg))) = map_option data (fsys st (cache_path (cache cfg)))
         \<and> Current (active (d_state d)) = Current (active st)
       \<or> (\<exists>F \<in> set Fs. map_option data (G (cache_path (cache cfg))) = map_option data (F (cache_path (cache cfg)))
           \<and> Current (active (d_state d)) = cached_trie mmdb_open cfg F))"
proof -
  let ?c = "cache_path (cache cfg)"
  from Refresh_updated[OF assms(1,2)] obtain body t where
    b: "fsys st ?c = Some (snapshot (disk_calls renv) body)"
      "LoadCountryBlocklist mmdb_open ?c (Some body) (BlockConfig.countries (block cfg)) = Some (Inr t)"
      "Current (active st) = Some t" unfolding assms(5,6) by blast
  have "BlockConfig.countries (block cfg) \<noteq> []" using b(2) by (auto simp: LoadCountryBlocklist_Inr_iff)
  with start_daemon_config[OF assms(3,4), of mmdb_open envs G] obtain d ls where
    d: "start_daemon mmdb_open envs env args G = Some (Inr d)"
      "loadDiskCache mmdb_open env cfg NewSource G = Some (ls, active (d_state d), fsys (d_state d))"
    by auto
  have now: "Current (active (d_state d)) = cached_trie mmdb_open cfg G"
    by (rule loadDiskCache_cached[OF d(2) assms(7,8,11)])
  have by_data: "cached_trie mmdb_open cfg G = cached_trie mmdb_open cfg F"
    if "map_option data (G ?c) = map_option data (F ?c)" for F
    using that by (cases "G ?c"; cases "F ?c") (simp_all add: cached_trie_def)
  have "cached_trie mmdb_open cfg (fsys st) = Current (active st)" using b by (simp add: cached_trie_def)
  moreover have "\<forall>F \<in> set (fsys st # Fs). \<forall>f. F ?c = Some f \<longrightarrow> synced f" using b(1) assms(9) by auto
  then obtain F where "F \<in> set (fsys st # Fs)" "map_option data (G ?c) = map_option data (F ?c)"
    using crash_image_data[OF assms(10)] by blast
  ultimately show ?thesis using d(1) now by_data[of F] by auto
qed

text \<open>The process ended and was started again; and the machine crashed and the rename was lost.\<close>

theorem restart_resumes_blocklist_witness:
  "\<exists>st G d d'. Refresh sample_mmdb (answering 200) st = Some ((OutcomeUpdated, None), G)
     \<and> start_daemon sample_mmdb (\<lambda>_. answering 503) sample_start [] (fsys G) = Some (Inr d)
     \<and> Current (active (d_state d)) = Current (active G)
     \<and> start_daemon sample_mmdb (\<lambda>_. answering 503) sample_start [] Map.empty = Some (Inr d')
     \<and> Current (active (d_state d')) = None"
proof -
  obtain d where d: "start_daemon sample_mmdb (\<lambda>_. answering 200) sample_start [] Map.empty = Some (Inr d)"
      "fsys (d_state d) = Map.empty" "cachePath (fetcher_of (d_state d)) = sample_cache_path"
      "fetcher.countries (fetcher_of (d_state d)) = [''CN'']"
    using sample_started unfolding sample_cache_path_eq by metis
  obtain t st where st: "Refresh sample_mmdb (answering 200) (d_state d) = Some ((OutcomeUpdated, None), st)"
    using sample_first_refresh[OF d(3,4,2)] by blast
  have fresh: "temp_fresh (disk_calls (answering 200)) (cachePath (fetcher_of (d_state d))) (fsys (d_state d))"
    using sample_cache_fresh by (simp add: d answering_def)
  obtain body where body: "fsys st sample_cache_path = Some (snapshot sample_env body)"
    using Refresh_updated[OF st fresh] d(3) by (auto simp: answering_def)
  have faults: "stat_fault sample_start = None" "cache_fault sample_start = None" by (simp_all add: sample_start_def)
  have same: "cache_path (cache sample_config) = cachePath (fetcher_of (d_state d))"
      "BlockConfig.countries (block sample_config) = fetcher.countries (fetcher_of (d_state d))"
    by (simp_all add: sample_cache_path_eq d) (simp add: sample_config_def)
  have age: "\<forall>f. fsys st (cache_path (cache sample_config)) = Some f \<longrightarrow>
      start_time sample_start - mtime f \<le> sint (max_age (cache sample_config))"
    by (simp add: sample_cache_path_eq body sample_start_def sample_env_def)
      (simp add: sample_config_def defaults_def)
  have id: "survives x x" for x by (cases x) simp_all
  note resume = restart_resumes_blocklist[OF st fresh sample_flags sample_Load same faults]
  have kept: "crash_image (fsys st # []) (fsys st)" using id by (simp add: crash_image_def)
  have 1: "\<exists>d'. start_daemon sample_mmdb (\<lambda>_. answering 503) sample_start [] (fsys st) = Some (Inr d')
      \<and> Current (active (d_state d')) = Current (active st)"
    using resume[OF _ kept age, of "\<lambda>_. answering 503"] by auto
  have lost: "crash_image (fsys st # [Map.empty]) Map.empty" by (simp add: crash_image_def)
  have 2: "\<exists>d'. start_daemon sample_mmdb (\<lambda>_. answering 503) sample_start [] Map.empty = Some (Inr d')
      \<and> Current (active (d_state d')) = None"
    using resume[OF _ lost, of "\<lambda>_. answering 503"] by (auto simp: sample_cache_path_eq body cached_trie_def)
  from 1 2 st show ?thesis by blast
qed

section \<open>Failures\<close>

text \<open>
  C17 (safety). A whole run of the scheduler in which no refresh succeeds, cold start and scheduled
  refreshes together, does not panic and leaves the active blocklist exactly as it was: an outage
  never takes a published blocklist away.
\<close>

theorem outage_keeps_blocklist:
  assumes "buildScheduler mmdb_open envs cfg = Inr sch" "source_wf (active st)"
    and "scheduler_Run add_cron sch cenv cancelled ticks (Some st) = (err, es, s')"
    and "Attempt None \<notin> set es"
  shows "\<exists>st'. s' = Some st' \<and> active st' = active st"
proof -
  have "refresh sch = refresh_call mmdb_open envs"
    using assms(1) by (auto simp: buildScheduler_def newScheduler_def split: if_splits)
  from daily.scheduler_Run_keeps[OF this _ assms(3)] assms(2,4)
  show ?thesis by (auto simp: state_wf_def)
qed

theorem outage_keeps_blocklist_witness:
  "\<exists>sch es s' st'. buildScheduler sample_mmdb (\<lambda>_. answering 503) sample_config = Inr sch
    \<and> scheduler_Run (\<lambda>_. None) sch \<lparr>ctx_done = (\<lambda>k. 0 < k), sleep_err = (\<lambda>_. None)\<rparr> True 0 (Some sample_refresher)
      = (None, es, s') \<and> s' = Some st' \<and> active st' = NewSource"
proof -
  obtain sch where sch: "buildScheduler sample_mmdb (\<lambda>_. answering 503) sample_config = Inr sch"
    using buildScheduler_config[OF sample_config_ok] by blast
  let ?cenv = "\<lparr>ctx_done = (\<lambda>k. 0 < k), sleep_err = (\<lambda>_. None)\<rparr>"
  have rf: "refresh sch = refresh_call sample_mmdb (\<lambda>_. answering 503)" "ready sch = blocklist_ready"
    using sch by (auto simp: buildScheduler_def newScheduler_def split: if_splits)
  have fail: "\<exists>e st'. refresh_call sample_mmdb (\<lambda>_. answering 503) d k (Some sample_refresher) = (Some e, Some st')" for d k
    by (simp add: refresh_call_def Refresh_def fetch_def get_def answering_def Let_def)
  obtain es s' where run: "scheduler_Run (\<lambda>_. None) sch ?cenv True 0 (Some sample_refresher) = (None, es, s')"
    by (cases "runColdStart sch ?cenv (Some sample_refresher)") (simp add: scheduler_Run_def)
  have stop: "cold_loop sch ?cenv (Suc 0) s = ([], s)" for s by (subst cold_loop.simps) simp
  have "Attempt None \<notin> set es"
    using run fail[of "timeout sch" 0] rf
    by (auto simp: scheduler_Run_def runColdStart_def cold_loop.simps[of _ _ 0] refreshOnce_def stop Let_def
        split: if_splits prod.splits)
  from outage_keeps_blocklist[OF sch _ run this] sch run show ?thesis
    by (force simp: sample_refresher_def)
qed

text \<open>
  C30 (error). Validation and the fetcher disagree on what must be configured. With an accepted
  configuration the daemon starts exactly when a country is listed; but a configuration that lists
  ASNs stays accepted when its countries are taken away, and is then refused by the fetcher.
\<close>

theorem start_needs_a_country:
  assumes "flag_parse default_config_path args = Inr path"
    and "Load (read_file env) (decode_yaml env) (parse_cron env) path = Inr cfg"
  shows "\<exists>res. start_daemon mmdb_open envs env args F = Some res
    \<and> (res = Inl (Wrapf ''fetcher: %w'' [] (New_error ''fetcher: Countries is required''))
         \<longleftrightarrow> BlockConfig.countries (block cfg) = [])
    \<and> ((\<exists>d. res = Inr d) \<longleftrightarrow> BlockConfig.countries (block cfg) \<noteq> [])
    \<and> (asns (block cfg) \<noteq> [] \<longrightarrow>
         Validate (parse_cron env) (cfg\<lparr>block := (block cfg)\<lparr>BlockConfig.countries := []\<rparr>\<rparr>) = None)"
proof -
  have "asns (block cfg) \<noteq> [] \<longrightarrow>
      Validate (parse_cron env) (cfg\<lparr>block := (block cfg)\<lparr>BlockConfig.countries := []\<rparr>\<rparr>) = None"
    using Load_ok[OF assms(2)] by (simp add: Validate_ok_iff config_ok_def)
  then show ?thesis using start_daemon_config[OF assms, of mmdb_open envs F]
    by (cases "BlockConfig.countries (block cfg) = []") auto
qed

text \<open>A configuration of ASNs alone: accepted by \<open>Load\<close>, refused at the start.\<close>

definition asn_config :: Config where
  "asn_config = sample_config\<lparr>block := \<lparr>BlockConfig.countries = [], asns = [64500]\<rparr>\<rparr>"

theorem start_needs_a_country_witness:
  "Load (read_file sample_start) (\<lambda>_ _. Inr asn_config) (\<lambda>_. None) default_config_path = Inr asn_config
   \<and> start_daemon sample_mmdb (\<lambda>_. answering 200) (sample_start\<lparr>decode_yaml := (\<lambda>_ _. Inr asn_config)\<rparr>) [] Map.empty
       = Some (Inl (Wrapf ''fetcher: %w'' [] (New_error ''fetcher: Countries is required'')))"
proof -
  let ?env = "sample_start\<lparr>decode_yaml := (\<lambda>_ _. Inr asn_config)\<rparr>"
  have "config_ok (\<lambda>_. None) asn_config"
    using sample_config_ok by (simp add: config_ok_def asn_config_def)
  then have l: "Load (read_file ?env) (decode_yaml ?env) (parse_cron ?env) default_config_path = Inr asn_config"
    by (simp add: sample_start_def Load_def Validate_ok_iff[symmetric])
  have "BlockConfig.countries (block asn_config) = []" by (simp add: asn_config_def)
  with start_needs_a_country[OF sample_flags l, of sample_mmdb "\<lambda>_. answering 200" Map.empty] l
  show ?thesis by (auto simp: sample_start_def)
qed

text \<open>
  C29 (error). The cache is not an optimisation alone: when its directory cannot be made, a daemon
  that started cold never gets a blocklist, whatever it is asked and however many good downloads it
  makes, and answers every check by its posture: a fail-closed one denies every request, a
  fail-open one lets every request through.
\<close>

theorem unwritable_cache_starves:
  assumes "start_daemon mmdb_open envs env args F = Some (Inr d0)" "Current (active (d_state d0)) = None"
    and "\<forall>renv. On_refresh renv \<in> set es \<longrightarrow> mkdir_err (disk_calls renv) \<noteq> None"
    and "daemon_run mmdb_open ctx es d0 = Some (rs, d)"
  shows "Current (active (d_state d)) = None
    \<and> (\<forall>r now now'. url_path r = ''/check'' \<and> http_method r = ''GET'' \<longrightarrow>
         (\<exists>d'. daemon_step mmdb_open ctx (On_request now now' r) d
           = Some ([write_header (if r_mode (d_tracker d0) = StartupFailOpen then 200 else blockStatus (d_server d0))], d')))"
proof -
  have wf: "daemon_wf d" "d_server d = d_server d0" "r_mode (d_tracker d) = r_mode (d_tracker d0)"
    using daemon_run_wf[OF start_wf[OF assms(1)], of mmdb_open ctx es] assms(4) by auto
  have none: "Current (active (d_state d)) = None" using unwritable_run[OF _ assms(4)] assms(2,3) by auto
  then have "check_answer d r
      = write_header (if r_mode (d_tracker d0) = StartupFailOpen then 200 else blockStatus (d_server d0))" for r
    using wf by (simp add: check_answer_def allowed_def failOpen_def)
  then show ?thesis using none daemon_check[OF wf(1)] by metis
qed

theorem unwritable_cache_starves_witness:
  "\<exists>d rs d1 d2. start_daemon sample_mmdb (\<lambda>_. answering 200) sample_start [] Map.empty = Some (Inr d)
    \<and> daemon_run sample_mmdb Background
        [On_refresh ((answering 200)\<lparr>disk_calls := sample_env\<lparr>mkdir_err := Some (Foreign ''EROFS'')\<rparr>\<rparr>)] d = Some (rs, d1)
    \<and> Current (active (d_state d1)) = None
    \<and> daemon_step sample_mmdb Background (On_request 5 6 sample_request) d1 = Some ([write_header 403], d2)"
proof -
  let ?env = "(answering 200)\<lparr>disk_calls := sample_env\<lparr>mkdir_err := Some (Foreign ''EROFS'')\<rparr>\<rparr>"
  obtain d where d: "start_daemon sample_mmdb (\<lambda>_. answering 200) sample_start [] Map.empty = Some (Inr d)"
      "Current (active (d_state d)) = None" "r_mode (d_tracker d) = StartupFailClosed" "blockStatus (d_server d) = 403"
    using sample_started by blast
  obtain rs d1 where run: "daemon_run sample_mmdb Background [On_refresh ?env] d = Some (rs, d1)"
    using daemon_run_wf[OF start_wf[OF d(1)]] by blast
  have e: "\<forall>renv. On_refresh renv \<in> set [On_refresh ?env] \<longrightarrow> mkdir_err (disk_calls renv) \<noteq> None" by simp
  have r: "url_path sample_request = ''/check'' \<and> http_method sample_request = ''GET''" by (simp add: sample_request_def)
  have m: "r_mode (d_tracker d) \<noteq> StartupFailOpen" by (simp add: d(3) StartupFailClosed_def StartupFailOpen_def)
  obtain d2 where "daemon_step sample_mmdb Background (On_request 5 6 sample_request) d1 = Some ([write_header 403], d2)"
      "Current (active (d_state d1)) = None"
    using unwritable_cache_starves[OF d(1,2) e run] r unfolding if_not_P[OF m] d(4) by blast
  with d(1) run show ?thesis by blast
qed

text \<open>
  C22 (error). A download that decompresses but holds no database the loader accepts is written over
  the good cache before it is loaded: the daemon that made the refresh keeps its blocklist, and the
  next start finds the bad file, deletes it and begins without any blocklist.
\<close>

theorem unloadable_download_costs_cache:
  assumes "bad_url renv (month_url (fetcher_of st0) (fst (env_months st0 renv))) = None"
    and "network renv (month_request (fetcher_of st0) (fst (env_months st0 renv))) = Inr resp" "status resp = 200"
    and "decompress (resp_body resp) = Inr bs"
    and "fst (write_files (cachePath (fetcher_of st0)) (disk_calls renv) (bytes_reader bs) (fsys st0)) = None"
    and "temp_fresh (disk_calls renv) (cachePath (fetcher_of st0)) (fsys st0)"
    and "LoadCountryBlocklist mmdb_open (cachePath (fetcher_of st0)) (Some bs) (fetcher.countries (fetcher_of st0)) = Some (Inl e)"
    and "\<not> errors_is e Diskcache_ErrAbsent"
    and "flag_parse default_config_path args = Inr path"
    and "Load (read_file env) (decode_yaml env) (parse_cron env) path = Inr cfg"
    and "cache_path (cache cfg) = cachePath (fetcher_of st0)"
    and "BlockConfig.countries (block cfg) = fetcher.countries (fetcher_of st0)" "BlockConfig.countries (block cfg) \<noteq> []"
    and "stat_fault env = None" "cache_fault env = None" "remove_fault env = None"
  shows "\<exists>err st d. Refresh mmdb_open renv st0 = Some ((OutcomeUnchanged, Some err), st) \<and> active st = active st0
    \<and> start_daemon mmdb_open envs env args (fsys st) = Some (Inr d)
    \<and> Current (active (d_state d)) = None \<and> fsys (d_state d) (cache_path (cache cfg)) = None"
proof -
  obtain err st where st: "Refresh mmdb_open renv st0 = Some ((OutcomeUnchanged, Some err), st)"
      "active st = active st0" "fsys st = (fsys st0)(cachePath (fetcher_of st0) \<mapsto> snapshot (disk_calls renv) bs)"
    by (rule Refresh_unloadable[OF assms(1-7)])
  have f: "fsys st (cache_path (cache cfg)) = Some (snapshot (disk_calls renv) bs)" by (simp add: st(3) assms(11))
  obtain ls where ls: "loadDiskCache mmdb_open env cfg NewSource (fsys st)
      = Some (ls, NewSource, (fsys st)(cache_path (cache cfg) := None))"
    using loadDiskCache_unloadable[where F = "fsys st", OF f, of mmdb_open e env NewSource] assms(7,8,11,12,14-16) by auto
  obtain d where "start_daemon mmdb_open envs env args (fsys st) = Some (Inr d)"
      "active (d_state d) = NewSource" "fsys (d_state d) = (fsys st)(cache_path (cache cfg) := None)"
    using start_daemon_config[OF assms(9,10), of mmdb_open envs "fsys st"] assms(13) ls by auto
  with st show ?thesis by (auto simp: NewSource_def Current_def)
qed

text \<open>A database reader that opens nothing.\<close>

theorem unloadable_download_costs_cache_witness:
  "\<exists>err st d. Refresh (\<lambda>_. Inl (Foreign ''invalid MaxMind DB'')) (answering 200)
       (sample_refresher\<lparr>fetcher_of := (fetcher_of sample_refresher)\<lparr>cachePath := sample_cache_path\<rparr>, fsys := Map.empty\<rparr>)
     = Some ((OutcomeUnchanged, Some err), st)
    \<and> start_daemon (\<lambda>_. Inl (Foreign ''invalid MaxMind DB'')) (\<lambda>_. answering 200) sample_start [] (fsys st) = Some (Inr d)
    \<and> Current (active (d_state d)) = None \<and> fsys (d_state d) sample_cache_path = None"
proof -
  let ?st = "sample_refresher\<lparr>fetcher_of := (fetcher_of sample_refresher)\<lparr>cachePath := sample_cache_path\<rparr>, fsys := Map.empty\<rparr>"
  let ?resp = "\<lparr>status = 200, resp_header = [''Etag'' \<mapsto> [''v1'']], resp_body = bytes_reader (gzip_stored [1, 2])\<rparr>"
  let ?e = "Wrapf ''mmdb: open %q: %w'' [FStr sample_cache_path] (Foreign ''invalid MaxMind DB'')"
  have c: "BlockConfig.countries (block sample_config) = [''CN'']" by (simp add: sample_config_def)
  have "\<exists>err st d. Refresh (\<lambda>_. Inl (Foreign ''invalid MaxMind DB'')) (answering 200) ?st
      = Some ((OutcomeUnchanged, Some err), st) \<and> active st = active ?st
    \<and> start_daemon (\<lambda>_. Inl (Foreign ''invalid MaxMind DB'')) (\<lambda>_. answering 200) sample_start [] (fsys st) = Some (Inr d)
    \<and> Current (active (d_state d)) = None \<and> fsys (d_state d) (cache_path (cache sample_config)) = None"
    by (rule unloadable_download_costs_cache[where resp = ?resp and bs = "[1, 2]" and e = ?e, OF _ _ _ _ _ _ _ _ sample_flags sample_Load])
      (simp_all add: answering_def sample_refresher_def c LoadCountryBlocklist_def sample_start_def
        sample_body sample_cache_write sample_cache_fresh sample_cache_path_eq)
  then show ?thesis unfolding sample_cache_path_eq by blast
qed

end
